(* ===== verification/Vbus_Prelude.thy ===== *)
theory Vbus_Prelude
  imports "HOL-Library.Word"
begin

text \<open>
  Shared vocabulary of the development: the machine integers of the C code, the outcome type
  that carries undefined behaviour, the NTSTATUS values the vbus driver uses, and the generic
  facts on words and lists that the component theories share.
\<close>

unbundle bit_operations_syntax

section \<open>Machine integers\<close>

type_synonym UINT8 = "8 word"
type_synonym UINT16 = "16 word"
type_synonym UINT32 = "32 word"
type_synonym UINT64 = "64 word"
type_synonym ULONG = "32 word"
type_synonym LONG = "32 word"
type_synonym size_t = "64 word"

text \<open>A truth value as the C operators \<open>!\<close>, \<open>==\<close> and \<open>&&\<close> produce it.\<close>

definition c_bool :: "bool \<Rightarrow> int" where
  "c_bool b = (if b then 1 else 0)"

text \<open>
  The cast \<open>(UINT64)(unsigned long) p\<close>: on Windows \<open>unsigned long\<close> has 32 bits, also where
  pointers have 64.
\<close>

definition ulong_cast :: "UINT64 \<Rightarrow> UINT64" where
  "ulong_cast p = ucast (ucast p :: ULONG)"

section \<open>Outcomes\<close>

text \<open>
  A C function either computes a result or runs into undefined behaviour. A model whose code
  can do the latter returns \<open>fault + 'a\<close>, with the fault on the left.
\<close>

datatype fault = NullDeref | OutOfBounds | UseAfterFree | Uninitialised

type_synonym 'a outcome = "fault + 'a"

fun bind_ok :: "'a outcome \<Rightarrow> ('a \<Rightarrow> 'b outcome) \<Rightarrow> 'b outcome" where
  "bind_ok (Inl e) f = Inl e"
| "bind_ok (Inr x) f = f x"

lemma bind_ok_eq_Inr [simp]: "bind_ok m f = Inr y \<longleftrightarrow> (\<exists>x. m = Inr x \<and> f x = Inr y)"
  by (cases m) auto

lemma bind_ok_assoc: "bind_ok (bind_ok m f) g = bind_ok m (\<lambda>x. bind_ok (f x) g)"
  by (cases m) auto

section \<open>NTSTATUS\<close>

text \<open>
  The status codes of the Windows driver kit that the vbus driver returns, with the values the
  kit documents, and its macro \<open>NT_SUCCESS\<close>: a status is a success when it is not negative
  as a signed 32-bit integer.
\<close>

type_synonym NTSTATUS = "32 word"

definition NT_SUCCESS :: "NTSTATUS \<Rightarrow> bool" where
  "NT_SUCCESS s \<longleftrightarrow> 0 \<le> sint s"

abbreviation (input) STATUS_SUCCESS :: NTSTATUS where "STATUS_SUCCESS \<equiv> 0"
abbreviation (input) STATUS_INVALID_HANDLE :: NTSTATUS where "STATUS_INVALID_HANDLE \<equiv> 0xC0000008"
abbreviation (input) STATUS_INVALID_PARAMETER :: NTSTATUS where "STATUS_INVALID_PARAMETER \<equiv> 0xC000000D"
abbreviation (input) STATUS_INVALID_DEVICE_REQUEST :: NTSTATUS where
  "STATUS_INVALID_DEVICE_REQUEST \<equiv> 0xC0000010"
abbreviation (input) STATUS_NO_MEMORY :: NTSTATUS where "STATUS_NO_MEMORY \<equiv> 0xC0000017"
abbreviation (input) STATUS_NO_MORE_ENTRIES :: NTSTATUS where "STATUS_NO_MORE_ENTRIES \<equiv> 0x8000001A"
abbreviation (input) STATUS_DEVICE_ALREADY_ATTACHED :: NTSTATUS where
  "STATUS_DEVICE_ALREADY_ATTACHED \<equiv> 0xC0000038"
abbreviation (input) STATUS_DEVICE_CONFIGURATION_ERROR :: NTSTATUS where
  "STATUS_DEVICE_CONFIGURATION_ERROR \<equiv> 0xC0000182"
abbreviation (input) STATUS_DEVICE_PROTOCOL_ERROR :: NTSTATUS where
  "STATUS_DEVICE_PROTOCOL_ERROR \<equiv> 0xC0000186"

lemma NT_SUCCESS_codes [simp]:
  "NT_SUCCESS STATUS_SUCCESS"
  "\<not> NT_SUCCESS STATUS_INVALID_HANDLE"
  "\<not> NT_SUCCESS STATUS_INVALID_PARAMETER"
  "\<not> NT_SUCCESS STATUS_INVALID_DEVICE_REQUEST"
  "\<not> NT_SUCCESS STATUS_NO_MEMORY"
  "\<not> NT_SUCCESS STATUS_NO_MORE_ENTRIES"
  "\<not> NT_SUCCESS STATUS_DEVICE_ALREADY_ATTACHED"
  "\<not> NT_SUCCESS STATUS_DEVICE_CONFIGURATION_ERROR"
  "\<not> NT_SUCCESS STATUS_DEVICE_PROTOCOL_ERROR"
  by (simp_all add: NT_SUCCESS_def)

section \<open>Words\<close>

lemma unat_word_inc:
  fixes v m :: "'a::len word"
  assumes "unat v < unat m"
  shows "unat (v + 1) = unat v + 1"
proof -
  note assms
  moreover have "unat m < 2 ^ LENGTH('a)"
    by (rule unsigned_less)
  ultimately have "unat v + unat (1 :: 'a word) < 2 ^ LENGTH('a)"
    unfolding unat_1 by linarith
  then show ?thesis
    by (simp only: unat_plus_if' if_True unat_1)
qed

lemma unat_pred_eq: "0 < unat m \<Longrightarrow> v = m - 1 \<longleftrightarrow> unat v = unat m - 1"
  for v m :: "'a::len word"
  by (metis unat_gt_0 unat_minus_one word_unat_eq_iff)

lemma unat_ucast_small: "unat w < 2 ^ LENGTH('b) \<Longrightarrow> unat (ucast w :: 'b::len word) = unat w"
  for w :: "'a::len word"
  by (simp add: unsigned_ucast_eq take_bit_nat_eq_self)

lemma ulong_cast_id: "ulong_cast p = p \<longleftrightarrow> unat p < 2 ^ 32"
proof -
  have "unat (ulong_cast p) = unat p mod 2 ^ 32"
    by (simp add: ulong_cast_def unsigned_ucast_eq take_bit_eq_mod unat_mod)
  then show ?thesis
    by (metis mod_less mod_less_divisor word_unat_eq_iff zero_less_numeral zero_less_power)
qed

lemma unat_ulong_cast_less: "unat (ulong_cast p) < 2 ^ 32"
proof -
  have "unat (ulong_cast p) = unat p mod 2 ^ 32"
    by (simp add: ulong_cast_def unsigned_ucast_eq take_bit_eq_mod unat_mod)
  then show ?thesis by simp
qed

lemma ulong_cast_idem [simp]: "ulong_cast (ulong_cast p) = ulong_cast p"
  by (rule ulong_cast_id [THEN iffD2, OF unat_ulong_cast_less])

section \<open>Pools\<close>

text \<open>
  The contract of an allocator: \<open>live\<close> lists the blocks that are allocated and \<open>put\<close> replaces that
  list, a failed request answers null and allocates nothing, and freeing a live block takes it off the
  list and does nothing else. The pools of both drivers and the queue handles of the bus interface are instances.
\<close>

locale allocator =
  fixes live :: "'s \<Rightarrow> 'h list"
    and put :: "'h list \<Rightarrow> 's \<Rightarrow> 's"
    and null :: 'h
    and alloc :: "'s \<Rightarrow> 'h \<times> 's"
    and free :: "'h \<Rightarrow> 's \<Rightarrow> 's outcome"
  assumes live_put: "live (put hs s) = hs"
    and put_live: "put (live s) s = s"
    and alloc_live: "alloc s = (h, s') \<Longrightarrow> live s' = (if h = null then live s else h # live s)"
    and free_null: "free null s = Inr s"
    and free_live: "h \<in> set (live s) \<Longrightarrow> h \<noteq> null \<Longrightarrow> free h s = Inr (put (remove1 h (live s)) s)"
begin

text \<open>A block that is allocated and freed again leaves the list as it was.\<close>

lemma alloc_free: "alloc s = (h, s') \<Longrightarrow> \<exists>s''. free h s' = Inr s'' \<and> live s'' = live s"
  using alloc_live [of s h s'] free_live [of h s'] free_null [of s'] live_put by (cases "h = null") auto

end

end
