(* ===== verification/Shm_Signal.thy ===== *)
theory Shm_Signal
  imports Vbus_Prelude
begin

text \<open>
  The shared-memory signal of \<open>windows/vbus/shm-signal.h\<close> and \<open>windows/vbus/shm-signal.c\<close>:
  two parties, north and south, each with an \<open>irq\<close> record in a shared descriptor that the
  other party marks. Each operation is one definition over the descriptor. The callbacks
  \<open>ops->inject\<close> and \<open>notifier->signal\<close> are in tail position in every operation, so an
  operation returns the new descriptor together with the call it ends in; the caller's theory
  runs that call.

  The lemmas give the effect of any sequence of operations of both parties: how often the remote
  side is interrupted, what masking defers, and what happens to \<open>pending\<close>.
\<close>

section \<open>Data\<close>

datatype locality = shm_locality_north | shm_locality_south

text \<open>\<open>!s->locale\<close>: the other party.\<close>

fun locality_not :: "locality \<Rightarrow> locality" where
  "locality_not shm_locality_north = shm_locality_south"
| "locality_not shm_locality_south = shm_locality_north"

text \<open>The value of the enumeration constant.\<close>

fun locality_val :: "locality \<Rightarrow> UINT8" where
  "locality_val shm_locality_north = 0"
| "locality_val shm_locality_south = 1"

record shm_signal_irq =
  enabled :: UINT8
  pending :: UINT8
  dirty :: UINT8

record shm_signal_desc =
  magic :: UINT32
  ver :: UINT32
  irq :: "locality \<Rightarrow> shm_signal_irq"

text \<open>
  The local context. \<open>'o\<close> stands for the operations table and \<open>'n\<close> for the notifier the
  owner registers; \<open>s_notifier = None\<close> is the null pointer. The pointer to the descriptor is
  not a field: the descriptor is passed beside the context.
\<close>

record ('o, 'n) shm_signal =
  s_locale :: locality
  s_ops :: 'o
  s_notifier :: "'n option"
  s_ref_count :: LONG

text \<open>The call an operation ends in.\<close>

datatype ('o, 'n) sig_call = NoCall | CallInject 'o | CallNotifier 'n

abbreviation upd_irq :: "locality \<Rightarrow> (shm_signal_irq \<Rightarrow> shm_signal_irq) \<Rightarrow> shm_signal_desc \<Rightarrow> shm_signal_desc"
  where "upd_irq l f d \<equiv> d\<lparr>irq := (irq d)(l := f (irq d l))\<rparr>"

definition SHM_SIGNAL_MAGIC :: UINT32 where "SHM_SIGNAL_MAGIC = 0x58fa39df"
definition SHM_SIGNAL_VER :: UINT32 where "SHM_SIGNAL_VER = 1"

section \<open>Operations\<close>

definition ShmSignalWakeup ::
  "('o, 'n) shm_signal \<Rightarrow> shm_signal_desc \<Rightarrow> shm_signal_desc \<times> ('o, 'n) sig_call" where
  "ShmSignalWakeup s d =
     (let i = irq d (s_locale s)
      in if enabled i \<noteq> 0 \<and> (dirty i \<noteq> 0 \<or> pending i \<noteq> 0)
         then (upd_irq (s_locale s) (\<lambda>i. i\<lparr>dirty := 0\<rparr>) d,
               case s_notifier s of None \<Rightarrow> NoCall | Some n \<Rightarrow> CallNotifier n)
         else (d, NoCall))"

definition ShmSignalEnable ::
  "('o, 'n) shm_signal \<Rightarrow> shm_signal_desc \<Rightarrow> shm_signal_desc \<times> ('o, 'n) sig_call" where
  "ShmSignalEnable s d =
     (let d1 = upd_irq (s_locale s) (\<lambda>i. i\<lparr>enabled := 1\<rparr>) d
      in ShmSignalWakeup s d1)"

definition ShmSignalDisable :: "('o, 'n) shm_signal \<Rightarrow> shm_signal_desc \<Rightarrow> shm_signal_desc" where
  "ShmSignalDisable s d = upd_irq (s_locale s) (\<lambda>i. i\<lparr>enabled := 0\<rparr>) d"

definition ShmSignalTestEnabled :: "('o, 'n) shm_signal \<Rightarrow> shm_signal_desc \<Rightarrow> int" where
  "ShmSignalTestEnabled s d = uint (enabled (irq d (s_locale s)))"

definition ShmSignalEoi ::
  "('o, 'n) shm_signal \<Rightarrow> shm_signal_desc \<Rightarrow> shm_signal_desc \<times> ('o, 'n) sig_call" where
  "ShmSignalEoi s d =
     (let d1 = upd_irq (s_locale s) (\<lambda>i. i\<lparr>pending := 0\<rparr>) d
      in ShmSignalWakeup s d1)"

definition ShmGet :: "('o, 'n) shm_signal \<Rightarrow> ('o, 'n) shm_signal" where
  "ShmGet s = s\<lparr>s_ref_count := s_ref_count s + 1\<rparr>"

definition ShmSignalInject ::
  "('o, 'n) shm_signal \<Rightarrow> shm_signal_desc \<Rightarrow> NTSTATUS \<times> shm_signal_desc \<times> ('o, 'n) sig_call" where
  "ShmSignalInject s d =
     (let r = locality_not (s_locale s);
          d1 = upd_irq r (\<lambda>i. i\<lparr>dirty := 1\<rparr>) d
      in if enabled (irq d1 r) \<noteq> 0 \<and> pending (irq d1 r) = 0
         then (STATUS_SUCCESS, upd_irq r (\<lambda>i. i\<lparr>pending := 1\<rparr>) d1, CallInject (s_ops s))
         else (STATUS_SUCCESS, d1, NoCall))"

definition ShmSignalInit :: "locality \<Rightarrow> 'o \<Rightarrow> ('o, 'n) shm_signal" where
  "ShmSignalInit loc ops =
     \<lparr>s_locale = loc, s_ops = ops, s_notifier = None, s_ref_count = 0\<rparr>"

text \<open>\<open>_signal_init\<close> of \<open>pci.c\<close>: stamp the descriptor, then initialise a north context.\<close>

definition signal_init :: "shm_signal_desc \<Rightarrow> 'o \<Rightarrow> shm_signal_desc \<times> ('o, 'n) shm_signal" where
  "signal_init d ops =
     (d\<lparr>magic := SHM_SIGNAL_MAGIC, ver := SHM_SIGNAL_VER\<rparr>, ShmSignalInit shm_locality_north ops)"

lemmas shm_defs =
  ShmSignalWakeup_def ShmSignalEnable_def ShmSignalDisable_def ShmSignalEoi_def
  ShmSignalInject_def ShmSignalTestEnabled_def Let_def

section \<open>Sequences of operations of both parties\<close>

datatype shm_op = OpEnable | OpDisable | OpWakeup | OpEoi | OpInject

fun shm_exec ::
  "('o, 'n) shm_signal \<Rightarrow> shm_op \<Rightarrow> shm_signal_desc \<Rightarrow> shm_signal_desc \<times> ('o, 'n) sig_call" where
  "shm_exec s OpEnable d = ShmSignalEnable s d"
| "shm_exec s OpDisable d = (ShmSignalDisable s d, NoCall)"
| "shm_exec s OpWakeup d = ShmSignalWakeup s d"
| "shm_exec s OpEoi d = ShmSignalEoi s d"
| "shm_exec s OpInject d = snd (ShmSignalInject s d)"

text \<open>
  Each party runs its operations on its own context; the run records who made which call.
\<close>

fun shm_run ::
  "(locality \<Rightarrow> ('o, 'n) shm_signal) \<Rightarrow> (locality \<times> shm_op) list \<Rightarrow> shm_signal_desc
   \<Rightarrow> shm_signal_desc \<times> (locality \<times> ('o, 'n) sig_call) list" where
  "shm_run ctx [] d = (d, [])"
| "shm_run ctx ((l, x) # xs) d =
     (let (d1, c) = shm_exec (ctx l) x d;
          (d2, cs) = shm_run ctx xs d1
      in (d2, (l, c) # cs))"

text \<open>The contexts carry the locality they are used for.\<close>

definition ctx_ok :: "(locality \<Rightarrow> ('o, 'n) shm_signal) \<Rightarrow> bool" where
  "ctx_ok ctx \<longleftrightarrow> s_locale (ctx shm_locality_north) = shm_locality_north
                  \<and> s_locale (ctx shm_locality_south) = shm_locality_south"

fun is_inject :: "('o, 'n) sig_call \<Rightarrow> bool" where
  "is_inject (CallInject f) = True"
| "is_inject NoCall = False"
| "is_inject (CallNotifier n) = False"

text \<open>The notifications that crossed the boundary towards party \<open>l\<close>.\<close>

definition injections_to :: "locality \<Rightarrow> (locality \<times> ('o, 'n) sig_call) list \<Rightarrow> nat" where
  "injections_to l cs = length (filter (\<lambda>(p, c). p = locality_not l \<and> is_inject c) cs)"

definition eois_of :: "locality \<Rightarrow> (locality \<times> shm_op) list \<Rightarrow> nat" where
  "eois_of l xs = length (filter (\<lambda>x. x = (l, OpEoi)) xs)"

section \<open>Lemmas\<close>

lemma locality_not_not [simp]: "locality_not (locality_not l) = l"
  by (cases l) auto

lemma locality_not_neq [simp]: "locality_not l \<noteq> l" "l \<noteq> locality_not l"
  by (cases l; simp)+

lemma locality_cases: "p \<noteq> l \<Longrightarrow> p = locality_not l"
  by (cases p; cases l) auto

lemma ctx_ok_locale [simp]: "ctx_ok ctx \<Longrightarrow> s_locale (ctx l) = l"
  by (cases l) (auto simp: ctx_ok_def)

text \<open>One step, seen from the irq of party \<open>l\<close>.\<close>

lemma shm_exec_pending:
  assumes "ctx_ok ctx" and "shm_exec (ctx p) x d = (d1, c)"
  shows "pending (irq d1 l) =
           (if p = l \<and> x = OpEoi then 0
            else if p = locality_not l \<and> is_inject c then 1 else pending (irq d l))"
    and "p = locality_not l \<Longrightarrow> is_inject c \<Longrightarrow> pending (irq d l) = 0"
    and "is_inject c \<Longrightarrow> x = OpInject"
  using assms
  by (cases x; cases "p = l"; auto simp: shm_defs dest: locality_cases split: if_splits option.splits)+

lemma injections_to_Cons:
  "injections_to l ((p, c) # cs) =
     (if p = locality_not l \<and> is_inject c then Suc (injections_to l cs) else injections_to l cs)"
  by (simp add: injections_to_def)

lemma eois_of_Cons:
  "eois_of l ((p, x) # xs) = (if p = l \<and> x = OpEoi then Suc (eois_of l xs) else eois_of l xs)"
  by (simp add: eois_of_def)

lemma shm_run_Cons_eq:
  "shm_run ctx ((p, x) # xs) d = (d', cs) \<longleftrightarrow>
     (\<exists>d1 c cs'. shm_exec (ctx p) x d = (d1, c) \<and> shm_run ctx xs d1 = (d', cs') \<and> cs = (p, c) # cs')"
  by (auto split: prod.splits)

lemma shm_run_append:
  "shm_run ctx (xs @ ys) d =
     (let (d1, cs) = shm_run ctx xs d; (d2, cs') = shm_run ctx ys d1 in (d2, cs @ cs'))"
  by (induction xs arbitrary: d) (auto split: prod.splits simp: Let_def)

lemma injections_bounded_aux:
  assumes "ctx_ok ctx" and "shm_run ctx xs d = (d', cs)"
  shows "injections_to l cs + (if pending (irq d' l) = 0 then 1 else 0)
         \<le> eois_of l xs + (if pending (irq d l) = 0 then 1 else 0)"
  using assms(2)
proof (induction xs arbitrary: d cs)
  case Nil
  then show ?case by (simp add: injections_to_def)
next
  case (Cons a xs)
  obtain p x where a: "a = (p, x)" by (cases a)
  from Cons.prems obtain d1 c cs' where step: "shm_exec (ctx p) x d = (d1, c)"
    and run: "shm_run ctx xs d1 = (d', cs')" and cs: "cs = (p, c) # cs'"
    unfolding a shm_run_Cons_eq by blast
  note IH = Cons.IH [OF run]
  note one = shm_exec_pending(1,2) [OF assms(1) step, of l] shm_exec_pending(3) [OF assms(1) step]
  show ?case
    using IH one by (auto simp: a cs injections_to_Cons eois_of_Cons split: if_splits)
qed

lemma inject_run_masked:
  assumes "ctx_ok ctx" and "enabled (irq d l) = 0"
  shows "shm_run ctx (replicate (Suc k) (locality_not l, OpInject)) d =
           (upd_irq l (\<lambda>i. i\<lparr>dirty := 1\<rparr>) d, replicate (Suc k) (locality_not l, NoCall))"
  using assms
  by (induction k arbitrary: d) (simp_all add: shm_defs)

section \<open>Properties\<close>

text \<open>Claim C20. Whatever the two parties do, in whatever order, a party is interrupted at most once per end of
  interrupt it signals itself, plus once if no signal was pending at the start: the \<open>pending\<close> flag suppresses every
  notification while one is in flight.\<close>

theorem injections_bounded:
  assumes "ctx_ok ctx" and "shm_run ctx xs d = (d', cs)"
  shows "injections_to l cs \<le> eois_of l xs + (if pending (irq d l) = 0 then 1 else 0)"
  using injections_bounded_aux [OF assms, of l] by simp

text \<open>A pending signal is acknowledged by \<open>ShmSignalEoi\<close> and by nothing else: a party that enables,
  disables and wakes up but never signals the end of an interrupt keeps \<open>pending\<close> set, and the other party never interrupts
  it again, however often it injects. No code under \<open>windows/\<close> calls \<open>ShmSignalEoi\<close>.\<close>

theorem pending_never_cleared_without_eoi:
  assumes "ctx_ok ctx" and "shm_run ctx xs d = (d', cs)"
    and "pending (irq d l) \<noteq> 0" and "eois_of l xs = 0"
  shows "pending (irq d' l) \<noteq> 0 \<and> injections_to l cs = 0"
  using injections_bounded_aux [OF assms(1,2), of l] assms(3,4) by (auto split: if_splits)

text \<open>Signals delivered while a party is masked are deferred: any number of injections cross the boundary
  not once, and the \<open>ShmSignalEnable\<close> that unmasks calls the registered notifier, exactly once for all of them, and leaves
  the descriptor clean and enabled.\<close>

theorem masked_signals_deferred:
  assumes "ctx_ok ctx" and "enabled (irq d l) = 0" and "s_notifier (ctx l) = Some n"
  shows "shm_run ctx (replicate (Suc k) (locality_not l, OpInject) @ [(l, OpEnable)]) d =
           (upd_irq l (\<lambda>i. i\<lparr>enabled := 1, dirty := 0\<rparr>) d,
            replicate (Suc k) (locality_not l, NoCall) @ [(l, CallNotifier n)])"
  unfolding shm_run_append inject_run_masked [OF assms(1,2)]
  using assms by (simp add: shm_defs)

section \<open>Witnesses\<close>

text \<open>Two contexts on one descriptor, for the instances below.\<close>

definition demo_ctx :: "locality \<Rightarrow> (unit, unit) shm_signal" where
  "demo_ctx l = \<lparr>s_locale = l, s_ops = (), s_notifier = Some (), s_ref_count = 1\<rparr>"

definition demo_desc :: "UINT8 \<Rightarrow> UINT8 \<Rightarrow> shm_signal_desc" where
  "demo_desc e p = \<lparr>magic = SHM_SIGNAL_MAGIC, ver = SHM_SIGNAL_VER,
     irq = (\<lambda>_. \<lparr>enabled = e, pending = p, dirty = 0\<rparr>)\<rparr>"

lemma demo_ctx_ok: "ctx_ok demo_ctx"
  by (simp add: ctx_ok_def demo_ctx_def)

lemma injections_bounded_witness:
  "\<exists>d' cs. shm_run demo_ctx
      [(shm_locality_south, OpInject), (shm_locality_south, OpInject), (shm_locality_north, OpEoi),
       (shm_locality_south, OpInject)] (demo_desc 1 0) = (d', cs)
    \<and> injections_to shm_locality_north cs = 2 \<and> injections_to shm_locality_north cs \<le> 1 + 1"
proof -
  let ?xs = "[(shm_locality_south, OpInject), (shm_locality_south, OpInject), (shm_locality_north, OpEoi),
              (shm_locality_south, OpInject)]"
  obtain d' cs where run: "shm_run demo_ctx ?xs (demo_desc 1 0) = (d', cs)"
    by (cases "shm_run demo_ctx ?xs (demo_desc 1 0)")
  have "injections_to shm_locality_north cs \<le> 1 + 1"
    using injections_bounded [OF demo_ctx_ok run, of shm_locality_north]
    by (simp add: demo_desc_def eois_of_def)
  moreover have "injections_to shm_locality_north cs = 2"
    using run by (auto simp: demo_ctx_def demo_desc_def shm_defs injections_to_def)
  ultimately show ?thesis using run by blast
qed

lemma pending_never_cleared_without_eoi_witness:
  "\<exists>d' cs. shm_run demo_ctx
      [(shm_locality_north, OpDisable), (shm_locality_south, OpInject), (shm_locality_north, OpEnable),
       (shm_locality_south, OpInject)] (demo_desc 1 1) = (d', cs)
    \<and> pending (irq d' shm_locality_north) \<noteq> 0 \<and> injections_to shm_locality_north cs = 0"
proof -
  let ?xs = "[(shm_locality_north, OpDisable), (shm_locality_south, OpInject), (shm_locality_north, OpEnable),
              (shm_locality_south, OpInject)]"
  obtain d' cs where run: "shm_run demo_ctx ?xs (demo_desc 1 1) = (d', cs)"
    by (cases "shm_run demo_ctx ?xs (demo_desc 1 1)")
  have "pending (irq d' shm_locality_north) \<noteq> 0 \<and> injections_to shm_locality_north cs = 0"
    using pending_never_cleared_without_eoi [OF demo_ctx_ok run, of shm_locality_north]
    by (simp add: demo_desc_def eois_of_def)
  then show ?thesis using run by blast
qed

lemma masked_signals_deferred_witness:
  "shm_run demo_ctx (replicate 3 (shm_locality_south, OpInject) @ [(shm_locality_north, OpEnable)])
       (demo_desc 0 0) =
     (upd_irq shm_locality_north (\<lambda>i. i\<lparr>enabled := 1, dirty := 0\<rparr>) (demo_desc 0 0),
      replicate 3 (shm_locality_south, NoCall) @ [(shm_locality_north, CallNotifier ())])"
  using masked_signals_deferred [OF demo_ctx_ok, of "demo_desc 0 0" shm_locality_north "()" 2]
  by (simp add: demo_ctx_def demo_desc_def numeral_eq_Suc)

end
