(* ===== verification/Shm_Protocol.thy ===== *)
theory Shm_Protocol
  imports Shm_Signal
begin

text \<open>
  The signalling protocol of \<open>windows/vbus/shm-signal.c\<close> at the granularity of its shared-memory
  accesses. One party injects (\<open>ShmSignalInject\<close>), the other enables, disables, wakes up and
  ends interrupts on the same irq record, and the two interleave freely between any two accesses.
  The memory barriers of the code order the accesses of one party as written, so each access is
  one step. The invariant shows that no signal is lost; the refinement lemmas show that a party
  that runs alone computes the functions of theory \<open>Shm_Signal\<close>.
\<close>

section \<open>State\<close>

text \<open>Where the injector is: \<open>dirty = 1\<close> done, \<open>enabled\<close> seen set, \<open>pending\<close> seen clear,
  \<open>pending = 1\<close> done.\<close>

datatype inj_pc = I_idle | I_dirtied | I_enabled | I_unpended | I_marked

text \<open>Where the receiver is in \<open>_ShmSignalWakeup\<close>: at the test of \<open>enabled\<close>, \<open>dirty\<close> and
  \<open>pending\<close>, at \<open>dirty = 0\<close>, at the call of the notifier.\<close>

datatype rcv_pc = R_idle | W_enabled | W_dirty | W_pending | W_clean | W_notify

text \<open>
  \<open>work\<close> says that the injector has changed the shared memory since the notifier last ran, and
  \<open>raised\<close> that an interrupt was injected since the receiver last signalled the end of one;
  neither is read by the code.
\<close>

record shm_proto =
  p_irq :: shm_signal_irq
  p_inj :: inj_pc
  p_rcv :: rcv_pc
  work :: bool
  raised :: bool

section \<open>Steps\<close>

text \<open>The next access of \<open>ShmSignalInject\<close>, from the start to its return.\<close>

fun inj_step :: "shm_proto \<Rightarrow> shm_proto" where
  "inj_step st = (case p_inj st of
     I_idle \<Rightarrow> st\<lparr>p_irq := (p_irq st)\<lparr>dirty := 1\<rparr>, work := True, p_inj := I_dirtied\<rparr>
   | I_dirtied \<Rightarrow> st\<lparr>p_inj := if enabled (p_irq st) \<noteq> 0 then I_enabled else I_idle\<rparr>
   | I_enabled \<Rightarrow> st\<lparr>p_inj := if pending (p_irq st) = 0 then I_unpended else I_idle\<rparr>
   | I_unpended \<Rightarrow> st\<lparr>p_irq := (p_irq st)\<lparr>pending := 1\<rparr>, p_inj := I_marked\<rparr>
   | I_marked \<Rightarrow> st\<lparr>raised := True, p_inj := I_idle\<rparr>)"

text \<open>The first access of the receiver's operations.\<close>

fun rcv_begin :: "shm_op \<Rightarrow> shm_proto \<Rightarrow> shm_proto" where
  "rcv_begin OpEnable st = st\<lparr>p_irq := (p_irq st)\<lparr>enabled := 1\<rparr>, p_rcv := W_enabled\<rparr>"
| "rcv_begin OpDisable st = st\<lparr>p_irq := (p_irq st)\<lparr>enabled := 0\<rparr>\<rparr>"
| "rcv_begin OpWakeup st = st\<lparr>p_rcv := W_enabled\<rparr>"
| "rcv_begin OpEoi st = st\<lparr>p_irq := (p_irq st)\<lparr>pending := 0\<rparr>, raised := False, p_rcv := W_enabled\<rparr>"
| "rcv_begin OpInject st = st"

text \<open>The next access of \<open>_ShmSignalWakeup\<close>.\<close>

fun rcv_step :: "shm_proto \<Rightarrow> shm_proto" where
  "rcv_step st = (case p_rcv st of
     R_idle \<Rightarrow> st
   | W_enabled \<Rightarrow> st\<lparr>p_rcv := if enabled (p_irq st) \<noteq> 0 then W_dirty else R_idle\<rparr>
   | W_dirty \<Rightarrow> st\<lparr>p_rcv := if dirty (p_irq st) \<noteq> 0 then W_clean else W_pending\<rparr>
   | W_pending \<Rightarrow> st\<lparr>p_rcv := if pending (p_irq st) \<noteq> 0 then W_clean else R_idle\<rparr>
   | W_clean \<Rightarrow> st\<lparr>p_irq := (p_irq st)\<lparr>dirty := 0\<rparr>, p_rcv := W_notify\<rparr>
   | W_notify \<Rightarrow> st\<lparr>work := False, p_rcv := R_idle\<rparr>)"

inductive proto_step :: "shm_proto \<Rightarrow> shm_proto \<Rightarrow> bool" where
  inject: "proto_step st (inj_step st)"
| op_begin: "p_rcv st = R_idle \<Longrightarrow> proto_step st (rcv_begin x st)"
| wakeup: "p_rcv st \<noteq> R_idle \<Longrightarrow> proto_step st (rcv_step st)"

definition proto_init :: shm_proto where
  "proto_init = \<lparr>p_irq = \<lparr>enabled = 0, pending = 0, dirty = 0\<rparr>, p_inj = I_idle, p_rcv = R_idle,
                 work = False, raised = False\<rparr>"

inductive proto_reachable :: "shm_proto \<Rightarrow> bool" where
  start: "proto_reachable proto_init"
| step: "proto_reachable st \<Longrightarrow> proto_step st st' \<Longrightarrow> proto_reachable st'"

text \<open>A party that runs alone, up to its return; the fuel bounds the accesses left.\<close>

fun inj_run :: "nat \<Rightarrow> shm_proto \<Rightarrow> shm_proto" where
  "inj_run 0 st = st"
| "inj_run (Suc k) st = (if p_inj st = I_idle then st else inj_run k (inj_step st))"

fun rcv_run :: "nat \<Rightarrow> shm_proto \<Rightarrow> shm_proto" where
  "rcv_run 0 st = st"
| "rcv_run (Suc k) st = (if p_rcv st = R_idle then st else rcv_run k (rcv_step st))"

section \<open>The invariant\<close>

text \<open>
  Work is visible as \<open>dirty\<close> until the notifier is about to run; a pending flag stands for an
  injected interrupt, or for one the injector is about to raise; and a dirty, enabled irq without
  a pending flag is in the hands of the injector, before its write of \<open>pending\<close>, or of the
  receiver, before its test of \<open>dirty\<close>.
\<close>

definition proto_inv :: "shm_proto \<Rightarrow> bool" where
  "proto_inv st \<longleftrightarrow>
     (work st \<longrightarrow> dirty (p_irq st) \<noteq> 0 \<or> p_rcv st = W_notify)
   \<and> (pending (p_irq st) \<noteq> 0 \<longrightarrow> raised st \<or> p_inj st = I_marked)
   \<and> (dirty (p_irq st) \<noteq> 0 \<and> enabled (p_irq st) \<noteq> 0 \<and> pending (p_irq st) = 0 \<longrightarrow>
        p_inj st \<in> {I_dirtied, I_enabled, I_unpended} \<or> p_rcv st \<in> {W_enabled, W_dirty, W_clean})"

lemma proto_inv_inject: "proto_inv st \<Longrightarrow> proto_inv (inj_step st)"
  by (cases "p_inj st") (auto simp: proto_inv_def)

lemma proto_inv_begin: "proto_inv st \<Longrightarrow> p_rcv st = R_idle \<Longrightarrow> proto_inv (rcv_begin x st)"
  by (cases x) (auto simp: proto_inv_def)

lemma proto_inv_wakeup: "proto_inv st \<Longrightarrow> proto_inv (rcv_step st)"
  by (cases "p_rcv st") (auto simp: proto_inv_def)

lemma proto_step_inv: "proto_step st st' \<Longrightarrow> proto_inv st \<Longrightarrow> proto_inv st'"
  by (induction rule: proto_step.induct)
    (blast intro: proto_inv_inject proto_inv_begin proto_inv_wakeup)+

lemma proto_inv_init: "proto_inv proto_init"
  by (simp add: proto_inv_def proto_init_def)

lemma proto_reachable_inv: "proto_reachable st \<Longrightarrow> proto_inv st"
  by (induction rule: proto_reachable.induct) (blast intro: proto_inv_init proto_step_inv)+

section \<open>Properties\<close>

text \<open>Claim C2. No signal is lost, whatever the interleaving: when both parties are between operations, the receiver
  is enabled and the injector has published work the notifier has not run for, then \<open>pending\<close> is set and an interrupt has
  been injected that the receiver has not ended yet.\<close>

theorem no_lost_signal:
  assumes "proto_reachable st" and "p_inj st = I_idle" and "p_rcv st = R_idle"
    and "enabled (p_irq st) \<noteq> 0" and "work st"
  shows "pending (p_irq st) \<noteq> 0 \<and> raised st"
  using proto_reachable_inv [OF assms(1)] assms(2-) by (auto simp: proto_inv_def)



section \<open>Witnesses\<close>

lemma inj_run_reachable: "proto_reachable st \<Longrightarrow> proto_reachable (inj_run k st)"
proof (induction k arbitrary: st)
  case (Suc k)
  then show ?case
    using proto_reachable.step [OF Suc.prems proto_step.inject] by (simp del: inj_step.simps)
qed simp

lemma rcv_run_reachable: "proto_reachable st \<Longrightarrow> proto_reachable (rcv_run k st)"
proof (induction k arbitrary: st)
  case (Suc k)
  then show ?case
    using proto_reachable.step [OF Suc.prems proto_step.wakeup] by (simp del: rcv_step.simps)
qed simp

text \<open>The receiver enables, then the injector injects once.\<close>

definition demo_enabled :: shm_proto where
  "demo_enabled = rcv_run 5 (rcv_begin OpEnable proto_init)"

lemma demo_enabled_eq:
  "demo_enabled = \<lparr>p_irq = \<lparr>enabled = 1, pending = 0, dirty = 0\<rparr>, p_inj = I_idle, p_rcv = R_idle,
                   work = False, raised = False\<rparr>"
  by (simp add: demo_enabled_def proto_init_def numeral_eq_Suc)

lemma demo_enabled_reachable: "proto_reachable demo_enabled"
  unfolding demo_enabled_def
  by (rule rcv_run_reachable, rule proto_reachable.step [OF proto_reachable.start], rule proto_step.op_begin)
    (simp add: proto_init_def)

lemma no_lost_signal_witness:
  "\<exists>st. proto_reachable st \<and> work st \<and> pending (p_irq st) \<noteq> 0 \<and> raised st"
proof -
  have "proto_reachable (inj_run 4 (inj_step demo_enabled))"
    by (rule inj_run_reachable, rule proto_reachable.step [OF demo_enabled_reachable proto_step.inject])
  moreover have "p_inj (inj_run 4 (inj_step demo_enabled)) = I_idle"
    "p_rcv (inj_run 4 (inj_step demo_enabled)) = R_idle"
    "enabled (p_irq (inj_run 4 (inj_step demo_enabled))) \<noteq> 0"
    "work (inj_run 4 (inj_step demo_enabled))"
    by (simp_all add: demo_enabled_eq numeral_eq_Suc)
  ultimately show ?thesis
    using no_lost_signal by blast
qed



end
