(* ===== verification/Shm_Library.thy ===== *)
theory Shm_Library
  imports Shm_Signal
begin

text \<open>
  The second copy of the shared-memory signal, \<open>windows/libraries/shm-signal/shm-signal.c\<close> with
  \<open>windows/include/shm-signal.h\<close>, meant as an export library. The layout of the shared
  descriptor is that of the bus copy (same header text), so \<open>shm_signal_desc\<close> is shared; the
  local context has no reference count and its notifier is a deferred call that the wakeup
  queues instead of a function that it calls. The header declares that notifier as an embedded
  structure while the code tests it and hands it to \<open>KeInsertQueueDpc\<close>; the model follows the
  code and has a nullable pointer.

  The lemmas show that the two copies can share one descriptor: a party may use either, and the
  descriptor and the notifications that cross the boundary are the same.
\<close>

section \<open>Data and operations\<close>

record ('o, 'd) lib_signal =
  l_locale :: locality
  l_ops :: 'o
  l_notifier :: "'d option"

datatype ('o, 'd) lib_call = LibNone | LibInject 'o | LibQueueDpc 'd

definition LibSignalWakeup ::
  "('o, 'd) lib_signal \<Rightarrow> shm_signal_desc \<Rightarrow> shm_signal_desc \<times> ('o, 'd) lib_call" where
  "LibSignalWakeup s d =
     (let i = irq d (l_locale s)
      in if enabled i \<noteq> 0 \<and> (dirty i \<noteq> 0 \<or> pending i \<noteq> 0)
         then (upd_irq (l_locale s) (\<lambda>i. i\<lparr>dirty := 0\<rparr>) d,
               case l_notifier s of None \<Rightarrow> LibNone | Some dpc \<Rightarrow> LibQueueDpc dpc)
         else (d, LibNone))"

definition LibSignalEnable ::
  "('o, 'd) lib_signal \<Rightarrow> shm_signal_desc \<Rightarrow> shm_signal_desc \<times> ('o, 'd) lib_call" where
  "LibSignalEnable s d = LibSignalWakeup s (upd_irq (l_locale s) (\<lambda>i. i\<lparr>enabled := 1\<rparr>) d)"

definition LibSignalDisable ::
  "('o, 'd) lib_signal \<Rightarrow> shm_signal_desc \<Rightarrow> shm_signal_desc" where
  "LibSignalDisable s d = upd_irq (l_locale s) (\<lambda>i. i\<lparr>enabled := 0\<rparr>) d"

definition LibSignalEoi ::
  "('o, 'd) lib_signal \<Rightarrow> shm_signal_desc \<Rightarrow> shm_signal_desc \<times> ('o, 'd) lib_call" where
  "LibSignalEoi s d = LibSignalWakeup s (upd_irq (l_locale s) (\<lambda>i. i\<lparr>pending := 0\<rparr>) d)"

definition LibSignalInject ::
  "('o, 'd) lib_signal \<Rightarrow> shm_signal_desc \<Rightarrow> NTSTATUS \<times> shm_signal_desc \<times> ('o, 'd) lib_call" where
  "LibSignalInject s d =
     (let r = locality_not (l_locale s);
          d1 = upd_irq r (\<lambda>i. i\<lparr>dirty := 1\<rparr>) d
      in if enabled (irq d1 r) \<noteq> 0 \<and> pending (irq d1 r) = 0
         then (STATUS_SUCCESS, upd_irq r (\<lambda>i. i\<lparr>pending := 1\<rparr>) d1, LibInject (l_ops s))
         else (STATUS_SUCCESS, d1, LibNone))"

definition LibSignalInit :: "locality \<Rightarrow> 'o \<Rightarrow> ('o, 'd) lib_signal" where
  "LibSignalInit loc ops = \<lparr>l_locale = loc, l_ops = ops, l_notifier = None\<rparr>"

lemmas lib_defs =
  LibSignalWakeup_def LibSignalEnable_def LibSignalDisable_def LibSignalEoi_def
  LibSignalInject_def Let_def

fun lib_exec ::
  "('o, 'd) lib_signal \<Rightarrow> shm_op \<Rightarrow> shm_signal_desc \<Rightarrow> shm_signal_desc \<times> ('o, 'd) lib_call" where
  "lib_exec s OpEnable d = LibSignalEnable s d"
| "lib_exec s OpDisable d = (LibSignalDisable s d, LibNone)"
| "lib_exec s OpWakeup d = LibSignalWakeup s d"
| "lib_exec s OpEoi d = LibSignalEoi s d"
| "lib_exec s OpInject d = snd (LibSignalInject s d)"

section \<open>The two copies on one descriptor\<close>

text \<open>A party uses the bus copy or the library.\<close>

datatype ('o, 'n, 'd) party = BusCopy "('o, 'n) shm_signal" | Library "('o, 'd) lib_signal"

text \<open>What a call does: nothing, a notification across the boundary, or a local wakeup.\<close>

datatype ('o, 'n) effect = Quiet | Cross 'o | Wake 'n

fun bus_effect :: "('o, 'n) sig_call \<Rightarrow> ('o, 'n) effect" where
  "bus_effect NoCall = Quiet"
| "bus_effect (CallInject p) = Cross p"
| "bus_effect (CallNotifier n) = Wake n"

fun lib_effect :: "('d \<Rightarrow> 'n) \<Rightarrow> ('o, 'd) lib_call \<Rightarrow> ('o, 'n) effect" where
  "lib_effect f LibNone = Quiet"
| "lib_effect f (LibInject p) = Cross p"
| "lib_effect f (LibQueueDpc dpc) = Wake (f dpc)"

fun party_exec ::
  "('d \<Rightarrow> 'n) \<Rightarrow> ('o, 'n, 'd) party \<Rightarrow> shm_op \<Rightarrow> shm_signal_desc
   \<Rightarrow> shm_signal_desc \<times> ('o, 'n) effect" where
  "party_exec f (BusCopy s) x d = apsnd bus_effect (shm_exec s x d)"
| "party_exec f (Library s) x d = apsnd (lib_effect f) (lib_exec s x d)"

fun party_run ::
  "('d \<Rightarrow> 'n) \<Rightarrow> (locality \<Rightarrow> ('o, 'n, 'd) party) \<Rightarrow> (locality \<times> shm_op) list \<Rightarrow> shm_signal_desc
   \<Rightarrow> shm_signal_desc \<times> (locality \<times> ('o, 'n) effect) list" where
  "party_run f ctx [] d = (d, [])"
| "party_run f ctx ((l, x) # xs) d =
     (let (d1, e) = party_exec f (ctx l) x d;
          (d2, es) = party_run f ctx xs d1
      in (d2, (l, e) # es))"

text \<open>The bus context a party stands for: a deferred call is the notifier that runs it.\<close>

fun as_bus :: "('d \<Rightarrow> 'n) \<Rightarrow> ('o, 'n, 'd) party \<Rightarrow> ('o, 'n) shm_signal" where
  "as_bus f (BusCopy s) = s"
| "as_bus f (Library s) =
     \<lparr>s_locale = l_locale s, s_ops = l_ops s, s_notifier = map_option f (l_notifier s),
      s_ref_count = 0\<rparr>"

lemma as_bus_init: "as_bus f (Library (LibSignalInit l p)) = ShmSignalInit l p"
  by (simp add: LibSignalInit_def ShmSignalInit_def)

lemma party_exec_as_bus:
  "party_exec f p x d = apsnd bus_effect (shm_exec (as_bus f p) x d)"
proof (cases p)
  case (Library s)
  then show ?thesis
    by (cases x) (auto simp: shm_defs lib_defs split: option.splits)
qed simp

lemma party_run_as_bus:
  "party_run f ctx xs d = apsnd (map (apsnd bus_effect)) (shm_run (\<lambda>l. as_bus f (ctx l)) xs d)"
  by (induction xs arbitrary: d) (auto simp: party_exec_as_bus split: prod.splits)

section \<open>Properties\<close>

text \<open>Claim C36. Whichever of the two copies each party links, a run of operations of both
  parties leaves the same shared descriptor as when both use the bus driver's copy, and causes the
  same notifications in the same order; and no party is interrupted more than once per end of
  interrupt it signals, plus once if nothing was pending.\<close>

theorem library_interoperates:
  fixes ctx :: "locality \<Rightarrow> ('o, 'n, 'd) party"
  assumes "ctx_ok (\<lambda>l. as_bus f (ctx l))" and "party_run f ctx xs d = (d', es)"
  shows "\<exists>cs. shm_run (\<lambda>l. as_bus f (ctx l)) xs d = (d', cs)
           \<and> es = map (apsnd bus_effect) cs
           \<and> length (filter (\<lambda>(p, e). p = locality_not l \<and> (\<exists>j. e = Cross j)) es)
             \<le> eois_of l xs + (if pending (irq d l) = 0 then 1 else 0)"
proof -
  let ?bus = "\<lambda>l. as_bus f (ctx l)"
  obtain d1 cs where run1: "shm_run ?bus xs d = (d1, cs)" by (cases "shm_run ?bus xs d")
  have run: "shm_run ?bus xs d = (d', cs)" and es: "es = map (apsnd bus_effect) cs"
    using assms(2) run1 by (auto simp: party_run_as_bus)
  have "(\<exists>j. bus_effect c = Cross j) = is_inject c" for c :: "('o, 'n) sig_call"
    by (cases c) auto
  then have "length (filter (\<lambda>(p, e). p = locality_not l \<and> (\<exists>j. e = Cross j)) es) = injections_to l cs"
    by (simp add: es injections_to_def filter_map comp_def case_prod_unfold)
  then show ?thesis
    using run es injections_bounded_aux [OF assms(1) run, of l] by auto
qed

section \<open>Witness\<close>

definition demo_party :: "locality \<Rightarrow> (unit, unit, nat) party" where
  "demo_party l = (case l of
     shm_locality_north \<Rightarrow> Library \<lparr>l_locale = l, l_ops = (), l_notifier = Some 7\<rparr>
   | shm_locality_south \<Rightarrow> BusCopy \<lparr>s_locale = l, s_ops = (), s_notifier = None, s_ref_count = 1\<rparr>)"

lemma library_interoperates_witness:
  "\<exists>d' es. party_run (\<lambda>_. ()) demo_party
       [(shm_locality_south, OpInject), (shm_locality_south, OpInject), (shm_locality_north, OpEoi)]
       (demo_desc 1 0) = (d', es)
     \<and> es = [(shm_locality_south, Cross ()), (shm_locality_south, Quiet), (shm_locality_north, Wake ())]
     \<and> length (filter (\<lambda>(p, e). p = shm_locality_south \<and> (\<exists>j. e = Cross j)) es) \<le> 1 + 1"
proof -
  let ?xs = "[(shm_locality_south, OpInject), (shm_locality_south, OpInject), (shm_locality_north, OpEoi)]"
  obtain d' es where run: "party_run (\<lambda>_. ()) demo_party ?xs (demo_desc 1 0) = (d', es)"
    by (cases "party_run (\<lambda>_. ()) demo_party ?xs (demo_desc 1 0)")
  have ok: "ctx_ok (\<lambda>l. as_bus (\<lambda>_. ()) (demo_party l))"
    by (simp add: ctx_ok_def demo_party_def)
  have "length (filter (\<lambda>(p, e). p = shm_locality_south \<and> (\<exists>j. e = Cross j)) es) \<le> 1 + 1"
    using library_interoperates [OF ok run, of shm_locality_north]
    by (elim exE conjE) (simp add: demo_desc_def eois_of_def del: shm_run.simps)
  moreover have "es = [(shm_locality_south, Cross ()), (shm_locality_south, Quiet), (shm_locality_north, Wake ())]"
    using run by (auto simp: demo_party_def demo_desc_def shm_defs lib_defs)
  ultimately show ?thesis using run by blast
qed

end
