(* ===== verification/Ioq_Ring.thy ===== *)
theory Ioq_Ring
  imports Shm_Signal
begin

text \<open>
  The lockless descriptor ring of \<open>windows/vbus/ioq.h\<close> and \<open>windows/vbus/ioq.c\<close>: the shared ring
  header with its two indexes, the local context and the iterator, and one definition per function.
  A pointer into the ring array is the position it points to, \<open>None\<close> is the null pointer and a
  pointer variable the code leaves unset is a fault when it is used. The lemmas relate an index to
  the list of ring slots it holds and show what push and pop do to that list.
\<close>

section \<open>Data\<close>

record ioq_ring_desc =
  cookie :: UINT64
  d_ptr :: UINT64
  d_len :: UINT64
  valid :: UINT8
  sown :: UINT8

record ioq_ring_idx =
  head :: UINT32
  tail :: UINT32
  full :: UINT8

datatype ioq_idx_type = ioq_idxtype_valid | ioq_idxtype_inuse | ioq_idxtype_both | ioq_idxtype_invalid

datatype ioq_seek_type = ioq_seek_tail | ioq_seek_next | ioq_seek_head | ioq_seek_set

text \<open>
  The shared header. The array \<open>idx[2]\<close> is indexed by the first two constants of the index type;
  the ring holds the \<open>count\<close> descriptors allocated behind the header.
\<close>

record ioq_ring_head =
  h_magic :: UINT32
  h_ver :: UINT32
  h_signal :: shm_signal_desc
  idx :: "ioq_idx_type \<Rightarrow> ioq_ring_idx"
  h_count :: UINT32
  ring :: "ioq_ring_desc list"

definition IOQ_RING_MAGIC :: UINT32 where "IOQ_RING_MAGIC = 0x47fa2fe4"
definition IOQ_RING_VER :: UINT32 where "IOQ_RING_VER = 4"

text \<open>
  The layout of the shared structures: a descriptor has three 8-byte and two 1-byte fields and
  8-byte alignment, the header puts the ring array behind two words, the 16-byte signal descriptor,
  two 12-byte indexes and the count.
\<close>

definition sizeof_ioq_ring_desc :: nat where "sizeof_ioq_ring_desc = 32"
definition offsetof_ring :: nat where "offsetof_ring = 56"
definition sizeof_ioq_ring_head :: nat where "sizeof_ioq_ring_head = offsetof_ring + sizeof_ioq_ring_desc"

definition IOQ_HEAD_DESC_SIZE :: "size_t \<Rightarrow> size_t" where
  "IOQ_HEAD_DESC_SIZE count =
     of_nat sizeof_ioq_ring_head + of_nat sizeof_ioq_ring_desc * (count - 1)"

text \<open>The notifier that \<open>ioq_init\<close> registers with the signal; it is the only one the ring uses.\<close>

datatype shm_notifier = Ioq_shm_signal

record ('o, 'n) ioq =
  q_ref :: LONG
  q_locale :: locality
  q_signal :: "('o, shm_notifier) shm_signal"
  q_notifier :: "'n option"
  q_count :: size_t

record ioq_iterator =
  it_idx :: "ioq_idx_type option"
  it_pos :: UINT32
  it_desc :: "UINT32 option"
  it_update :: bool
  it_dualidx :: bool
  it_flipowner :: bool

definition IOQ_ITER_AUTOUPDATE :: UINT32 where "IOQ_ITER_AUTOUPDATE = 1"
definition IOQ_ITER_NOFLIPOWNER :: UINT32 where "IOQ_ITER_NOFLIPOWNER = 2"

text \<open>\<open>ioq->count\<close> where the code passes it as a \<open>UINT32\<close> or an \<open>int\<close>.\<close>

abbreviation count32 :: "('o, 'n) ioq \<Rightarrow> UINT32" where
  "count32 q \<equiv> ucast (q_count q)"

section \<open>Reference counting and notification\<close>

definition ioq_get :: "('o, 'n) ioq \<Rightarrow> ('o, 'n) ioq" where
  "ioq_get q = q\<lparr>q_ref := q_ref q + 1\<rparr>"

text \<open>The second component says that \<open>ops->release\<close> is called.\<close>

definition ioq_put :: "('o, 'n) ioq \<Rightarrow> ('o, 'n) ioq \<times> bool" where
  "ioq_put q = (let r = q_ref q - 1 in (q\<lparr>q_ref := r\<rparr>, r = 0))"

text \<open>\<open>ioq_shm_signal\<close>: the signal's notifier forwards to the notifier of the ring, if any.\<close>

definition ioq_shm_signal :: "('o, 'n) ioq \<Rightarrow> ('o, 'n) sig_call" where
  "ioq_shm_signal q = (case q_notifier q of None \<Rightarrow> NoCall | Some n \<Rightarrow> CallNotifier n)"

fun ioq_dispatch :: "('o, 'n) ioq \<Rightarrow> ('o, shm_notifier) sig_call \<Rightarrow> ('o, 'n) sig_call" where
  "ioq_dispatch q NoCall = NoCall"
| "ioq_dispatch q (CallInject f) = CallInject f"
| "ioq_dispatch q (CallNotifier Ioq_shm_signal) = ioq_shm_signal q"

definition ioq_notify_enable ::
  "('o, 'n) ioq \<Rightarrow> ioq_ring_head \<Rightarrow> int \<times> ioq_ring_head \<times> ('o, 'n) sig_call" where
  "ioq_notify_enable q h =
     (let (d, c) = ShmSignalEnable (q_signal q) (h_signal h)
      in (0, h\<lparr>h_signal := d\<rparr>, ioq_dispatch q c))"

definition ioq_notify_disable :: "('o, 'n) ioq \<Rightarrow> ioq_ring_head \<Rightarrow> int \<times> ioq_ring_head" where
  "ioq_notify_disable q h = (0, h\<lparr>h_signal := ShmSignalDisable (q_signal q) (h_signal h)\<rparr>)"

definition ioq_signal ::
  "('o, 'n) ioq \<Rightarrow> ioq_ring_head \<Rightarrow> int \<times> ioq_ring_head \<times> ('o, 'n) sig_call" where
  "ioq_signal q h =
     (let (rc, d, c) = ShmSignalInject (q_signal q) (h_signal h)
      in (sint rc, h\<lparr>h_signal := d\<rparr>, ioq_dispatch q c))"

section \<open>Index arithmetic\<close>

definition modulo_inc :: "UINT32 \<Rightarrow> UINT32 \<Rightarrow> UINT32" where
  "modulo_inc val m = (if val = m - 1 then 0 else val + 1)"

definition idx_full :: "ioq_ring_idx \<Rightarrow> bool" where
  "idx_full i \<longleftrightarrow> full i \<noteq> 0 \<and> head i = tail i"

definition ioq_ring_count :: "ioq_ring_idx \<Rightarrow> UINT32 \<Rightarrow> int" where
  "ioq_ring_count i count =
     (if full i \<noteq> 0 \<and> head i = tail i then sint count
      else if head i \<le> tail i then sint (tail i - head i)
      else sint ((tail i + count) - head i))"

definition idx_tail_push :: "ioq_ring_idx \<Rightarrow> UINT32 \<Rightarrow> ioq_ring_idx" where
  "idx_tail_push i count =
     (let t = modulo_inc (tail i) count;
          i1 = (if head i = t then i\<lparr>full := 1\<rparr> else i)
      in i1\<lparr>tail := t\<rparr>)"

text \<open>The index updates of \<open>ioq_iter_pop\<close>: advance the head, then clear \<open>full\<close>.\<close>

definition idx_head_pop :: "ioq_ring_idx \<Rightarrow> UINT32 \<Rightarrow> ioq_ring_idx" where
  "idx_head_pop i count =
     (let i1 = i\<lparr>head := modulo_inc (head i) count\<rparr>
      in if full i1 \<noteq> 0 then i1\<lparr>full := 0\<rparr> else i1)"

section \<open>The iterator\<close>

definition idxtype_to_idx :: "ioq_idx_type \<Rightarrow> ioq_idx_type option" where
  "idxtype_to_idx t =
     (case t of ioq_idxtype_valid \<Rightarrow> Some t | ioq_idxtype_inuse \<Rightarrow> Some t | _ \<Rightarrow> None)"

definition ioq_iter_init :: "ioq_idx_type \<Rightarrow> UINT32 \<Rightarrow> int \<times> ioq_iterator" where
  "ioq_iter_init t flags =
     (0, \<lparr>it_idx = idxtype_to_idx (if t = ioq_idxtype_both then ioq_idxtype_valid else t),
          it_pos = -1,
          it_desc = None,
          it_update = (flags AND IOQ_ITER_AUTOUPDATE \<noteq> 0),
          it_dualidx = (t = ioq_idxtype_both),
          it_flipowner = (flags AND IOQ_ITER_NOFLIPOWNER = 0)\<rparr>)"

definition ioq_iter_setpos :: "ioq_iterator \<Rightarrow> UINT32 \<Rightarrow> int \<times> ioq_iterator" where
  "ioq_iter_setpos it p = (0, it\<lparr>it_pos := p, it_desc := Some p\<rparr>)"

fun ioq_iter_seek ::
  "('o, 'n) ioq \<Rightarrow> ioq_ring_head \<Rightarrow> ioq_iterator \<Rightarrow> ioq_seek_type \<Rightarrow> LONG \<Rightarrow> (int \<times> ioq_iterator) outcome"
where
  "ioq_iter_seek q h it ioq_seek_next offset =
     Inr (ioq_iter_setpos it (modulo_inc (it_pos it) (count32 q)))"
| "ioq_iter_seek q h it ioq_seek_tail offset =
     (case it_idx it of None \<Rightarrow> Inl Uninitialised | Some t \<Rightarrow> Inr (ioq_iter_setpos it (tail (idx h t))))"
| "ioq_iter_seek q h it ioq_seek_head offset =
     (case it_idx it of None \<Rightarrow> Inl Uninitialised | Some t \<Rightarrow> Inr (ioq_iter_setpos it (head (idx h t))))"
| "ioq_iter_seek q h it ioq_seek_set offset =
     (if sint (count32 q) \<le> sint offset then Inr (-1, it) else Inr (ioq_iter_setpos it offset))"

text \<open>Reading and writing through \<open>iter->desc\<close>.\<close>

definition desc_read :: "ioq_ring_head \<Rightarrow> ioq_iterator \<Rightarrow> ioq_ring_desc outcome" where
  "desc_read h it =
     (case it_desc it of
        None \<Rightarrow> Inl NullDeref
      | Some p \<Rightarrow> if unat p < length (ring h) then Inr (ring h ! unat p) else Inl OutOfBounds)"

definition desc_write ::
  "ioq_ring_head \<Rightarrow> ioq_iterator \<Rightarrow> (ioq_ring_desc \<Rightarrow> ioq_ring_desc) \<Rightarrow> ioq_ring_head outcome" where
  "desc_write h it f =
     (case it_desc it of
        None \<Rightarrow> Inl NullDeref
      | Some p \<Rightarrow> if unat p < length (ring h)
                 then Inr (h\<lparr>ring := (ring h)[unat p := f (ring h ! unat p)]\<rparr>)
                 else Inl OutOfBounds)"

abbreviation idx_upd ::
  "ioq_idx_type \<Rightarrow> (ioq_ring_idx \<Rightarrow> ioq_ring_idx) \<Rightarrow> ioq_ring_head \<Rightarrow> ioq_ring_head" where
  "idx_upd t f h \<equiv> h\<lparr>idx := (idx h)(t := f (idx h t))\<rparr>"

text \<open>The part push and pop share: flip the owner, move on, signal.\<close>

definition iter_finish ::
  "('o, 'n) ioq \<Rightarrow> ioq_ring_head \<Rightarrow> ioq_iterator
   \<Rightarrow> (int \<times> ioq_ring_head \<times> ioq_iterator \<times> ('o, 'n) sig_call) outcome" where
  "iter_finish q h it =
     bind_ok (if it_flipowner it
              then desc_write h it (\<lambda>d. d\<lparr>sown := locality_val (locality_not (q_locale q))\<rparr>)
              else Inr h)
       (\<lambda>h1. bind_ok (ioq_iter_seek q h1 it ioq_seek_next 0)
         (\<lambda>(ret, it1).
            if it_update it
            then (case ioq_signal q h1 of (_, h2, c) \<Rightarrow> Inr (ret, h2, it1, c))
            else Inr (ret, h1, it1, NoCall)))"

definition ioq_iter_push ::
  "('o, 'n) ioq \<Rightarrow> ioq_ring_head \<Rightarrow> ioq_iterator
   \<Rightarrow> (int \<times> ioq_ring_head \<times> ioq_iterator \<times> ('o, 'n) sig_call) outcome" where
  "ioq_iter_push q h it =
     (case it_idx it of
        None \<Rightarrow> Inl Uninitialised
      | Some t \<Rightarrow>
          if it_pos it \<noteq> tail (idx h t) then Inr (-1, h, it, NoCall)
          else bind_ok (desc_read h it) (\<lambda>d.
            if sown d \<noteq> locality_val (q_locale q) then Inr (-1, h, it, NoCall)
            else
              let h1 = idx_upd t (\<lambda>i. idx_tail_push i (count32 q)) h in
              if it_dualidx it then
                let h2 = idx_upd ioq_idxtype_inuse (\<lambda>i. idx_tail_push i (count32 q)) h1 in
                if tail (idx h2 ioq_idxtype_inuse) \<noteq> tail (idx h2 ioq_idxtype_valid)
                then Inr (-1, h2, it, NoCall)
                else iter_finish q h2 it
              else iter_finish q h1 it))"

definition ioq_iter_pop ::
  "('o, 'n) ioq \<Rightarrow> ioq_ring_head \<Rightarrow> ioq_iterator
   \<Rightarrow> (int \<times> ioq_ring_head \<times> ioq_iterator \<times> ('o, 'n) sig_call) outcome" where
  "ioq_iter_pop q h it =
     (case it_idx it of
        None \<Rightarrow> Inl Uninitialised
      | Some t \<Rightarrow>
          if it_pos it \<noteq> head (idx h t) then Inr (-1, h, it, NoCall)
          else bind_ok (desc_read h it) (\<lambda>d.
            if sown d \<noteq> locality_val (q_locale q) then Inr (-1, h, it, NoCall)
            else iter_finish q (idx_upd t (\<lambda>i. idx_head_pop i (count32 q)) h) it))"

section \<open>Queries and initialisation\<close>

definition ioq_count :: "('o, 'n) ioq \<Rightarrow> ioq_ring_head \<Rightarrow> ioq_idx_type \<Rightarrow> int outcome" where
  "ioq_count q h t =
     (case idxtype_to_idx t of
        None \<Rightarrow> Inl Uninitialised | Some t \<Rightarrow> Inr (ioq_ring_count (idx h t) (count32 q)))"

definition ioq_remain :: "('o, 'n) ioq \<Rightarrow> ioq_ring_head \<Rightarrow> ioq_idx_type \<Rightarrow> int outcome" where
  "ioq_remain q h t =
     (case idxtype_to_idx t of
        None \<Rightarrow> Inl Uninitialised
      | Some t \<Rightarrow> Inr (sint (ucast (q_count q - word_of_int (ioq_ring_count (idx h t) (count32 q))) :: 32 word)))"

definition ioq_size :: "('o, 'n) ioq \<Rightarrow> int" where
  "ioq_size q = sint (count32 q)"

definition ioq_full :: "('o, 'n) ioq \<Rightarrow> ioq_ring_head \<Rightarrow> ioq_idx_type \<Rightarrow> int outcome" where
  "ioq_full q h t =
     (case idxtype_to_idx t of
        None \<Rightarrow> Inl Uninitialised | Some t \<Rightarrow> Inr (c_bool (idx_full (idx h t))))"

definition ioq_empty :: "('o, 'n) ioq \<Rightarrow> ioq_ring_head \<Rightarrow> ioq_idx_type \<Rightarrow> int outcome" where
  "ioq_empty q h t = bind_ok (ioq_count q h t) (\<lambda>n. Inr (c_bool (n = 0)))"

text \<open>
  \<open>ioq_init\<close> clears the context, fills it in and registers the ring's notifier with the signal,
  whose updated context is part of the result.
\<close>

definition ioq_init :: "locality \<Rightarrow> ('o, shm_notifier) shm_signal \<Rightarrow> size_t \<Rightarrow> ('o, 'n) ioq" where
  "ioq_init loc signal count =
     \<lparr>q_ref = 0, q_locale = loc, q_signal = signal\<lparr>s_notifier := Some Ioq_shm_signal\<rparr>,
      q_notifier = None, q_count = count\<rparr>"

text \<open>The seek equations are unfolded by name; the lemmas on sought iterators replace them.\<close>

declare ioq_iter_seek.simps [simp del]

end
