(* ===== verification/Ioq_Slots.thy ===== *)
theory Ioq_Slots
  imports Ioq_Ring
begin

text \<open>
  What an index of the ring means: the list of slots from its head, as many as its count. The
  lemmas show that the counting functions of \<open>ioq.c\<close> return the length of that list, that a tail
  push appends the tail slot and that a head pop removes the head slot, with the wrap-around and
  the \<open>full\<close> flag of the code.
\<close>

section \<open>Well-formed rings\<close>

definition idx_ok :: "nat \<Rightarrow> ioq_ring_idx \<Rightarrow> bool" where
  "idx_ok n i \<longleftrightarrow> unat (head i) < n \<and> unat (tail i) < n \<and> (full i \<noteq> 0 \<longrightarrow> head i = tail i)"

abbreviation ring_size :: "('o, 'n) ioq \<Rightarrow> nat" where
  "ring_size q \<equiv> unat (q_count q)"

definition ring_ok :: "('o, 'n) ioq \<Rightarrow> ioq_ring_head \<Rightarrow> bool" where
  "ring_ok q h \<longleftrightarrow>
     0 < ring_size q \<and> ring_size q < 2 ^ 31 \<and> length (ring h) = ring_size q
   \<and> idx_ok (ring_size q) (idx h ioq_idxtype_valid) \<and> idx_ok (ring_size q) (idx h ioq_idxtype_inuse)"

definition idx_count :: "nat \<Rightarrow> ioq_ring_idx \<Rightarrow> nat" where
  "idx_count n i =
     (if idx_full i then n
      else if head i \<le> tail i then unat (tail i) - unat (head i)
      else unat (tail i) + n - unat (head i))"

definition idx_slots :: "nat \<Rightarrow> ioq_ring_idx \<Rightarrow> nat list" where
  "idx_slots n i = map (\<lambda>k. (unat (head i) + k) mod n) [0..<idx_count n i]"

lemma length_idx_slots [simp]: "length (idx_slots n i) = idx_count n i"
  by (simp add: idx_slots_def)

lemma idx_count_le: "idx_ok n i \<Longrightarrow> idx_count n i \<le> n"
  by (auto simp: idx_count_def idx_ok_def word_le_nat_alt)

lemma idx_count_eq_full: "idx_ok n i \<Longrightarrow> idx_count n i = n \<longleftrightarrow> idx_full i"
  by (auto simp: idx_count_def idx_ok_def word_le_nat_alt)

lemma tail_eq_head_plus_count:
  "idx_ok n i \<Longrightarrow> unat (tail i) = (unat (head i) + idx_count n i) mod n"
  by (auto simp: idx_count_def idx_ok_def idx_full_def word_le_nat_alt)

lemma mod_offset_inj_le:
  fixes n :: nat
  assumes "b < n" and "a \<le> b" and "(h + a) mod n = (h + b) mod n"
  shows "a = b"
proof -
  have "n dvd (h + b) - (h + a)"
    using assms by (metis add_le_mono le_refl mod_eq_dvd_iff_nat)
  then show ?thesis
    using assms nat_dvd_not_less [of "b - a" n] by (cases "a = b") auto
qed

lemma mod_offset_inj:
  fixes n :: nat
  assumes "a < n" and "b < n" and "(h + a) mod n = (h + b) mod n"
  shows "a = b"
  using mod_offset_inj_le [of b n a h] mod_offset_inj_le [of a n b h] assms
  by (cases "a \<le> b") auto

lemma idx_slots_distinct:
  assumes "idx_ok n i"
  shows "distinct (idx_slots n i)"
proof -
  have "inj_on (\<lambda>k. (unat (head i) + k) mod n) {0..<idx_count n i}"
  proof (rule inj_onI)
    fix x y
    assume "x \<in> {0..<idx_count n i}" and "y \<in> {0..<idx_count n i}"
      and "(unat (head i) + x) mod n = (unat (head i) + y) mod n"
    then show "x = y"
      using idx_count_le [OF assms] mod_offset_inj [of x n y "unat (head i)"] by simp
  qed
  then show ?thesis
    by (simp add: idx_slots_def distinct_map)
qed

lemma idx_slots_bound: "idx_ok n i \<Longrightarrow> s \<in> set (idx_slots n i) \<Longrightarrow> s < n"
  by (auto simp: idx_slots_def idx_ok_def)

lemma tail_not_in_slots:
  assumes "idx_ok n i" and "idx_count n i < n"
  shows "unat (tail i) \<notin> set (idx_slots n i)"
proof
  assume "unat (tail i) \<in> set (idx_slots n i)"
  then obtain k where "k < idx_count n i"
    and "(unat (head i) + idx_count n i) mod n = (unat (head i) + k) mod n"
    using tail_eq_head_plus_count [OF assms(1)] by (auto simp: idx_slots_def)
  then show False
    using mod_offset_inj [of "idx_count n i" n k "unat (head i)"] assms(2) by simp
qed

lemma tail_in_full_slots: "idx_ok n i \<Longrightarrow> idx_count n i = n \<Longrightarrow> s < n \<Longrightarrow> s \<in> set (idx_slots n i)"
  by (metis card_subset_eq distinct_card finite_lessThan idx_slots_bound idx_slots_distinct
      length_idx_slots lessThan_iff subsetI card_lessThan)

lemma idx_slots_hd:
  assumes "idx_ok n i" and "0 < idx_count n i"
  shows "idx_slots n i \<noteq> []" and "hd (idx_slots n i) = unat (head i)"
proof -
  show "idx_slots n i \<noteq> []" using assms(2) by (metis length_idx_slots length_greater_0_conv)
  show "hd (idx_slots n i) = unat (head i)"
    using assms by (simp add: idx_slots_def idx_ok_def hd_map upt_rec)
qed

section \<open>Increment, push and pop\<close>

lemma unat_modulo_inc:
  assumes "unat v < unat m"
  shows "unat (modulo_inc v m) = (unat v + 1) mod unat m"
  using assms unat_word_inc [OF assms] unat_pred_eq [of m v]
  by (auto simp: modulo_inc_def)

lemma idx_tail_push_ok:
  assumes "idx_ok (unat m) i" and "idx_count (unat m) i < unat m"
  shows "idx_ok (unat m) (idx_tail_push i m)"
    and "idx_count (unat m) (idx_tail_push i m) = Suc (idx_count (unat m) i)"
    and "idx_slots (unat m) (idx_tail_push i m) = idx_slots (unat m) i @ [unat (tail i)]"
proof -
  let ?n = "unat m" and ?j = "idx_tail_push i m"
  have t: "unat (tail i) < ?n" and h: "unat (head i) < ?n"
    using assms(1) by (auto simp: idx_ok_def)
  have nf: "full i = 0"
    using assms idx_count_eq_full [of ?n i] by (auto simp: idx_full_def idx_ok_def)
  note inc = unat_modulo_inc [OF t]
  show ok: "idx_ok ?n ?j"
    using t h inc nf by (auto simp: idx_tail_push_def Let_def idx_ok_def)
  show c: "idx_count ?n ?j = Suc (idx_count ?n i)"
  proof (cases "unat (tail i) + 1 = ?n")
    case True
    then show ?thesis
      using inc nf h assms(2)
      by (auto simp: idx_tail_push_def Let_def idx_count_def idx_full_def word_le_nat_alt word_unat_eq_iff)
  next
    case False
    then show ?thesis
      using inc nf h t assms(2)
      by (auto simp: idx_tail_push_def Let_def idx_count_def idx_full_def word_le_nat_alt word_unat_eq_iff)
  qed
  have "head ?j = head i" by (simp add: idx_tail_push_def Let_def)
  then show "idx_slots ?n ?j = idx_slots ?n i @ [unat (tail i)]"
    using tail_eq_head_plus_count [OF assms(1)] by (simp add: idx_slots_def c)
qed

lemma idx_head_pop_ok:
  assumes "idx_ok (unat m) i" and "0 < idx_count (unat m) i"
  shows "idx_ok (unat m) (idx_head_pop i m)"
    and "idx_count (unat m) (idx_head_pop i m) = idx_count (unat m) i - 1"
    and "idx_slots (unat m) (idx_head_pop i m) = tl (idx_slots (unat m) i)"
proof -
  let ?n = "unat m" and ?j = "idx_head_pop i m"
  have t: "unat (tail i) < ?n" and h: "unat (head i) < ?n"
    using assms(1) by (auto simp: idx_ok_def)
  note inc = unat_modulo_inc [OF h]
  have f: "full ?j = 0" by (simp add: idx_head_pop_def Let_def)
  have hj: "unat (head ?j) = (unat (head i) + 1) mod ?n" and tj: "tail ?j = tail i"
    using inc by (simp_all add: idx_head_pop_def Let_def)
  show "idx_ok ?n ?j"
    using t hj tj f h by (simp add: idx_ok_def)
  show c: "idx_count ?n ?j = idx_count ?n i - 1"
  proof (cases "unat (head i) + 1 = ?n")
    case True
    then have "unat (head ?j) = 0" using hj by simp
    then show ?thesis
      using True f t tj assms
      by (auto simp: idx_count_def idx_full_def idx_ok_def word_le_nat_alt word_unat_eq_iff)
  next
    case False
    then have "unat (head ?j) = unat (head i) + 1" using hj h by simp
    then show ?thesis
      using False f t h tj assms
      by (auto simp: idx_count_def idx_full_def idx_ok_def word_le_nat_alt word_unat_eq_iff)
  qed
  have "(unat (head ?j) + k) mod ?n = (unat (head i) + Suc k) mod ?n" for k
    using hj by (simp add: mod_simps)
  moreover obtain c' where "idx_count ?n i = Suc c'"
    using assms(2) by (cases "idx_count ?n i") auto
  ultimately show "idx_slots ?n ?j = tl (idx_slots ?n i)"
    using c by (auto simp: idx_slots_def map_Suc_upt [symmetric] upt_rec [of 0 "Suc c'"]
        comp_def simp del: upt_Suc)
qed

section \<open>Counting\<close>

lemma sint_small:
  fixes w :: "32 word"
  assumes "unat w < 2 ^ 31"
  shows "sint w = int (unat w)"
proof -
  have "int (unat w) < int (2 ^ 31)"
    using assms by (simp only: of_nat_less_iff)
  then have "uint w < 2 ^ 31" by simp
  then have "signed_take_bit 31 (uint w) = uint w"
    by (intro signed_take_bit_int_eq_self) (simp_all add: order_trans [OF _ uint_ge_0])
  then show ?thesis by (simp add: sint_uint)
qed

lemma count32_eq: "ring_size q < 2 ^ 31 \<Longrightarrow> unat (count32 q) = ring_size q"
  by (simp add: unat_ucast_small)

lemma ring_okD:
  assumes "ring_ok q h"
  shows "unat (count32 q) = ring_size q" and "0 < ring_size q" and "ring_size q < 2 ^ 31"
    and "length (ring h) = ring_size q"
    and "t = ioq_idxtype_valid \<or> t = ioq_idxtype_inuse \<Longrightarrow> idx_ok (ring_size q) (idx h t)"
  using assms count32_eq [of q] by (auto simp: ring_ok_def)

lemma ioq_ring_count_eq:
  assumes "idx_ok (unat m) i" and "unat m < 2 ^ 31"
  shows "ioq_ring_count i m = int (idx_count (unat m) i)"
proof -
  have t: "unat (tail i) < unat m" and h: "unat (head i) < unat m"
    using assms(1) by (auto simp: idx_ok_def)
  have "sint m = int (unat m)" using assms(2) by (rule sint_small)
  moreover have "sint (tail i - head i) = int (unat (tail i) - unat (head i))" if "head i \<le> tail i"
    using that t assms(2) by (subst sint_small) (auto simp: unat_sub)
  moreover have "sint ((tail i + m) - head i) = int (unat (tail i) + unat m - unat (head i))"
    if "\<not> head i \<le> tail i"
  proof -
    have s: "unat (tail i + m) = unat (tail i) + unat m"
      using t assms(2) by (simp add: unat_plus_if')
    then have "unat ((tail i + m) - head i) = unat (tail i) + unat m - unat (head i)"
      using h by (simp add: unat_sub word_le_nat_alt)
    moreover have "unat (tail i) + unat m - unat (head i) < 2 ^ 31"
      using that h assms(2) by (simp add: word_le_nat_alt)
    ultimately show ?thesis by (simp add: sint_small)
  qed
  ultimately show ?thesis
    by (simp add: ioq_ring_count_def idx_count_def idx_full_def)
qed

end
