(* ===== verification/Ioq_Types.thy ===== *)
theory Ioq_Types
  imports Ioq_Slots
begin

text \<open>
  Type soundness of the iterator interface of \<open>windows/vbus/ioq.c\<close>: a typing of rings and iterators, with
  every position inside the ring, that all operations keep, whatever their flags and whoever owns the
  descriptors. A program over the interface never faults; the one call that has to be excluded is a seek
  to a negative offset.
\<close>

section \<open>Typing\<close>

definition idx_typed :: "nat \<Rightarrow> ioq_ring_idx \<Rightarrow> bool" where
  "idx_typed n i \<longleftrightarrow> unat (head i) < n \<and> unat (tail i) < n"

definition ring_typed :: "('o, 'n) ioq \<Rightarrow> ioq_ring_head \<Rightarrow> bool" where
  "ring_typed q h \<longleftrightarrow>
     0 < ring_size q \<and> ring_size q < 2 ^ 31 \<and> length (ring h) = ring_size q
   \<and> idx_typed (ring_size q) (idx h ioq_idxtype_valid) \<and> idx_typed (ring_size q) (idx h ioq_idxtype_inuse)"

text \<open>An iterator is as \<open>ioq_iter_init\<close> left it, or its position and descriptor agree inside the ring.\<close>

definition iter_typed :: "('o, 'n) ioq \<Rightarrow> ioq_iterator \<Rightarrow> bool" where
  "iter_typed q it \<longleftrightarrow>
     (it_idx it = Some ioq_idxtype_valid \<or> it_idx it = Some ioq_idxtype_inuse)
   \<and> (it_pos it = -1 \<and> it_desc it = None \<or> unat (it_pos it) < ring_size q \<and> it_desc it = Some (it_pos it))"

section \<open>Programs\<close>

datatype iter_op = Seek ioq_seek_type LONG | Push | Pop

fun op_typed :: "iter_op \<Rightarrow> bool" where
  "op_typed (Seek w offset) = (w = ioq_seek_set \<longrightarrow> 0 \<le> sint offset)"
| "op_typed _ = True"

text \<open>A program keeps the last result; a call of the host or of the notifier does not touch the ring.\<close>

fun iter_exec :: "('o, 'n) ioq \<Rightarrow> iter_op \<Rightarrow> ioq_ring_head \<times> ioq_iterator \<Rightarrow> (int \<times> ioq_ring_head \<times> ioq_iterator) outcome" where
  "iter_exec q (Seek w offset) (h, it) = bind_ok (ioq_iter_seek q h it w offset) (\<lambda>(r, it1). Inr (r, h, it1))"
| "iter_exec q Push (h, it) = bind_ok (ioq_iter_push q h it) (\<lambda>(r, h1, it1, c). Inr (r, h1, it1))"
| "iter_exec q Pop (h, it) = bind_ok (ioq_iter_pop q h it) (\<lambda>(r, h1, it1, c). Inr (r, h1, it1))"

fun iter_run :: "('o, 'n) ioq \<Rightarrow> iter_op list \<Rightarrow> ioq_ring_head \<times> ioq_iterator \<Rightarrow> (ioq_ring_head \<times> ioq_iterator) outcome" where
  "iter_run q [] s = Inr s"
| "iter_run q (x # xs) s = bind_ok (iter_exec q x s) (\<lambda>(r, s1). iter_run q xs s1)"

section \<open>Progress and preservation\<close>

lemma ring_typedD:
  assumes "ring_typed q h"
  shows "unat (count32 q) = ring_size q" and "0 < ring_size q" and "ring_size q < 2 ^ 31" and "length (ring h) = ring_size q"
    and "t = ioq_idxtype_valid \<or> t = ioq_idxtype_inuse \<Longrightarrow> idx_typed (ring_size q) (idx h t)"
  using assms count32_eq [of q] by (auto simp: ring_typed_def)

lemma modulo_inc_bound: "unat v < unat m \<Longrightarrow> unat (modulo_inc v m) < unat m"
  by (simp add: unat_modulo_inc)

lemma push_typed: "idx_typed (unat m) i \<Longrightarrow> idx_typed (unat m) (idx_tail_push i m)"
  by (simp add: idx_typed_def idx_tail_push_def Let_def modulo_inc_bound)

lemma pop_typed: "idx_typed (unat m) i \<Longrightarrow> idx_typed (unat m) (idx_head_pop i m)"
  by (simp add: idx_typed_def idx_head_pop_def Let_def modulo_inc_bound)

lemma ring_typed_upd:
  assumes "ring_typed q h" and "t = ioq_idxtype_valid \<or> t = ioq_idxtype_inuse" and "idx_typed (ring_size q) i"
  shows "ring_typed q (h\<lparr>idx := (idx h)(t := i)\<rparr>)"
  using assms by (auto simp: ring_typed_def)

lemma seek_typed:
  assumes "ring_typed q h" and "iter_typed q it" and "op_typed (Seek w offset)"
  shows "\<exists>r it'. ioq_iter_seek q h it w offset = Inr (r, it') \<and> iter_typed q it'"
proof -
  note D = ring_typedD [OF assms(1)]
  obtain t where t: "it_idx it = Some t" "t = ioq_idxtype_valid \<or> t = ioq_idxtype_inuse"
    using assms(2) by (auto simp: iter_typed_def)
  have i: "unat (head (idx h t)) < ring_size q" "unat (tail (idx h t)) < ring_size q"
    using D(5) [OF t(2)] by (simp_all add: idx_typed_def)
  show ?thesis
  proof (cases w)
    case ioq_seek_next
    have "unat (modulo_inc (it_pos it) (count32 q)) < ring_size q"
    proof (cases "it_pos it = -1")
      case True
      then have "modulo_inc (it_pos it) (count32 q) = 0" by (simp add: modulo_inc_def)
      then show ?thesis using D(2) by simp
    next
      case False
      then have "unat (it_pos it) < unat (count32 q)" using assms(2) D(1) by (auto simp: iter_typed_def)
      then show ?thesis using modulo_inc_bound D(1) by metis
    qed
    then show ?thesis
      using ioq_seek_next t by (auto simp: ioq_iter_seek.simps ioq_iter_setpos_def iter_typed_def)
  next
    case ioq_seek_set
    show ?thesis
    proof (cases "sint (count32 q) \<le> sint offset")
      case False
      then have "0 \<le> sint offset" "sint offset < int (ring_size q)"
        using assms(3) ioq_seek_set D(1,3) sint_small [of "count32 q"] by simp_all
      moreover from this(1) have "uint offset = sint offset"
        using sint_lt [of offset] by (simp add: uint_sint take_bit_int_eq_self)
      ultimately have "int (unat offset) < int (ring_size q)"
        by (simp only: uint_nat [symmetric])
      then have "unat offset < ring_size q" by (simp only: of_nat_less_iff)
      then show ?thesis
        using ioq_seek_set False t by (auto simp: ioq_iter_seek.simps ioq_iter_setpos_def iter_typed_def)
    qed (use ioq_seek_set assms(2) in \<open>auto simp: ioq_iter_seek.simps\<close>)
  qed (use t i in \<open>auto simp: ioq_iter_seek.simps ioq_iter_setpos_def iter_typed_def\<close>)
qed

definition moved :: "('o, 'n) ioq \<Rightarrow> (int \<times> ioq_ring_head \<times> ioq_iterator \<times> ('o, 'n) sig_call) outcome \<Rightarrow> bool" where
  "moved q x \<longleftrightarrow> (\<exists>r h it c. x = Inr (r, h, it, c) \<and> ring_typed q h \<and> iter_typed q it)"

lemma moved_Inr [simp]: "moved q (Inr (r, h, it, c)) \<longleftrightarrow> ring_typed q h \<and> iter_typed q it"
  by (simp add: moved_def)

lemma finish_typed:
  assumes "ring_typed q h" and "iter_typed q it" and "it_desc it = Some (it_pos it)" and "unat (it_pos it) < ring_size q"
  shows "moved q (iter_finish q h it)"
proof -
  let ?it = "it\<lparr>it_pos := modulo_inc (it_pos it) (count32 q), it_desc := Some (modulo_inc (it_pos it) (count32 q))\<rparr>"
  note D = ring_typedD [OF assms(1)]
  have it': "iter_typed q ?it"
    using assms(2,4) modulo_inc_bound [of "it_pos it" "count32 q"] D(1) by (simp add: iter_typed_def)
  have "\<exists>h1. (if it_flipowner it then desc_write h it (\<lambda>d. d\<lparr>sown := locality_val (locality_not (q_locale q))\<rparr>) else Inr h) = Inr h1
      \<and> ring_typed q h1"
    using assms D(4) by (auto simp: desc_write_def ring_typed_def)
  then obtain h1 where h1: "ring_typed q h1"
    "(if it_flipowner it then desc_write h it (\<lambda>d. d\<lparr>sown := locality_val (locality_not (q_locale q))\<rparr>) else Inr h) = Inr h1"
    by blast
  obtain r2 h2 c2 where s: "ioq_signal q h1 = (r2, h2, c2)" by (metis prod_cases3)
  then have "ring_typed q h2" using h1(1) by (auto simp: ioq_signal_def ring_typed_def split: prod.splits)
  then show ?thesis
    using h1 s it' by (simp add: iter_finish_def ioq_iter_seek.simps ioq_iter_setpos_def)
qed

lemma move_typed:
  assumes h: "ring_typed q h" and it: "iter_typed q it" and t: "it_idx it = Some t"
    and pos: "it_pos it = tail (idx h t) \<or> it_pos it = head (idx h t)"
  shows "\<exists>d. desc_read h it = Inr d" and "unat (it_pos it) < ring_size q" and "it_desc it = Some (it_pos it)"
proof -
  note D = ring_typedD [OF h]
  have tt: "t = ioq_idxtype_valid \<or> t = ioq_idxtype_inuse" using it t by (auto simp: iter_typed_def)
  show b: "unat (it_pos it) < ring_size q" using D(5) [OF tt] pos by (auto simp: idx_typed_def)
  then have "it_pos it \<noteq> -1" using D(3) by (auto simp: unsigned_minus_1_eq_mask mask_eq_exp_minus_1)
  then show d: "it_desc it = Some (it_pos it)" using it by (simp add: iter_typed_def)
  show "\<exists>d. desc_read h it = Inr d" using b d D(4) by (simp add: desc_read_def)
qed

lemma iter_push_typed:
  assumes h: "ring_typed q h" and it: "iter_typed q it"
  shows "moved q (ioq_iter_push q h it)"
proof -
  note D = ring_typedD [OF h]
  obtain t where t: "it_idx it = Some t" "t = ioq_idxtype_valid \<or> t = ioq_idxtype_inuse"
    using it by (auto simp: iter_typed_def)
  show ?thesis
  proof (cases "it_pos it = tail (idx h t)")
    case True
    note M = move_typed [OF h it t(1) disjI1 [OF True]]
    define h1 where "h1 = idx_upd t (\<lambda>i. idx_tail_push i (count32 q)) h"
    define h2 where "h2 = idx_upd ioq_idxtype_inuse (\<lambda>i. idx_tail_push i (count32 q)) h1"
    have h1: "ring_typed q h1"
      using ring_typed_upd [OF h t(2)] push_typed [of "count32 q"] D(1) D(5) [OF t(2)] by (simp add: h1_def)
    have h2: "ring_typed q h2"
      using ring_typed_upd [OF h1, of ioq_idxtype_inuse] push_typed [of "count32 q"] D(1)
        ring_typedD(5) [OF h1, of ioq_idxtype_inuse] by (simp add: h2_def)
    obtain d where d: "desc_read h it = Inr d" using M(1) by blast
    have "ioq_iter_push q h it =
        (if sown d \<noteq> locality_val (q_locale q) then Inr (-1, h, it, NoCall)
         else if it_dualidx it
              then if tail (idx h2 ioq_idxtype_inuse) \<noteq> tail (idx h2 ioq_idxtype_valid) then Inr (-1, h2, it, NoCall)
                   else iter_finish q h2 it
              else iter_finish q h1 it)"
      using True t(1) d unfolding ioq_iter_push_def Let_def h2_def h1_def by simp
    then show ?thesis
      using h it h2 finish_typed [OF h1 it M(3,2)] finish_typed [OF h2 it M(3,2)] by simp
  qed (use t h it in \<open>simp add: ioq_iter_push_def\<close>)
qed

lemma iter_pop_typed:
  assumes h: "ring_typed q h" and it: "iter_typed q it"
  shows "moved q (ioq_iter_pop q h it)"
proof -
  note D = ring_typedD [OF h]
  obtain t where t: "it_idx it = Some t" "t = ioq_idxtype_valid \<or> t = ioq_idxtype_inuse"
    using it by (auto simp: iter_typed_def)
  show ?thesis
  proof (cases "it_pos it = head (idx h t)")
    case True
    note M = move_typed [OF h it t(1) disjI2 [OF True]]
    have h1: "ring_typed q (idx_upd t (\<lambda>i. idx_head_pop i (count32 q)) h)"
      using ring_typed_upd [OF h t(2)] pop_typed [of "count32 q"] D(1) D(5) [OF t(2)] by simp
    obtain d where "desc_read h it = Inr d" using M(1) by blast
    then show ?thesis
      using True t(1) h it finish_typed [OF h1 it M(3,2)] by (simp add: ioq_iter_pop_def)
  qed (use t h it in \<open>simp add: ioq_iter_pop_def\<close>)
qed

lemma exec_typed:
  assumes "ring_typed q h" and "iter_typed q it" and "op_typed x"
  shows "\<exists>r h' it'. iter_exec q x (h, it) = Inr (r, h', it') \<and> ring_typed q h' \<and> iter_typed q it'"
proof (cases x)
  case (Seek w offset)
  then show ?thesis using seek_typed [OF assms(1,2), of w offset] assms(1,3) by auto
next
  case Push
  then show ?thesis using iter_push_typed [OF assms(1,2)] by (auto simp: moved_def)
next
  case Pop
  then show ?thesis using iter_pop_typed [OF assms(1,2)] by (auto simp: moved_def)
qed

lemma run_typed:
  assumes "ring_typed q h" and "iter_typed q it" and "\<forall>x\<in>set xs. op_typed x"
  shows "\<exists>h' it'. iter_run q xs (h, it) = Inr (h', it') \<and> ring_typed q h' \<and> iter_typed q it'"
  using assms
proof (induction xs arbitrary: h it)
  case (Cons x xs)
  then obtain r h1 it1 where "iter_exec q x (h, it) = Inr (r, h1, it1)" "ring_typed q h1" "iter_typed q it1"
    using exec_typed [of q h it x] by auto
  then show ?case using Cons by simp
qed simp

section \<open>Properties\<close>

text \<open>Claim C19. Every program of seeks, pushes and pops on an iterator that \<open>ioq_iter_init\<close> set up, for one index or both and
  with any flags, runs to its end without a fault on a typed ring, whatever its results, and leaves ring and iterator typed: no position ever leaves the ring and no descriptor is read
  before the iterator was sought. Only a seek to a negative offset is excluded.\<close>

theorem ioq_programs_type_safe:
  assumes "ring_typed q h" and "t \<noteq> ioq_idxtype_invalid" and "ioq_iter_init t flags = (rc, it)"
    and "\<forall>offset. Seek ioq_seek_set offset \<in> set xs \<longrightarrow> 0 \<le> sint offset"
  shows "\<exists>h' it'. iter_run q xs (h, it) = Inr (h', it') \<and> ring_typed q h' \<and> iter_typed q it'"
proof -
  have "iter_typed q it"
    using assms(2,3) by (cases t) (auto simp: ioq_iter_init_def idxtype_to_idx_def iter_typed_def)
  moreover have "op_typed x" if "x \<in> set xs" for x
    using assms(4) that by (cases x) auto
  ultimately show ?thesis using run_typed [OF assms(1)] by blast
qed

section \<open>Witnesses\<close>

text \<open>A program on a ring of two descriptors: it fills a slot, seeks beyond the end, wraps around and pops.\<close>

definition typed_ioq :: "(unit, unit) ioq" where
  "typed_ioq = ioq_init shm_locality_north (ShmSignalInit shm_locality_north ()) 2"

definition typed_head :: ioq_ring_head where
  "typed_head = \<lparr>h_magic = IOQ_RING_MAGIC, h_ver = IOQ_RING_VER,
     h_signal = \<lparr>magic = SHM_SIGNAL_MAGIC, ver = SHM_SIGNAL_VER, irq = (\<lambda>_. \<lparr>enabled = 0, pending = 0, dirty = 0\<rparr>)\<rparr>,
     idx = (\<lambda>_. \<lparr>head = 0, tail = 0, full = 0\<rparr>), h_count = 2,
     ring = replicate 2 \<lparr>cookie = 0, d_ptr = 0, d_len = 0, valid = 0, sown = 0\<rparr>\<rparr>"

lemma ioq_programs_type_safe_witness:
  "\<exists>h' it'. iter_run typed_ioq [Push, Seek ioq_seek_tail 0, Push, Seek ioq_seek_set 7, Push, Seek ioq_seek_next 0, Pop]
     (typed_head, snd (ioq_iter_init ioq_idxtype_both 3)) = Inr (h', it') \<and> ring_typed typed_ioq h' \<and> iter_typed typed_ioq it'"
proof -
  have a: "ring_typed typed_ioq typed_head"
    by (simp add: ring_typed_def idx_typed_def typed_ioq_def typed_head_def ioq_init_def)
  obtain rc it where it: "ioq_iter_init ioq_idxtype_both 3 = (rc, it)" by fastforce
  have c: "\<forall>offset. Seek ioq_seek_set offset \<in> set [Push, Seek ioq_seek_tail 0, Push, Seek ioq_seek_set 7, Push,
      Seek ioq_seek_next 0, Pop] \<longrightarrow> 0 \<le> sint offset"
    by simp
  show ?thesis
    unfolding it snd_conv by (rule ioq_programs_type_safe [OF a _ it c]) simp
qed

end
