(* ===== verification/Pci_State.thy ===== *)
theory Pci_State
  imports Ioq_Ring
begin

text \<open>
  The state of the PCI-to-vbus bridge, \<open>windows/vbus/pci.c\<close> and \<open>windows/vbus/vbus_pci.h\<close>: the
  global \<open>vbus_pci\<close>, the memory it points to, the pool behind \<open>VbusAlloc\<close> and \<open>VbusFree\<close>
  (\<open>windows/vbus/vbus.c\<close>) and the log of what the driver does to the hardware and to the
  framework. The hypervisor and the address translation of the kernel are not part of the
  repository: they are the record \<open>host\<close>, an argument of the definitions that use them.
\<close>

section \<open>The hypercall interface\<close>

definition VBUS_PCI_ABI_MAGIC :: UINT32 where "VBUS_PCI_ABI_MAGIC = 0xbf53eef5"
definition VBUS_PCI_HC_VERSION :: UINT32 where "VBUS_PCI_HC_VERSION = 1"

datatype bridge_nr =
  VBUS_PCI_BRIDGE_NEGOTIATE | VBUS_PCI_BRIDGE_QREG | VBUS_PCI_BRIDGE_SLOWCALL
  | VBUS_PCI_BRIDGE_FASTCALL_ADD | VBUS_PCI_BRIDGE_FASTCALL_DROP

fun bridge_val :: "bridge_nr \<Rightarrow> UINT32" where
  "bridge_val VBUS_PCI_BRIDGE_NEGOTIATE = 0"
| "bridge_val VBUS_PCI_BRIDGE_QREG = 1"
| "bridge_val VBUS_PCI_BRIDGE_SLOWCALL = 2"
| "bridge_val VBUS_PCI_BRIDGE_FASTCALL_ADD = 3"
| "bridge_val VBUS_PCI_BRIDGE_FASTCALL_DROP = 4"

datatype hc_nr = VBUS_PCI_HC_DEVOPEN | VBUS_PCI_HC_DEVCLOSE | VBUS_PCI_HC_DEVCALL | VBUS_PCI_HC_DEVSHM

fun hc_val :: "hc_nr \<Rightarrow> UINT32" where
  "hc_val VBUS_PCI_HC_DEVOPEN = 0"
| "hc_val VBUS_PCI_HC_DEVCLOSE = 1"
| "hc_val VBUS_PCI_HC_DEVCALL = 2"
| "hc_val VBUS_PCI_HC_DEVSHM = 3"

record vbus_pci_call_desc =
  c_vector :: UINT32
  c_len :: UINT32
  c_datap :: UINT64

record vbus_pci_fastcall_desc =
  f_call :: vbus_pci_call_desc
  f_result :: UINT32

text \<open>
  What the pointer of a call points to when the host looks: the parameter structures of
  \<open>vbus_pci.h\<close>, or memory of a client. The members \<open>prio\<close> and \<open>cookie\<close> of a shared-memory
  registration without a signal are never written: \<open>None\<close>.
\<close>

datatype hc_data =
    Negotiate UINT32 UINT32 UINT64
  | Busreg UINT32 "(UINT32 \<times> UINT64 \<times> UINT64) list"
  | Call_desc vbus_pci_call_desc
  | Device_open UINT32 UINT32 UINT64
  | Device_call UINT64 UINT32 UINT32 UINT32 UINT64
  | Device_shm UINT64 UINT32 UINT32 UINT32 UINT32 "(UINT32 \<times> UINT64) option" UINT64
  | Device_handle UINT64
  | Client_memory "UINT8 list"

text \<open>
  The events of the host. The members \<open>add.id\<close> and \<open>handle.handle\<close> of the union share its first
  eight bytes, \<open>ev_word\<close>; \<open>ev_type\<close> is \<open>add.type\<close>.
\<close>

record vbus_pci_event =
  eventid :: UINT32
  ev_word :: UINT64
  ev_type :: "UINT8 list"

definition VBUS_MAX_DEVTYPE_LEN :: nat where "VBUS_MAX_DEVTYPE_LEN = 128"

text \<open>\<open>sizeof(struct vbus_pci_event)\<close>: a word, padding, the id and the type string.\<close>

definition sizeof_event :: nat where "sizeof_event = 16 + VBUS_MAX_DEVTYPE_LEN"

definition event_zero :: vbus_pci_event where
  "event_zero = \<lparr>eventid = 0, ev_word = 0, ev_type = replicate VBUS_MAX_DEVTYPE_LEN 0\<rparr>"

section \<open>The driver's state\<close>

text \<open>The operation tables a signal of this driver can carry, and the notifier of the event queue.\<close>

datatype pci_ops = Ops_null | Signal_ops | Eventq_signal_ops

datatype pci_notifier = Eventq_wakeup

text \<open>\<open>struct _signal\<close>, with the descriptor its signal points to.\<close>

record pci_signal =
  sg_signal :: "(pci_ops, UINT64) shm_signal"
  sg_desc :: shm_signal_desc
  sg_handle :: UINT32
  sg_refCount :: LONG

text \<open>The context of a child device; \<open>pd_shms = None\<close> is a list head that was never initialised.\<close>

record pdo_data =
  pd_shms :: "UINT64 list option"
  pd_handle :: UINT64
  pd_id :: UINT64
  pd_type :: "UINT8 list"
  pd_bh :: UINT64

datatype pci_lock = Bridge_lock | Fast_lock

text \<open>The plug-and-play and power capabilities declared for a child; the states are those of the six system states.\<close>

datatype device_power = PowerDeviceD1 | PowerDeviceD2 | PowerDeviceD3

record child_caps =
  cc_removable :: bool
  cc_eject :: bool
  cc_surprise_ok :: bool
  cc_address :: ULONG
  cc_ui_number :: ULONG
  cc_d1 :: bool
  cc_wake_from_d1 :: bool
  cc_device_wake :: device_power
  cc_states :: "device_power list"

text \<open>
  What the driver does to the outside, in order. The write of a port or register that starts a
  hypercall carries the data the call points to.
\<close>

datatype pci_io =
    Acquire pci_lock
  | Release pci_lock
  | Write_register_buffer UINT64 "UINT32 list" hc_data
  | Read_register UINT64
  | Write_register UINT64 UINT32
  | Write_port UINT64 UINT32
  | Write_port_call UINT64 UINT32 hc_data
  | Child_present UINT64 "UINT8 list"
  | Child_missing UINT64
  | Child_capabilities child_caps
  | Notify UINT64
  | Queue_dpc
  | Unmap_io UINT64 ULONG

text \<open>
  \<open>struct vbus_pci\<close>. The lock and interrupt handles of the framework are numbers with 0 for none;
  \<open>vp_head_desc\<close> and \<open>vp_signal\<close> are the pointers \<open>eventq.head_desc\<close> and \<open>eventq.signal\<close>.
\<close>

record vbus_pci =
  vp_lock :: UINT64
  vp_interrupt :: UINT64
  vp_bus :: "nat option"
  vp_eventq :: "(pci_ops, pci_notifier) ioq"
  vp_head_desc :: UINT64
  vp_signal :: UINT64
  vp_ring :: UINT64
  vp_regs :: UINT64
  vp_regs_length :: ULONG
  vp_signals :: UINT64
  vp_signals_length :: ULONG
  vp_enabled :: int

text \<open>The machine: the global, the memory behind its pointers, the pool, the framework's children
  and the log.\<close>

record machine =
  vbus :: vbus_pci
  fastparams :: vbus_pci_fastcall_desc
  fastlock :: UINT64
  m_head :: ioq_ring_head
  m_events :: "vbus_pci_event list"
  m_sigs :: "UINT64 \<rightharpoonup> pci_signal"
  m_live :: "UINT64 list"
  m_pool :: "UINT64 list"
  m_children :: "pdo_data list"
  m_io :: "pci_io list"

text \<open>
  The parts outside the repository: the physical address of a pointer, the addresses of the variables
  \<open>vbus_pci.signals\<close> and \<open>fastparams\<close> and of a parameter structure on the stack, the value the host leaves in the bridgecall register, what
  the host does to the fastcall block and the data behind it when a port is written and to the shared memory while the
  driver runs, and what the framework answers when asked for a lock, an interrupt or a mapping.
  The host's replies may depend on everything the driver did before.
\<close>

record host =
  pa :: "UINT64 \<Rightarrow> UINT64"
  va_signals :: UINT64
  va_fastparams :: UINT64
  va_params :: UINT64
  hc_bridge :: "pci_io list \<Rightarrow> UINT32"
  hc_port :: "pci_io list \<Rightarrow> UINT64 \<Rightarrow> vbus_pci_fastcall_desc \<Rightarrow> hc_data
              \<Rightarrow> vbus_pci_fastcall_desc \<times> hc_data"
  hc_step :: "machine \<Rightarrow> machine"
  wdf_lock :: "pci_lock \<Rightarrow> NTSTATUS \<times> UINT64"
  wdf_interrupt :: "NTSTATUS \<times> UINT64"
  map_io :: "UINT64 \<Rightarrow> ULONG \<Rightarrow> UINT64"

definition io :: "pci_io \<Rightarrow> machine \<Rightarrow> machine" where
  "io e m = m\<lparr>m_io := m_io m @ [e]\<rparr>"

text \<open>\<open>memset(&vbus_pci, 0, sizeof(vbus_pci))\<close>.\<close>

definition ioq_zero :: "(pci_ops, pci_notifier) ioq" where
  "ioq_zero = \<lparr>q_ref = 0, q_locale = shm_locality_north,
     q_signal = \<lparr>s_locale = shm_locality_north, s_ops = Ops_null, s_notifier = None, s_ref_count = 0\<rparr>,
     q_notifier = None, q_count = 0\<rparr>"

definition vbus_pci_zero :: vbus_pci where
  "vbus_pci_zero = \<lparr>vp_lock = 0, vp_interrupt = 0, vp_bus = None, vp_eventq = ioq_zero, vp_head_desc = 0, vp_signal = 0, vp_ring = 0,
     vp_regs = 0, vp_regs_length = 0, vp_signals = 0, vp_signals_length = 0, vp_enabled = 0\<rparr>"

lemma io_simps [simp]:
  "vbus (io e m) = vbus m" "fastparams (io e m) = fastparams m" "fastlock (io e m) = fastlock m"
  "m_head (io e m) = m_head m" "m_events (io e m) = m_events m" "m_sigs (io e m) = m_sigs m"
  "m_live (io e m) = m_live m" "m_pool (io e m) = m_pool m" "m_children (io e m) = m_children m"
  "m_io (io e m) = m_io m @ [e]"
  by (simp_all add: io_def)

section \<open>The pool\<close>

text \<open>
  \<open>m_pool\<close> holds what \<open>ExAllocatePoolWithTag\<close> will answer, 0 for failure; a pool without answers
  left fails. \<open>m_live\<close> holds the blocks that are allocated. Freeing a block that is not allocated
  is a fault.
\<close>

definition VbusAlloc :: "machine \<Rightarrow> UINT64 \<times> machine" where
  "VbusAlloc m = (case m_pool m of
     [] \<Rightarrow> (0, m)
   | p # ps \<Rightarrow> (p, m\<lparr>m_pool := ps, m_live := if p = 0 then m_live m else p # m_live m\<rparr>))"

definition VbusFree :: "UINT64 \<Rightarrow> machine \<Rightarrow> machine outcome" where
  "VbusFree p m =
     (if p = 0 then Inr m
      else if p \<in> set (m_live m) then Inr (m\<lparr>m_live := remove1 p (m_live m)\<rparr>)
      else Inl UseAfterFree)"

lemma VbusAlloc_eq:
  "VbusAlloc m = (let p = (case m_pool m of [] \<Rightarrow> 0 | p # ps \<Rightarrow> p) in
     (p, m\<lparr>m_pool := tl (m_pool m), m_live := if p = 0 then m_live m else p # m_live m\<rparr>))"
  by (simp add: VbusAlloc_def Let_def split: list.splits)

lemma VbusAllocD:
  assumes "VbusAlloc m = (p, m1)"
  shows "m1 = m\<lparr>m_pool := tl (m_pool m), m_live := if p = 0 then m_live m else p # m_live m\<rparr>"
  using assms by (auto simp: VbusAlloc_eq Let_def)

interpretation vbuspool: allocator m_live "\<lambda>l m. m\<lparr>m_live := l\<rparr>" 0 VbusAlloc VbusFree
  by unfold_locales (auto simp: VbusAlloc_def VbusFree_def split: list.splits)

text \<open>A function that returns, returns an outcome; \<open>None\<close> is a call that does not return.\<close>

fun ret_bind :: "'a outcome option \<Rightarrow> ('a \<Rightarrow> 'b outcome option) \<Rightarrow> 'b outcome option" where
  "ret_bind None f = None"
| "ret_bind (Some (Inl e)) f = Some (Inl e)"
| "ret_bind (Some (Inr x)) f = f x"

lemma ret_bind_eq_Inr: "ret_bind x f = Some (Inr y) \<longleftrightarrow> (\<exists>z. x = Some (Inr z) \<and> f z = Some (Inr y))"
  by (cases "(x, f)" rule: ret_bind.cases) auto

lemma ret_bind_assoc: "ret_bind (ret_bind x f) g = ret_bind x (\<lambda>y. ret_bind (f y) g)"
  by (cases "(x, f)" rule: ret_bind.cases) simp_all

lemma ret_bind_Some [simp]: "ret_bind (Some r) (\<lambda>x. Some (f x)) = Some (bind_ok r f)"
  by (cases r) auto

end
