(* ===== verification/Pci_Bridge.thy ===== *)
theory Pci_Bridge
  imports Pci_State
begin

text \<open>
  The hypercalls of \<open>windows/vbus/pci.c\<close>: the slow path through the bridgecall register
  (\<open>vbus_pci_bridgecall\<close>), the fast path through a block of shared memory and a port
  (\<open>vbus_pci_buscall\<close>), and the calls that negotiate, set up the fast path and register the event
  queue. The lemmas show what reaches the host, under which lock, and that the fast path writes a
  port the host does not listen to.
\<close>

section \<open>Layout\<close>

definition sizeof_call_desc :: nat where "sizeof_call_desc = 16"
definition sizeof_fastcall_desc :: nat where "sizeof_fastcall_desc = 24"
definition sizeof_negotiate :: nat where "sizeof_negotiate = 16"
definition sizeof_busreg :: nat where "sizeof_busreg = 32"

text \<open>The offsets of the ports in \<open>struct vbus_pci_signals\<close>.\<close>

definition offs_eventq :: UINT64 where "offs_eventq = 0"
definition offs_fastcall :: UINT64 where "offs_fastcall = 4"
definition offs_shmsignal :: UINT64 where "offs_shmsignal = 8"

text \<open>A call descriptor as the 32-bit words of its memory, little endian.\<close>

definition desc_words :: "vbus_pci_call_desc \<Rightarrow> UINT32 list" where
  "desc_words d = [c_vector d, c_len d, ucast (c_datap d), ucast (drop_bit 32 (c_datap d))]"

text \<open>How the host reads them back.\<close>

fun words_desc :: "UINT32 list \<Rightarrow> vbus_pci_call_desc option" where
  "words_desc [v, l, lo, hi] =
     Some \<lparr>c_vector = v, c_len = l, c_datap = ucast lo OR push_bit 32 (ucast hi)\<rparr>"
| "words_desc _ = None"

section \<open>Calls\<close>

text \<open>\<open>WdfSpinLockAcquire\<close> on a handle that was never created stops the machine.\<close>

definition acquire :: "pci_lock \<Rightarrow> UINT64 \<Rightarrow> machine \<Rightarrow> machine outcome" where
  "acquire l handle m = (if handle = 0 then Inl NullDeref else Inr (io (Acquire l) m))"

definition vbus_pci_bridgecall ::
  "host \<Rightarrow> bridge_nr \<Rightarrow> UINT64 \<Rightarrow> hc_data \<Rightarrow> UINT32 \<Rightarrow> machine \<Rightarrow> (int \<times> machine) outcome" where
  "vbus_pci_bridgecall H nr p data len m =
     (let params = \<lparr>c_vector = bridge_val nr, c_len = len, c_datap = pa H p\<rparr>;
          n = sizeof_call_desc div 4 + sizeof_call_desc mod 4
      in bind_ok (acquire Bridge_lock (vp_lock (vbus m)) m) (\<lambda>m1.
           if vp_regs (vbus m1) = 0 then Inl NullDeref
           else
             let m2 = io (Write_register_buffer (vp_regs (vbus m1)) (take n (desc_words params)) data) m1;
                 ret = hc_bridge H (m_io m2);
                 m3 = io (Read_register (vp_regs (vbus m2))) m2
             in Inr (sint ret, io (Release Bridge_lock) m3)))"

definition vbus_pci_buscall ::
  "host \<Rightarrow> UINT32 \<Rightarrow> UINT64 \<Rightarrow> hc_data \<Rightarrow> UINT32 \<Rightarrow> machine \<Rightarrow> (int \<times> hc_data \<times> machine) outcome" where
  "vbus_pci_buscall H nr p data len m =
     bind_ok (acquire Fast_lock (fastlock m) m) (\<lambda>m1.
       let fp = (fastparams m1)\<lparr>f_call := \<lparr>c_vector = nr, c_len = len, c_datap = pa H p\<rparr>\<rparr>;
           m2 = io (Write_port_call (va_signals H) 0 data) (m1\<lparr>fastparams := fp\<rparr>);
           (fp', data') = hc_port H (m_io m2) (va_signals H) fp data;
           m3 = m2\<lparr>fastparams := fp'\<rparr>
       in Inr (sint (f_result fp'), data', io (Release Fast_lock) m3))"

definition vbus_pci_setup_fastcall :: "host \<Rightarrow> machine \<Rightarrow> (int \<times> machine) outcome" where
  "vbus_pci_setup_fastcall H m =
     vbus_pci_bridgecall H VBUS_PCI_BRIDGE_FASTCALL_ADD (va_params H)
       (Call_desc \<lparr>c_vector = 0, c_len = of_nat sizeof_fastcall_desc, c_datap = pa H (va_fastparams H)\<rparr>)
       (of_nat sizeof_call_desc) m"

definition vbus_pci_open :: "host \<Rightarrow> machine \<Rightarrow> (int \<times> machine) outcome" where
  "vbus_pci_open H m =
     vbus_pci_bridgecall H VBUS_PCI_BRIDGE_NEGOTIATE (va_params H)
       (Negotiate VBUS_PCI_ABI_MAGIC VBUS_PCI_HC_VERSION 0) (of_nat sizeof_negotiate) m"

definition QLEN :: nat where "QLEN = 1024"

definition vbus_pci_eventq_register :: "host \<Rightarrow> machine \<Rightarrow> (int \<times> machine) outcome" where
  "vbus_pci_eventq_register H m =
     vbus_pci_bridgecall H VBUS_PCI_BRIDGE_QREG (va_params H)
       (Busreg 1 [(of_nat QLEN, pa H (vp_head_desc (vbus m)), pa H (vp_ring (vbus m)))])
       (of_nat sizeof_busreg) m"

definition VbusBridgeCall ::
  "host \<Rightarrow> bridge_nr \<Rightarrow> UINT64 \<Rightarrow> hc_data \<Rightarrow> ULONG \<Rightarrow> machine \<Rightarrow> (int \<times> machine) outcome" where
  "VbusBridgeCall H nr p data len m = vbus_pci_bridgecall H nr p data len m"

definition VbusBusCall ::
  "host \<Rightarrow> UINT32 \<Rightarrow> UINT64 \<Rightarrow> hc_data \<Rightarrow> ULONG \<Rightarrow> machine \<Rightarrow> (int \<times> hc_data \<times> machine) outcome" where
  "VbusBusCall H nr p data len m = vbus_pci_buscall H nr p data len m"

section \<open>Lock discipline\<close>

text \<open>
  Scan a log with the set of locks held: a lock is never taken twice nor released unheld. \<open>None\<close>
  is a violation.
\<close>

fun lock_scan :: "pci_lock list \<Rightarrow> pci_io list \<Rightarrow> pci_lock list option" where
  "lock_scan ls [] = Some ls"
| "lock_scan ls (Acquire l # es) = (if l \<in> set ls then None else lock_scan (l # ls) es)"
| "lock_scan ls (Release l # es) = (if l \<in> set ls then lock_scan (remove1 l ls) es else None)"
| "lock_scan ls (_ # es) = lock_scan ls es"

definition locks_balanced :: "pci_io list \<Rightarrow> bool" where
  "locks_balanced es \<longleftrightarrow> lock_scan [] es = Some []"

lemma lock_scan_append:
  "lock_scan ls (es @ fs) = (case lock_scan ls es of None \<Rightarrow> None | Some ls' \<Rightarrow> lock_scan ls' fs)"
  by (induction ls es rule: lock_scan.induct) auto

lemma locks_balanced_append [simp]: "locks_balanced es \<Longrightarrow> locks_balanced (es @ fs) = locks_balanced fs"
  by (simp add: locks_balanced_def lock_scan_append)

section \<open>Lemmas\<close>

lemma bridgecall_eq:
  "vbus_pci_bridgecall H nr p data len m =
     (if vp_lock (vbus m) = 0 \<or> vp_regs (vbus m) = 0 then Inl NullDeref
      else
        let w = Write_register_buffer (vp_regs (vbus m))
                  (desc_words \<lparr>c_vector = bridge_val nr, c_len = len, c_datap = pa H p\<rparr>) data
        in Inr (sint (hc_bridge H (m_io m @ [Acquire Bridge_lock, w])),
                m\<lparr>m_io := m_io m @ [Acquire Bridge_lock, w, Read_register (vp_regs (vbus m)), Release Bridge_lock]\<rparr>))"
  by (simp add: vbus_pci_bridgecall_def acquire_def Let_def io_def sizeof_call_desc_def desc_words_def)

lemma words_desc_words: "words_desc (desc_words d) = Some d"
proof -
  have "ucast (ucast w :: 32 word) OR push_bit 32 (ucast (ucast (drop_bit 32 w) :: 32 word)) = w"
    for w :: "64 word"
    by (rule bit_word_eqI) (auto simp: bit_simps)
  then show ?thesis
    by (simp add: desc_words_def)
qed

text \<open>The slow calls change nothing of the machine but the log.\<close>

lemma bridgecall_frame:
  assumes "vbus_pci_bridgecall H nr p data len m = Inr (r, m')"
  shows "\<exists>es. m' = m\<lparr>m_io := m_io m @ es\<rparr> \<and> locks_balanced es"
  using assms unfolding bridgecall_eq
  by (auto simp: Let_def locks_balanced_def split: if_splits)

lemmas slow_call_defs = vbus_pci_open_def vbus_pci_setup_fastcall_def vbus_pci_eventq_register_def VbusBridgeCall_def

section \<open>Properties\<close>

text \<open>A bridgecall hands the host exactly its vector, its length and the physical address of its
  data, as four words written to the bridgecall register under the bridge lock, takes the host's answer from the same register before it
  releases the lock, and changes nothing else; before the device is prepared, with no lock or no registers mapped, it is a null
  dereference.\<close>

theorem bridgecall_reaches_host:
  "vbus_pci_bridgecall H nr p data len m =
     (if vp_lock (vbus m) = 0 \<or> vp_regs (vbus m) = 0 then Inl NullDeref
      else Inr (sint (hc_bridge H (m_io m @ [Acquire Bridge_lock, Write_register_buffer (vp_regs (vbus m))
                  (desc_words \<lparr>c_vector = bridge_val nr, c_len = len, c_datap = pa H p\<rparr>) data])),
                m\<lparr>m_io := m_io m @ [Acquire Bridge_lock, Write_register_buffer (vp_regs (vbus m))
                  (desc_words \<lparr>c_vector = bridge_val nr, c_len = len, c_datap = pa H p\<rparr>) data,
                  Read_register (vp_regs (vbus m)), Release Bridge_lock]\<rparr>))
   \<and> words_desc (desc_words \<lparr>c_vector = bridge_val nr, c_len = len, c_datap = pa H p\<rparr>)
       = Some \<lparr>c_vector = bridge_val nr, c_len = len, c_datap = pa H p\<rparr>"
  by (simp add: bridgecall_eq words_desc_words Let_def)

text \<open>The fast path writes the port number \<open>&vbus_pci.signals\<close>, the address of the
  driver's own variable, and not the \<open>fastcall\<close> port of the mapped \<open>signals\<close>. A host that answers fast calls on that port alone, as \<open>vbus_pci.h\<close>
  lays it out, never sees a buscall: the data stays as it was and the result is whatever the fastcall block held before.\<close>

theorem buscall_misses_fastcall_port:
  assumes "\<And>log port fp d. port \<noteq> vp_signals (vbus m) + offs_fastcall \<Longrightarrow> hc_port H log port fp d = (fp, d)"
    and "va_signals H \<noteq> vp_signals (vbus m) + offs_fastcall" and "fastlock m \<noteq> 0"
  shows "\<exists>m'. vbus_pci_buscall H nr p data len m = Inr (sint (f_result (fastparams m)), data, m')
           \<and> f_result (fastparams m') = f_result (fastparams m)
           \<and> m_io m' = m_io m @ [Acquire Fast_lock, Write_port_call (va_signals H) 0 data, Release Fast_lock]"
  using assms by (simp add: vbus_pci_buscall_def acquire_def io_def)

section \<open>Witnesses\<close>

text \<open>A host whose fast path sits at port \<open>0xC004\<close>, and a prepared machine without children.\<close>

definition demo_host :: host where
  "demo_host = \<lparr>pa = (\<lambda>p. p), va_signals = 0xFFFFF800, va_fastparams = 0xFFFFF900, va_params = 0xFFFFFA00,
     hc_bridge = (\<lambda>_. 0),
     hc_port = (\<lambda>_ port fp d. if port = 0xC004 then (fp\<lparr>f_result := 1\<rparr>, Device_open 0 0 7) else (fp, d)),
     hc_step = (\<lambda>m. m), wdf_lock = (\<lambda>_. (STATUS_SUCCESS, 1)), wdf_interrupt = (STATUS_SUCCESS, 1),
     map_io = (\<lambda>_ _. 0xE000)\<rparr>"

definition demo_machine :: "ioq_ring_head \<Rightarrow> machine" where
  "demo_machine h = \<lparr>vbus = vbus_pci_zero\<lparr>vp_lock := 1, vp_regs := 0xE000, vp_signals := 0xC000\<rparr>,
     fastparams = \<lparr>f_call = \<lparr>c_vector = 0, c_len = 0, c_datap = 0\<rparr>, f_result = 0\<rparr>, fastlock = 2,
     m_head = h, m_events = [], m_sigs = Map.empty, m_live = [], m_pool = [], m_children = [], m_io = []\<rparr>"

lemma buscall_misses_fastcall_port_witness:
  "\<forall>h. \<exists>m'. vbus_pci_buscall demo_host (hc_val VBUS_PCI_HC_DEVOPEN) 0x5000 (Device_open 1 1 0) 16 (demo_machine h)
      = Inr (0, Device_open 1 1 0, m')"
proof
  fix h
  show "\<exists>m'. vbus_pci_buscall demo_host (hc_val VBUS_PCI_HC_DEVOPEN) 0x5000 (Device_open 1 1 0) 16 (demo_machine h)
      = Inr (0, Device_open 1 1 0, m')"
    using buscall_misses_fastcall_port [where m = "demo_machine h" and H = demo_host
        and nr = "hc_val VBUS_PCI_HC_DEVOPEN" and p = "0x5000" and data = "Device_open 1 1 0" and len = 16]
    by (auto simp: demo_host_def demo_machine_def vbus_pci_zero_def offs_fastcall_def)
qed

end
