(* ===== verification/Pci_Signal.thy ===== *)
theory Pci_Signal
  imports Pci_Bridge
begin

text \<open>
  The signals of child devices, \<open>struct _signal\<close> in \<open>windows/vbus/pci.c\<close>: reference counting, the
  operations table a signal carries, and the four interrupt callbacks. A pointer to a signal is its
  address in \<open>m_sigs\<close>; \<open>to_signal\<close>, which recovers the container from the embedded
  \<open>shm_signal\<close>, is the identity on these addresses. The callbacks take the pointer that
  \<open>IntGetData(in)->sig\<close> holds.
\<close>

section \<open>References\<close>

definition sig_deref :: "UINT64 \<Rightarrow> machine \<Rightarrow> pci_signal outcome" where
  "sig_deref p m =
     (if p = 0 then Inl NullDeref
      else case m_sigs m p of None \<Rightarrow> Inl UseAfterFree | Some s \<Rightarrow> Inr s)"

definition sig_write :: "UINT64 \<Rightarrow> pci_signal \<Rightarrow> machine \<Rightarrow> machine" where
  "sig_write p s m = m\<lparr>m_sigs := (m_sigs m)(p \<mapsto> s)\<rparr>"

definition signal_get :: "UINT64 \<Rightarrow> machine \<Rightarrow> machine outcome" where
  "signal_get p m = bind_ok (sig_deref p m) (\<lambda>s. Inr (sig_write p (s\<lparr>sg_refCount := sg_refCount s + 1\<rparr>) m))"

definition signal_put :: "UINT64 \<Rightarrow> machine \<Rightarrow> machine outcome" where
  "signal_put p m =
     bind_ok (sig_deref p m) (\<lambda>s.
       let r = sg_refCount s - 1;
           m1 = sig_write p (s\<lparr>sg_refCount := r\<rparr>) m
       in if r = 0
          then bind_ok (VbusFree p m1) (\<lambda>m2. Inr (m2\<lparr>m_sigs := (m_sigs m2)(p := None)\<rparr>))
          else Inr m1)"

section \<open>The operations table\<close>

definition signal_inject :: "UINT64 \<Rightarrow> machine \<Rightarrow> (int \<times> machine) outcome" where
  "signal_inject p m =
     bind_ok (sig_deref p m) (\<lambda>s.
       Inr (0, io (Write_port (vp_signals (vbus m) + offs_shmsignal) (sg_handle s)) m))"

definition signal_release :: "UINT64 \<Rightarrow> machine \<Rightarrow> machine outcome" where
  "signal_release p m = signal_put p m"

text \<open>The event queue writes its port with a register write.\<close>

definition eventq_signal_inject :: "machine \<Rightarrow> int \<times> machine" where
  "eventq_signal_inject m = (0, io (Write_register (vp_signals (vbus m) + offs_eventq) 0) m)"

definition eventq_signal_release :: "UINT64 \<Rightarrow> machine \<Rightarrow> machine outcome" where
  "eventq_signal_release p m = (if p \<noteq> 0 then VbusFree p m else Inr m)"

text \<open>\<open>ops->inject(s)\<close> for the signal at \<open>p\<close>.\<close>

fun ops_inject :: "pci_ops \<Rightarrow> UINT64 \<Rightarrow> machine \<Rightarrow> machine outcome" where
  "ops_inject Ops_null p m = Inl NullDeref"
| "ops_inject Signal_ops p m = bind_ok (signal_inject p m) (\<lambda>(_, m1). Inr m1)"
| "ops_inject Eventq_signal_ops p m = Inr (snd (eventq_signal_inject m))"

text \<open>Run an operation of \<open>shm-signal.c\<close> on the signal at \<open>p\<close>, then the call it ends in.\<close>

definition signal_op ::
  "((pci_ops, UINT64) shm_signal \<Rightarrow> shm_signal_desc \<Rightarrow> shm_signal_desc \<times> (pci_ops, UINT64) sig_call)
   \<Rightarrow> UINT64 \<Rightarrow> machine \<Rightarrow> machine outcome" where
  "signal_op f p m =
     bind_ok (sig_deref p m) (\<lambda>s.
       let (d, c) = f (sg_signal s) (sg_desc s);
           m1 = sig_write p (s\<lparr>sg_desc := d\<rparr>) m
       in case c of NoCall \<Rightarrow> Inr m1
                  | CallInject ops \<Rightarrow> ops_inject ops p m1
                  | CallNotifier n \<Rightarrow> Inr (io (Notify n) m1))"

section \<open>Interrupt callbacks\<close>

definition signal_enable :: "UINT64 \<Rightarrow> machine \<Rightarrow> (NTSTATUS \<times> machine) outcome" where
  "signal_enable p m = bind_ok (signal_op ShmSignalEnable p m) (\<lambda>m1. Inr (STATUS_SUCCESS, m1))"

definition signal_disable :: "UINT64 \<Rightarrow> machine \<Rightarrow> (NTSTATUS \<times> machine) outcome" where
  "signal_disable p m =
     bind_ok (signal_op (\<lambda>s d. (ShmSignalDisable s d, NoCall)) p m) (\<lambda>m1. Inr (STATUS_SUCCESS, m1))"

definition signal_dpc :: "UINT64 \<Rightarrow> machine \<Rightarrow> machine outcome" where
  "signal_dpc p m = signal_op ShmSignalWakeup p m"

definition signal_isr :: "UINT64 \<Rightarrow> machine \<Rightarrow> (bool \<times> machine) outcome" where
  "signal_isr p m =
     bind_ok (sig_deref p m) (\<lambda>s.
       if ShmSignalTestEnabled (sg_signal s) (sg_desc s) = 0 then Inr (False, m)
       else bind_ok (signal_op (\<lambda>s d. (ShmSignalDisable s d, NoCall)) p m)
              (\<lambda>m1. Inr (True, io Queue_dpc m1)))"

section \<open>Lemmas\<close>

lemma sig_write_simps [simp]:
  "vbus (sig_write p s m) = vbus m" "m_head (sig_write p s m) = m_head m"
  "m_events (sig_write p s m) = m_events m" "m_live (sig_write p s m) = m_live m"
  "m_sigs (sig_write p s m) = (m_sigs m)(p \<mapsto> s)" "m_io (sig_write p s m) = m_io m"
  "m_children (sig_write p s m) = m_children m" "fastlock (sig_write p s m) = fastlock m"
  by (simp_all add: sig_write_def)

lemma sig_deref_some: "p \<noteq> 0 \<Longrightarrow> m_sigs m p = Some s \<Longrightarrow> sig_deref p m = Inr s"
  by (simp add: sig_deref_def)

lemma sig_write_write [simp]: "sig_write p s (sig_write p t m) = sig_write p s m"
  by (simp add: sig_write_def)

lemma sig_write_same: "m_sigs m p = Some s \<Longrightarrow> sig_write p s m = m"
  by (simp add: sig_write_def fun_upd_idem_iff)

lemma irq_idem [simp]: "(d::shm_signal_desc)\<lparr>irq := irq d\<rparr> = d"
  by (cases d) simp

lemma signal_put_last:
  assumes "p \<noteq> 0" and "m_sigs m p = Some s" and "sg_refCount s = 1" and "p \<in> set (m_live m)"
  shows "signal_put p m = Inr (m\<lparr>m_sigs := (m_sigs m)(p := None), m_live := remove1 p (m_live m)\<rparr>)"
  using assms by (simp add: signal_put_def sig_deref_def VbusFree_def Let_def sig_write_def)

lemma signal_put_more:
  assumes "p \<noteq> 0" and "m_sigs m p = Some s" and "sg_refCount s \<noteq> 1"
  shows "signal_put p m = Inr (sig_write p (s\<lparr>sg_refCount := sg_refCount s - 1\<rparr>) m)"
  using assms by (simp add: signal_put_def sig_deref_def Let_def)

lemma signal_get_put:
  assumes "p \<noteq> 0" and "m_sigs m p = Some s" and "sg_refCount s \<noteq> 0"
  shows "bind_ok (signal_get p m) (signal_put p) = Inr m"
  using assms by (simp add: signal_get_def signal_put_def sig_deref_def Let_def sig_write_same)

lemma signal_freed:
  assumes "p \<noteq> 0" and "m_sigs m p = None"
  shows "signal_put p m = Inl UseAfterFree" and "signal_isr p m = Inl UseAfterFree"
    and "signal_op f p m = Inl UseAfterFree" and "signal_dpc p m = Inl UseAfterFree"
  using assms by (simp_all add: signal_put_def signal_isr_def signal_dpc_def signal_op_def sig_deref_def)

section \<open>Properties\<close>

text \<open>Claim C39. References of a signal balance: taking one and putting it back changes nothing, putting one
  of several only counts down, and putting the last one frees the block, once; from then on every operation through the same pointer, which the
  host still holds as its cookie, is a use after free.\<close>

theorem signal_refcount_frees_once:
  assumes "p \<noteq> 0" and "m_sigs m p = Some s" and "sg_refCount s \<noteq> 0" and "p \<in> set (m_live m)"
  shows "bind_ok (signal_get p m) (signal_put p) = Inr m
       \<and> (sg_refCount s \<noteq> 1 \<longrightarrow>
            signal_put p m = Inr (m\<lparr>m_sigs := (m_sigs m)(p \<mapsto> s\<lparr>sg_refCount := sg_refCount s - 1\<rparr>)\<rparr>))
       \<and> (sg_refCount s = 1 \<longrightarrow> (\<exists>m'. signal_put p m = Inr m' \<and> m_live m' = remove1 p (m_live m)
            \<and> signal_put p m' = Inl UseAfterFree \<and> signal_isr p m' = Inl UseAfterFree
            \<and> signal_dpc p m' = Inl UseAfterFree))"
proof (intro conjI impI)
  show "bind_ok (signal_get p m) (signal_put p) = Inr m"
    by (rule signal_get_put [OF assms(1-3)])
next
  assume "sg_refCount s \<noteq> 1"
  then show "signal_put p m = Inr (m\<lparr>m_sigs := (m_sigs m)(p \<mapsto> s\<lparr>sg_refCount := sg_refCount s - 1\<rparr>)\<rparr>)"
    using signal_put_more [OF assms(1,2)] by (simp add: sig_write_def)
next
  assume "sg_refCount s = 1"
  then show "\<exists>m'. signal_put p m = Inr m' \<and> m_live m' = remove1 p (m_live m)
      \<and> signal_put p m' = Inl UseAfterFree \<and> signal_isr p m' = Inl UseAfterFree
      \<and> signal_dpc p m' = Inl UseAfterFree"
    using signal_put_last [OF assms(1,2) _ assms(4)] by (auto simp: signal_freed [OF assms(1)])
qed

text \<open>The interrupt of a child signal works once: the service routine masks the signal and queues the
  DPC, but the DPC only tries a wakeup, which on a masked signal does nothing; the notifier is never called, the signal stays masked, further
  interrupts are discarded, and only a re-enable from outside, not the DPC as the comment says, would deliver what is pending.\<close>

theorem child_dpc_never_unmasks:
  assumes "p \<noteq> 0" and "m_sigs m p = Some s" and "enabled (irq (sg_desc s) (s_locale (sg_signal s))) \<noteq> 0"
  shows "\<exists>m1. signal_isr p m = Inr (True, m1) \<and> m_io m1 = m_io m @ [Queue_dpc]
           \<and> signal_dpc p m1 = Inr m1 \<and> signal_isr p m1 = Inr (False, m1)"
  using assms
  by (auto simp: signal_isr_def signal_dpc_def signal_op_def sig_deref_def shm_defs sig_write_def io_def
      unsigned_eq_0_iff fun_upd_idem_iff)

section \<open>Witnesses\<close>

definition demo_signal :: "LONG \<Rightarrow> pci_signal" where
  "demo_signal r = \<lparr>sg_signal = (ShmSignalInit shm_locality_north Signal_ops)\<lparr>s_notifier := Some 0x77\<rparr>,
     sg_desc = demo_desc 1 1, sg_handle = 0, sg_refCount = r\<rparr>"

definition demo_sig_machine :: "LONG \<Rightarrow> machine" where
  "demo_sig_machine r = \<lparr>vbus = vbus_pci_zero\<lparr>vp_lock := 1, vp_regs := 0xE000, vp_signals := 0xC000\<rparr>,
     fastparams = \<lparr>f_call = \<lparr>c_vector = 0, c_len = 0, c_datap = 0\<rparr>, f_result = 0\<rparr>, fastlock = 2,
     m_head = \<lparr>h_magic = 0, h_ver = 0, h_signal = demo_desc 0 0, idx = (\<lambda>_. \<lparr>head = 0, tail = 0, full = 0\<rparr>),
               h_count = 0, ring = []\<rparr>,
     m_events = [], m_sigs = [0x4000 \<mapsto> demo_signal r], m_live = [0x4000], m_pool = [], m_children = [],
     m_io = []\<rparr>"

lemma demo_sig_machine_simps [simp]:
  "m_sigs (demo_sig_machine r) = [0x4000 \<mapsto> demo_signal r]" "m_live (demo_sig_machine r) = [0x4000]"
  "m_io (demo_sig_machine r) = []" "sg_refCount (demo_signal r) = r"
  by (simp_all add: demo_sig_machine_def demo_signal_def)

lemma signal_refcount_frees_once_witness:
  "bind_ok (signal_get 0x4000 (demo_sig_machine 1)) (signal_put 0x4000) = Inr (demo_sig_machine 1)
   \<and> (\<exists>m'. signal_put 0x4000 (demo_sig_machine 1) = Inr m' \<and> m_live m' = []
        \<and> signal_dpc 0x4000 m' = Inl UseAfterFree)"
  using signal_refcount_frees_once [of "0x4000" "demo_sig_machine 1" "demo_signal 1"] by auto

lemma child_dpc_never_unmasks_witness:
  "\<exists>m1. signal_isr 0x4000 (demo_sig_machine 1) = Inr (True, m1) \<and> signal_dpc 0x4000 m1 = Inr m1"
  using child_dpc_never_unmasks [of "0x4000" "demo_sig_machine 1" "demo_signal 1"]
  by (auto simp: demo_signal_def demo_desc_def)

end
