(* ===== verification/Ioq_Queue.thy ===== *)
theory Ioq_Queue
  imports Ioq_Slots
begin

text \<open>
  The descriptor ring as a bounded first-in first-out queue between two parties. The producer seeks
  the tail of the in-use index, fills the descriptor and pushes; the consumer seeks the head, reads
  the descriptor and pops, as \<open>eventq_wakeup\<close> in \<open>pci.c\<close> does. The owner flag of each descriptor
  says whose turn it is. The locale \<open>bounded_queue\<close> states what a client may rely on; its
  interpretation on the ring's own operations discharges every law.
\<close>

section \<open>The interface\<close>

datatype 'a qop = Enq 'a | Deq

text \<open>
  A run of a queue: the state it ends in, what the queue accepted and what it handed out, oldest
  first. A fault of an operation is a fault of the run.
\<close>

fun queue_run ::
  "('a \<Rightarrow> 'q \<Rightarrow> 'q option outcome) \<Rightarrow> ('q \<Rightarrow> ('a \<times> 'q) option outcome) \<Rightarrow> 'a qop list \<Rightarrow> 'q
   \<Rightarrow> ('q \<times> 'a list \<times> 'a list) outcome" where
  "queue_run enq deq [] q = Inr (q, [], [])"
| "queue_run enq deq (Enq x # ops) q =
     bind_ok (enq x q) (\<lambda>r. case r of
        None \<Rightarrow> queue_run enq deq ops q
      | Some q1 \<Rightarrow> bind_ok (queue_run enq deq ops q1) (\<lambda>(q2, acc, out). Inr (q2, x # acc, out)))"
| "queue_run enq deq (Deq # ops) q =
     bind_ok (deq q) (\<lambda>r. case r of
        None \<Rightarrow> queue_run enq deq ops q
      | Some (x, q1) \<Rightarrow> bind_ok (queue_run enq deq ops q1) (\<lambda>(q2, acc, out). Inr (q2, acc, x # out)))"

locale bounded_queue =
  fixes invar :: "'q \<Rightarrow> bool"
    and contents :: "'q \<Rightarrow> 'a list"
    and cap :: "'q \<Rightarrow> nat"
    and enq :: "'a \<Rightarrow> 'q \<Rightarrow> 'q option outcome"
    and deq :: "'q \<Rightarrow> ('a \<times> 'q) option outcome"
  assumes enq_free: "invar q \<Longrightarrow> length (contents q) < cap q \<Longrightarrow>
      \<exists>q'. enq x q = Inr (Some q') \<and> invar q' \<and> contents q' = contents q @ [x] \<and> cap q' = cap q"
    and enq_full: "invar q \<Longrightarrow> \<not> length (contents q) < cap q \<Longrightarrow> enq x q = Inr None"
    and deq_nonempty: "invar q \<Longrightarrow> contents q = x # xs \<Longrightarrow>
      \<exists>q'. deq q = Inr (Some (x, q')) \<and> invar q' \<and> contents q' = xs \<and> cap q' = cap q"
    and deq_empty: "invar q \<Longrightarrow> contents q = [] \<Longrightarrow> deq q = Inr None"
    and bounded: "invar q \<Longrightarrow> length (contents q) \<le> cap q"
begin

lemma run_fifo:
  assumes "invar q"
  shows "\<exists>q' acc out. queue_run enq deq ops q = Inr (q', acc, out) \<and> invar q' \<and> cap q' = cap q
           \<and> out @ contents q' = contents q @ acc"
  using assms
proof (induction ops arbitrary: q)
  case Nil
  then show ?case by simp
next
  case (Cons a ops)
  show ?case
  proof (cases a)
    case (Enq x)
    show ?thesis
    proof (cases "length (contents q) < cap q")
      case True
      then obtain q1 where q1: "enq x q = Inr (Some q1)" "invar q1" "contents q1 = contents q @ [x]"
        "cap q1 = cap q" using enq_free Cons.prems by blast
      then show ?thesis using Cons.IH [OF q1(2)] Enq by fastforce
    next
      case False
      then show ?thesis using enq_full Cons Enq by simp
    qed
  next
    case Deq
    show ?thesis
    proof (cases "contents q")
      case Nil
      then show ?thesis using deq_empty [OF Cons.prems] Cons.IH [OF Cons.prems] Deq by force
    next
      case (Cons x xs)
      then obtain q1 where q1: "deq q = Inr (Some (x, q1))" "invar q1" "contents q1 = xs"
        "cap q1 = cap q" using deq_nonempty Cons.prems by blast
      then show ?thesis using Cons.IH [OF q1(2)] Deq \<open>contents q = x # xs\<close> by fastforce
    qed
  qed
qed

lemma run_bounded:
  assumes "invar q" and "queue_run enq deq ops q = Inr (q', acc, out)"
  shows "length (contents q) + length acc \<le> cap q + length out"
proof -
  have q': "invar q'" "cap q' = cap q" "out @ contents q' = contents q @ acc"
    using run_fifo [OF assms(1), of ops] assms(2) by auto
  have "length out + length (contents q') = length (contents q) + length acc"
    using q'(3) by (metis length_append)
  moreover have "length (contents q') \<le> cap q"
    using bounded [OF q'(1)] q'(2) by simp
  ultimately show ?thesis by simp
qed

end

section \<open>Push and pop on a sought iterator\<close>

text \<open>The iterator that the clients of \<open>pci.c\<close> get: no flags, sought to a slot of one index.\<close>

abbreviation iter_at :: "ioq_idx_type \<Rightarrow> UINT32 \<Rightarrow> ioq_iterator" where
  "iter_at t p \<equiv> \<lparr>it_idx = Some t, it_pos = p, it_desc = Some p, it_update = False,
                  it_dualidx = False, it_flipowner = True\<rparr>"

definition simple_idx :: "ioq_idx_type \<Rightarrow> bool" where
  "simple_idx t \<longleftrightarrow> t = ioq_idxtype_valid \<or> t = ioq_idxtype_inuse"

lemma simple_idx_simps [simp]: "simple_idx ioq_idxtype_valid" "simple_idx ioq_idxtype_inuse"
  by (simp_all add: simple_idx_def)

lemma iter_init_seek:
  assumes "simple_idx t"
  shows "ioq_iter_seek q h (snd (ioq_iter_init t 0)) ioq_seek_tail 0 = Inr (0, iter_at t (tail (idx h t)))"
    and "ioq_iter_seek q h (snd (ioq_iter_init t 0)) ioq_seek_head 0 = Inr (0, iter_at t (head (idx h t)))"
  using assms
  by (auto simp: simple_idx_def ioq_iter_seek.simps ioq_iter_init_def idxtype_to_idx_def ioq_iter_setpos_def
      IOQ_ITER_AUTOUPDATE_def IOQ_ITER_NOFLIPOWNER_def)

text \<open>The header after a push or a pop at slot \<open>p\<close>.\<close>

definition flip_owner :: "('o, 'n) ioq \<Rightarrow> UINT32 \<Rightarrow> ioq_ring_head \<Rightarrow> ioq_ring_head" where
  "flip_owner q p h =
     h\<lparr>ring := (ring h)[unat p := (ring h ! unat p)\<lparr>sown := locality_val (locality_not (q_locale q))\<rparr>]\<rparr>"

lemma iter_push_eq:
  assumes "p = tail (idx h t)" and "unat p < length (ring h)"
    and "sown (ring h ! unat p) = locality_val (q_locale q)"
  shows "ioq_iter_push q h (iter_at t p) =
           Inr (0, flip_owner q p (idx_upd t (\<lambda>i. idx_tail_push i (count32 q)) h),
                iter_at t (modulo_inc p (count32 q)), NoCall)"
  using assms
  by (simp add: ioq_iter_push_def ioq_iter_seek.simps desc_read_def iter_finish_def desc_write_def flip_owner_def
      ioq_iter_setpos_def Let_def)

lemma iter_pop_eq:
  assumes "p = head (idx h t)" and "unat p < length (ring h)"
    and "sown (ring h ! unat p) = locality_val (q_locale q)"
  shows "ioq_iter_pop q h (iter_at t p) =
           Inr (0, flip_owner q p (idx_upd t (\<lambda>i. idx_head_pop i (count32 q)) h),
                iter_at t (modulo_inc p (count32 q)), NoCall)"
  using assms
  by (simp add: ioq_iter_pop_def ioq_iter_seek.simps desc_read_def iter_finish_def desc_write_def flip_owner_def
      ioq_iter_setpos_def Let_def)

lemma ring_ok_upd:
  assumes "ring_ok q h" and "simple_idx t" and "idx_ok (ring_size q) i"
  shows "ring_ok q (h\<lparr>idx := (idx h)(t := i)\<rparr>)"
  using assms by (auto simp: ring_ok_def simple_idx_def)

lemma ring_ok_flip [simp]: "ring_ok q' (flip_owner q p h) = ring_ok q' h"
  by (simp add: ring_ok_def flip_owner_def)

lemma flip_owner_idx [simp]: "idx (flip_owner q p h) = idx h"
  by (simp add: flip_owner_def)

lemma flip_owner_ring:
  "s < length (ring h) \<Longrightarrow> ring (flip_owner q p h) ! s =
     (if s = unat p then (ring h ! s)\<lparr>sown := locality_val (locality_not (q_locale q))\<rparr> else ring h ! s)"
  by (simp add: flip_owner_def nth_list_update)

section \<open>The ring between two parties\<close>

text \<open>Both parties' contexts and the shared header.\<close>

record ('o, 'n) ioq_link =
  lk_prod :: "('o, 'n) ioq"
  lk_cons :: "('o, 'n) ioq"
  lk_head :: ioq_ring_head

text \<open>What the producer writes into a descriptor: all of it but the owner flag.\<close>

type_synonym payload = "UINT64 \<times> UINT64 \<times> UINT64 \<times> UINT8"

definition payload_of :: "ioq_ring_desc \<Rightarrow> payload" where
  "payload_of d = (cookie d, d_ptr d, d_len d, valid d)"

fun set_payload :: "payload \<Rightarrow> ioq_ring_desc \<Rightarrow> ioq_ring_desc" where
  "set_payload (c, p, l, v) d = d\<lparr>cookie := c, d_ptr := p, d_len := l, valid := v\<rparr>"

definition ioq_produce :: "payload \<Rightarrow> ('o, 'n) ioq_link \<Rightarrow> ('o, 'n) ioq_link option outcome" where
  "ioq_produce x l =
     (let q = lk_prod l; h = lk_head l; it = snd (ioq_iter_init ioq_idxtype_inuse 0) in
      bind_ok (ioq_iter_seek q h it ioq_seek_tail 0) (\<lambda>(_, it1).
      bind_ok (desc_read h it1) (\<lambda>d.
        if sown d \<noteq> locality_val (q_locale q) then Inr None
        else bind_ok (desc_write h it1 (set_payload x)) (\<lambda>h1.
             bind_ok (ioq_iter_push q h1 it1) (\<lambda>(ret, h2, _, _).
               Inr (if ret < 0 then None else Some (l\<lparr>lk_head := h2\<rparr>)))))))"

definition ioq_consume :: "('o, 'n) ioq_link \<Rightarrow> (payload \<times> ('o, 'n) ioq_link) option outcome" where
  "ioq_consume l =
     (let q = lk_cons l; h = lk_head l; it = snd (ioq_iter_init ioq_idxtype_inuse 0) in
      bind_ok (ioq_iter_seek q h it ioq_seek_head 0) (\<lambda>(_, it1).
      bind_ok (desc_read h it1) (\<lambda>d.
        if sown d \<noteq> locality_val (q_locale q) then Inr None
        else bind_ok (ioq_iter_pop q h it1) (\<lambda>(ret, h2, _, _).
               Inr (if ret < 0 then None else Some (payload_of d, l\<lparr>lk_head := h2\<rparr>))))))"

text \<open>The slots of the in-use index belong to the consumer, all others to the producer.\<close>

definition owner_ok :: "locality \<Rightarrow> ('o, 'n) ioq \<Rightarrow> ioq_ring_head \<Rightarrow> bool" where
  "owner_ok c q h \<longleftrightarrow>
     (\<forall>s < ring_size q. sown (ring h ! s) =
        locality_val (if s \<in> set (idx_slots (ring_size q) (idx h ioq_idxtype_inuse)) then c else locality_not c))"

definition link_ok :: "('o, 'n) ioq_link \<Rightarrow> bool" where
  "link_ok l \<longleftrightarrow> ring_ok (lk_prod l) (lk_head l) \<and> q_count (lk_cons l) = q_count (lk_prod l)
     \<and> q_locale (lk_prod l) = locality_not (q_locale (lk_cons l))
     \<and> owner_ok (q_locale (lk_cons l)) (lk_prod l) (lk_head l)"

definition link_contents :: "('o, 'n) ioq_link \<Rightarrow> payload list" where
  "link_contents l = map (\<lambda>s. payload_of (ring (lk_head l) ! s))
     (idx_slots (ring_size (lk_prod l)) (idx (lk_head l) ioq_idxtype_inuse))"

definition link_cap :: "('o, 'n) ioq_link \<Rightarrow> nat" where
  "link_cap l = ring_size (lk_prod l)"

section \<open>The laws of the interface hold for the ring\<close>

lemma link_okD:
  assumes "link_ok l"
  shows "ring_ok (lk_prod l) (lk_head l)" and "count32 (lk_cons l) = count32 (lk_prod l)"
    and "q_locale (lk_prod l) = locality_not (q_locale (lk_cons l))"
    and "owner_ok (q_locale (lk_cons l)) (lk_prod l) (lk_head l)"
    and "idx_ok (ring_size (lk_prod l)) (idx (lk_head l) ioq_idxtype_inuse)"
  using assms by (auto simp: link_ok_def ring_ok_def)

lemma payload_set [simp]: "payload_of (set_payload x d) = x"
  by (cases x) (simp add: payload_of_def)

lemma payload_sown [simp]: "payload_of (d\<lparr>sown := v\<rparr>) = payload_of d"
  by (simp add: payload_of_def)

lemma sown_set_payload [simp]: "sown (set_payload x d) = sown d"
  by (cases x) simp

lemma length_contents: "length (link_contents l) =
    idx_count (ring_size (lk_prod l)) (idx (lk_head l) ioq_idxtype_inuse)"
  by (simp add: link_contents_def)

lemma locality_val_inj [simp]: "locality_val a = locality_val b \<longleftrightarrow> a = b"
  by (cases a; cases b) auto

text \<open>The effect of popping the head slot of the in-use index.\<close>

lemma ring_pop:
  assumes ok: "ring_ok q h" and own: "owner_ok (q_locale q) q h"
    and slots: "idx_slots (ring_size q) (idx h ioq_idxtype_inuse) = s # ss"
  defines "h2 \<equiv> flip_owner q (head (idx h ioq_idxtype_inuse))
                  (idx_upd ioq_idxtype_inuse (\<lambda>i. idx_head_pop i (count32 q)) h)"
  shows "unat (head (idx h ioq_idxtype_inuse)) = s" and "s < ring_size q"
    and "sown (ring h ! s) = locality_val (q_locale q)"
    and "ioq_iter_pop q h (iter_at ioq_idxtype_inuse (head (idx h ioq_idxtype_inuse))) =
           Inr (0, h2, iter_at ioq_idxtype_inuse (head (idx h2 ioq_idxtype_inuse)), NoCall)"
    and "ring_ok q h2" and "owner_ok (q_locale q) q h2"
    and "idx_slots (ring_size q) (idx h2 ioq_idxtype_inuse) = ss"
    and "\<And>k. k < ring_size q \<Longrightarrow> ring h2 ! k =
           (if k = s then (ring h ! k)\<lparr>sown := locality_val (locality_not (q_locale q))\<rparr> else ring h ! k)"
proof -
  let ?i = "idx h ioq_idxtype_inuse" and ?n = "ring_size q"
  note D = ring_okD [OF ok]
  have i: "idx_ok ?n ?i" using D(5) by blast
  have cnt: "0 < idx_count ?n ?i"
    using slots by (metis length_idx_slots length_greater_0_conv list.distinct(1))
  show hd: "unat (head ?i) = s"
    using idx_slots_hd [OF i cnt] slots by simp
  show s: "s < ?n" using idx_slots_bound [OF i] slots by simp
  show sown: "sown (ring h ! s) = locality_val (q_locale q)"
    using own s slots by (simp add: owner_ok_def)
  have p: "unat (head ?i) < length (ring h)" using s hd D(4) by simp
  note pop = idx_head_pop_ok [of "count32 q" ?i, unfolded D(1), OF i cnt]
  have "head (idx h2 ioq_idxtype_inuse) = modulo_inc (head ?i) (count32 q)"
    by (simp add: h2_def idx_head_pop_def Let_def)
  then show "ioq_iter_pop q h (iter_at ioq_idxtype_inuse (head ?i)) =
      Inr (0, h2, iter_at ioq_idxtype_inuse (head (idx h2 ioq_idxtype_inuse)), NoCall)"
    using iter_pop_eq [OF refl p, of q] sown hd by (simp add: h2_def)
  show "ring_ok q h2"
    using ok pop(1) ring_ok_upd [of q h] by (simp add: h2_def)
  show slots2: "idx_slots ?n (idx h2 ioq_idxtype_inuse) = ss"
    using pop(3) slots by (simp add: h2_def)
  have fresh: "s \<notin> set ss"
    using idx_slots_distinct [OF i] slots by simp
  show ring2: "ring h2 ! k = (if k = s then (ring h ! k)\<lparr>sown := locality_val (locality_not (q_locale q))\<rparr>
      else ring h ! k)" if "k < ?n" for k
    using that hd D(4) by (simp add: h2_def flip_owner_def nth_list_update)
  show "owner_ok (q_locale q) q h2"
    using own fresh unfolding owner_ok_def slots slots2 by (auto simp: ring2)
qed

lemma ring_ok_count: "q_count q = q_count q' \<Longrightarrow> ring_ok q h = ring_ok q' h"
  and owner_ok_count: "q_count q = q_count q' \<Longrightarrow> owner_ok c q h = owner_ok c q' h"
  by (simp_all add: ring_ok_def owner_ok_def)

lemma produce_eq:
  fixes l :: "('o, 'n) ioq_link" and x :: payload
  defines "q \<equiv> lk_prod l" and "h \<equiv> lk_head l"
  defines "p \<equiv> tail (idx h ioq_idxtype_inuse)"
  assumes ok: "link_ok l" and free: "length (link_contents l) < link_cap l"
  shows "ioq_produce x l = Inr (Some (l\<lparr>lk_head :=
           flip_owner q p (idx_upd ioq_idxtype_inuse (\<lambda>i. idx_tail_push i (count32 q))
             (h\<lparr>ring := (ring h)[unat p := set_payload x (ring h ! unat p)]\<rparr>))\<rparr>))"
proof -
  note D = link_okD [OF ok]
  have p: "unat p < length (ring h)"
    using D(1,5) by (auto simp: p_def h_def ring_ok_def idx_ok_def)
  have "unat p \<notin> set (idx_slots (ring_size q) (idx h ioq_idxtype_inuse))"
    using tail_not_in_slots [OF D(5)] free by (simp add: q_def h_def p_def length_contents link_cap_def)
  then have "sown (ring h ! unat p) = locality_val (q_locale q)"
    using D(1,3,4) p by (simp add: owner_ok_def q_def h_def ring_ok_def)
  then show ?thesis
    using p by (simp add: ioq_produce_def Let_def iter_init_seek desc_read_def desc_write_def iter_push_eq
        flip: q_def h_def p_def)
qed

lemma produce_free:
  assumes ok: "link_ok l" and free: "length (link_contents l) < link_cap l"
  shows "\<exists>l'. ioq_produce x l = Inr (Some l') \<and> link_ok l' \<and> link_contents l' = link_contents l @ [x]
           \<and> link_cap l' = link_cap l"
proof -
  let ?q = "lk_prod l" and ?h = "lk_head l" and ?t = ioq_idxtype_inuse
  let ?p = "tail (idx ?h ?t)" and ?n = "ring_size (lk_prod l)"
  let ?h1 = "?h\<lparr>ring := (ring ?h)[unat ?p := set_payload x (ring ?h ! unat ?p)]\<rparr>"
  define h2 where "h2 = flip_owner ?q ?p (idx_upd ?t (\<lambda>i. idx_tail_push i (count32 ?q)) ?h1)"
  note D = link_okD [OF ok]
  have n: "unat (count32 ?q) = ?n" and len: "length (ring ?h) = ?n" and p: "unat ?p < ?n"
    using ring_okD [OF D(1)] D(5) by (auto simp: idx_ok_def)
  have cnt: "idx_count ?n (idx ?h ?t) < ?n"
    using free by (simp add: length_contents link_cap_def)
  note push = idx_tail_push_ok [of "count32 ?q" "idx ?h ?t", unfolded n, OF D(5) cnt]
  have slots: "idx_slots ?n (idx h2 ?t) = idx_slots ?n (idx ?h ?t) @ [unat ?p]"
    using push(3) by (simp add: h2_def)
  have fresh: "unat ?p \<notin> set (idx_slots ?n (idx ?h ?t))"
    by (rule tail_not_in_slots [OF D(5) cnt])
  have ring2: "ring h2 ! s = (if s = unat ?p then (set_payload x (ring ?h ! s))
      \<lparr>sown := locality_val (q_locale (lk_cons l))\<rparr> else ring ?h ! s)" if "s < ?n" for s
    using that p len D(3) by (simp add: h2_def flip_owner_def nth_list_update)
  have "ring_ok ?q ?h1"
    using D(1) by (simp add: ring_ok_def)
  then have "ring_ok ?q h2"
    using push(1) ring_ok_upd [of ?q ?h1 ?t] by (simp add: h2_def)
  moreover have "owner_ok (q_locale (lk_cons l)) ?q h2"
    using D(4) fresh unfolding owner_ok_def slots by (auto simp: ring2)
  moreover have "link_contents (l\<lparr>lk_head := h2\<rparr>) = link_contents l @ [x]"
    using fresh slots idx_slots_bound [OF D(5)] p by (auto simp: link_contents_def ring2)
  moreover have "ioq_produce x l = Inr (Some (l\<lparr>lk_head := h2\<rparr>))"
    using produce_eq [OF ok free, of x] by (simp only: h2_def)
  ultimately show ?thesis
    using ok by (simp add: link_ok_def link_cap_def)
qed

lemma produce_full:
  assumes ok: "link_ok l" and full: "\<not> length (link_contents l) < link_cap l"
  shows "ioq_produce x l = Inr None"
proof -
  let ?q = "lk_prod l" and ?h = "lk_head l" and ?i = "idx (lk_head l) ioq_idxtype_inuse"
  note D = link_okD [OF ok]
  have p: "unat (tail ?i) < length (ring ?h)" "unat (tail ?i) < ring_size ?q"
    using D(1,5) by (auto simp: ring_ok_def idx_ok_def)
  have "idx_count (ring_size ?q) ?i = ring_size ?q"
    using full idx_count_le [OF D(5)] by (simp add: length_contents link_cap_def)
  then have "unat (tail ?i) \<in> set (idx_slots (ring_size ?q) ?i)"
    by (rule tail_in_full_slots [OF D(5) _ p(2)])
  then have "sown (ring ?h ! unat (tail ?i)) \<noteq> locality_val (q_locale ?q)"
    using D(3,4) p by (simp add: owner_ok_def)
  then show ?thesis
    using p by (simp add: ioq_produce_def Let_def iter_init_seek desc_read_def)
qed

lemma consume_nonempty:
  assumes ok: "link_ok l" and ne: "link_contents l = x # xs"
  shows "\<exists>l'. ioq_consume l = Inr (Some (x, l')) \<and> link_ok l' \<and> link_contents l' = xs
           \<and> link_cap l' = link_cap l"
proof -
  let ?q = "lk_prod l" and ?c = "lk_cons l" and ?h = "lk_head l" and ?t = ioq_idxtype_inuse
  let ?p = "head (idx ?h ?t)" and ?n = "ring_size (lk_cons l)"
  define h2 where "h2 = flip_owner ?c ?p (idx_upd ?t (\<lambda>i. idx_head_pop i (count32 ?c)) ?h)"
  have cnt: "q_count ?c = q_count ?q" using ok by (simp add: link_ok_def)
  note count = ring_ok_count [OF cnt] owner_ok_count [OF cnt]
  note D = link_okD [OF ok]
  obtain s ss where slots: "idx_slots ?n (idx ?h ?t) = s # ss"
    using ne cnt by (cases "idx_slots ?n (idx ?h ?t)") (auto simp: link_contents_def)
  note pop = ring_pop [OF D(1) [folded count(1)] D(4) [folded count(2)] slots, folded h2_def]
  have "distinct (idx_slots ?n (idx ?h ?t))"
    using idx_slots_distinct D(5) cnt by simp
  then have "s \<notin> set ss" by (simp add: slots)
  moreover have "\<forall>k\<in>set ss. k < ?n"
    using idx_slots_bound D(5) slots cnt by (metis list.set_intros(2))
  ultimately have "link_contents l = payload_of (ring ?h ! s) # link_contents (l\<lparr>lk_head := h2\<rparr>)"
    using pop(2,7,8) slots cnt by (simp add: link_contents_def)
  moreover have "ioq_consume l = Inr (Some (payload_of (ring ?h ! s), l\<lparr>lk_head := h2\<rparr>))"
    using pop(1-4) ring_okD(4) [OF D(1)] cnt
    by (simp add: ioq_consume_def Let_def iter_init_seek desc_read_def)
  ultimately show ?thesis
    using ok ne pop(5,6) count by (simp add: link_ok_def link_cap_def)
qed

lemma consume_empty:
  assumes ok: "link_ok l" and empty: "link_contents l = []"
  shows "ioq_consume l = Inr None"
proof -
  let ?q = "lk_prod l" and ?h = "lk_head l" and ?i = "idx (lk_head l) ioq_idxtype_inuse"
  note D = link_okD [OF ok]
  have p: "unat (head ?i) < length (ring ?h)" "unat (head ?i) < ring_size ?q"
    using D(1,5) by (auto simp: ring_ok_def idx_ok_def)
  have "idx_slots (ring_size ?q) ?i = []"
    using empty by (simp add: link_contents_def)
  then have "sown (ring ?h ! unat (head ?i)) \<noteq> locality_val (q_locale (lk_cons l))"
    using D(4) p by (simp add: owner_ok_def)
  then show ?thesis
    using p by (simp add: ioq_consume_def Let_def iter_init_seek desc_read_def)
qed

lemma link_bounded: "link_ok l \<Longrightarrow> length (link_contents l) \<le> link_cap l"
  using idx_count_le link_okD(5) by (fastforce simp: length_contents link_cap_def)

interpretation ring: bounded_queue link_ok link_contents link_cap ioq_produce ioq_consume
  by unfold_locales (rule produce_free produce_full consume_nonempty consume_empty link_bounded; assumption)+

section \<open>Properties\<close>

text \<open>Claim C1. The ring is a first-in first-out queue between its two parties: any sequence of produce and
  consume transactions runs without touching memory outside the ring, keeps the index and owner invariants, and what was
  handed out followed by what is still queued is what was queued followed by what was accepted, in order, nothing lost or
  duplicated.\<close>

theorem ioq_link_fifo:
  assumes "link_ok l"
  shows "\<exists>l' acc out. queue_run ioq_produce ioq_consume ops l = Inr (l', acc, out) \<and> link_ok l'
           \<and> out @ link_contents l' = link_contents l @ acc"
  using ring.run_fifo [OF assms, of ops] by blast

text \<open>Claim C18. The producer never overruns the consumer: over any run, the queue accepts at most as many
  descriptors as the ring has slots and the consumer has freed.\<close>

theorem ioq_link_bounded:
  assumes "link_ok l" and "queue_run ioq_produce ioq_consume ops l = Inr (l', acc, out)"
  shows "length (link_contents l) + length acc \<le> link_cap l + length out"
  by (rule ring.run_bounded [OF assms])

text \<open>The owner flag alone decides: a produce transaction is refused exactly when every slot is
  queued, and a consume transaction exactly when none is; neither then changes the ring.\<close>

theorem ioq_produce_refuses_iff_full:
  assumes "link_ok l"
  shows "(ioq_produce x l = Inr None \<longleftrightarrow> length (link_contents l) = link_cap l)
       \<and> (ioq_consume l = Inr None \<longleftrightarrow> link_contents l = [])"
proof -
  have "link_contents l \<noteq> [] \<Longrightarrow> ioq_consume l \<noteq> Inr None"
    using ring.deq_nonempty [OF assms] by (cases "link_contents l") fastforce+
  moreover have "length (link_contents l) < link_cap l \<Longrightarrow> ioq_produce x l \<noteq> Inr None"
    by (auto dest: ring.enq_free [OF assms, of x])
  ultimately show ?thesis
    using ring.enq_full [OF assms] ring.deq_empty [OF assms] ring.bounded [OF assms]
    by (metis le_neq_implies_less less_irrefl)
qed

lemma c_bool_simps [simp]: "c_bool b = 1 \<longleftrightarrow> b" "c_bool b = 0 \<longleftrightarrow> \<not> b" "c_bool a = c_bool b \<longleftrightarrow> a = b"
  by (auto simp: c_bool_def)

text \<open>Claim C27. On a well-formed ring the queries \<open>ioq_count\<close>, \<open>ioq_remain\<close>, \<open>ioq_full\<close> and
  \<open>ioq_empty\<close>, with their wrapping 32-bit and 64-bit arithmetic, report the number of slots the index holds: count and remainder add
  up to the size of the ring, full means that no slot remains and empty that none is held.\<close>

theorem ioq_queries_count_slots:
  assumes "ring_ok q h" and "t = ioq_idxtype_valid \<or> t = ioq_idxtype_inuse"
    and "k = length (idx_slots (ring_size q) (idx h t))"
  shows "ioq_count q h t = Inr (int k) \<and> ioq_remain q h t = Inr (ioq_size q - int k)
       \<and> ioq_full q h t = Inr (c_bool (int k = ioq_size q)) \<and> ioq_empty q h t = Inr (c_bool (k = 0))
       \<and> ioq_size q = int (ring_size q) \<and> k \<le> ring_size q"
proof -
  note D = ring_okD [OF assms(1)]
  have ok: "idx_ok (ring_size q) (idx h t)" using D(5) assms(2) by blast
  have k: "k = idx_count (ring_size q) (idx h t)" using assms(3) by simp
  have le: "k \<le> ring_size q" using idx_count_le [OF ok] k by simp
  have t: "idxtype_to_idx t = Some t" using assms(2) by (auto simp: idxtype_to_idx_def)
  have size: "ioq_size q = int (ring_size q)"
    unfolding ioq_size_def using D(1,3) by (simp add: sint_small)
  have cnt: "ioq_ring_count (idx h t) (count32 q) = int k"
    using ioq_ring_count_eq [of "count32 q" "idx h t"] D(1,3) ok k by simp
  have "unat (q_count q - word_of_int (int k)) = ring_size q - k"
    using le D(3) by (simp add: unat_sub word_le_nat_alt unat_of_nat)
  then have "unat (ucast (q_count q - word_of_int (int k)) :: 32 word) = ring_size q - k"
    using D(3) by (simp add: unat_ucast_small)
  then have "ioq_remain q h t = Inr (int (ring_size q) - int k)"
    using D(3) le t cnt by (simp add: ioq_remain_def sint_small of_nat_diff)
  moreover have "idx_full (idx h t) \<longleftrightarrow> int k = int (ring_size q)"
    unfolding of_nat_eq_iff k by (rule idx_count_eq_full [OF ok, symmetric])
  ultimately show ?thesis
    using t cnt le unfolding size by (simp add: ioq_count_def ioq_full_def ioq_empty_def)
qed

text \<open>Push and pop are refused, with \<open>-1\<close> and nothing changed or signalled, when the iterator does not stand
  at the tail (push) or head (pop) of its index or the descriptor belongs to the other party; the position is tested first, so
  an iterator that was never sought is refused without reading a descriptor.\<close>

theorem ioq_iter_guards:
  assumes "it_idx it = Some t"
  shows "(it_pos it \<noteq> tail (idx h t) \<longrightarrow> ioq_iter_push q h it = Inr (-1, h, it, NoCall))
       \<and> (it_pos it \<noteq> head (idx h t) \<longrightarrow> ioq_iter_pop q h it = Inr (-1, h, it, NoCall))
       \<and> (desc_read h it = Inr d \<and> sown d \<noteq> locality_val (q_locale q) \<longrightarrow>
            ioq_iter_push q h it = Inr (-1, h, it, NoCall) \<and> ioq_iter_pop q h it = Inr (-1, h, it, NoCall))"
  using assms by (simp add: ioq_iter_push_def ioq_iter_pop_def)

text \<open>\<open>ioq_iter_seek\<close> rejects offsets past the end but not negative ones: a negative \<open>ioq_seek_set\<close>
  reports success and leaves the iterator pointing outside the ring.\<close>

theorem ioq_seek_negative_offset:
  assumes "ring_ok q h" and "sint offset < 0"
  shows "\<exists>it'. ioq_iter_seek q h it ioq_seek_set offset = Inr (0, it') \<and> desc_read h it' = Inl OutOfBounds"
proof -
  note D = ring_okD [OF assms(1)]
  have "2 ^ 31 \<le> unat offset"
    using assms(2) sint_small [of offset] by (cases "unat offset < 2 ^ 31") auto
  moreover have "0 \<le> sint (count32 q)"
    using D(1,3) by (simp add: sint_small)
  ultimately show ?thesis
    using assms(2) D(3,4) by (simp add: ioq_iter_seek.simps ioq_iter_setpos_def desc_read_def)
qed

text \<open>Claim C28. An iterator over both indexes keeps them in lockstep: if the valid and the in-use index are equal
  and not full, and the iterator stands at the tail on a descriptor of its party, the push succeeds, both indexes gain the same
  slot and stay equal.\<close>

theorem ioq_dual_push_lockstep:
  assumes "ring_ok q h" and "idx h ioq_idxtype_valid = i" and "idx h ioq_idxtype_inuse = i"
    and "idx_count (ring_size q) i < ring_size q" and "sown (ring h ! unat (tail i)) = locality_val (q_locale q)"
    and "ioq_iter_seek q h (snd (ioq_iter_init ioq_idxtype_both 0)) ioq_seek_tail 0 = Inr (rc, it)"
  shows "\<exists>h' it'. ioq_iter_push q h it = Inr (0, h', it', NoCall) \<and> ring_ok q h'
           \<and> idx h' ioq_idxtype_valid = idx h' ioq_idxtype_inuse
           \<and> idx_slots (ring_size q) (idx h' ioq_idxtype_inuse) = idx_slots (ring_size q) i @ [unat (tail i)]
           \<and> sown (ring h' ! unat (tail i)) = locality_val (locality_not (q_locale q))"
proof -
  note D = ring_okD [OF assms(1)]
  have i: "idx_ok (ring_size q) i" using D(5) assms(2) by blast
  have p: "unat (tail i) < length (ring h)" using i D(4) by (simp add: idx_ok_def)
  have it: "it = (iter_at ioq_idxtype_valid (tail i))\<lparr>it_dualidx := True\<rparr>"
    using assms(2,6) by (simp add: ioq_iter_init_def idxtype_to_idx_def ioq_iter_seek.simps ioq_iter_setpos_def
        IOQ_ITER_AUTOUPDATE_def IOQ_ITER_NOFLIPOWNER_def)
  note push = idx_tail_push_ok [of "count32 q" i, unfolded D(1), OF i assms(4)]
  let ?j = "idx_tail_push i (count32 q)"
  let ?h' = "flip_owner q (tail i)
    (h\<lparr>idx := (idx h)(ioq_idxtype_valid := ?j, ioq_idxtype_inuse := ?j)\<rparr>)"
  have "ioq_iter_push q h it = Inr (0, ?h', it\<lparr>it_pos := modulo_inc (tail i) (count32 q),
      it_desc := Some (modulo_inc (tail i) (count32 q))\<rparr>, NoCall)"
    using p assms(2,3,5) by (simp add: it ioq_iter_push_def desc_read_def iter_finish_def desc_write_def
        flip_owner_def ioq_iter_seek.simps ioq_iter_setpos_def Let_def)
  moreover have "ring_ok q ?h'"
    unfolding ring_ok_flip using assms(1) push(1) by (simp add: ring_ok_def)
  ultimately show ?thesis
    using push(3) p by (simp add: flip_owner_def)
qed

text \<open>The block of \<open>IOQ_HEAD_DESC_SIZE(count)\<close> bytes that \<open>eventq_ioq_init\<close> allocates holds the
  header and all \<open>count\<close> descriptors: each ends inside the block and the last one ends exactly at its end.\<close>

theorem ring_fits_allocation:
  assumes "0 < unat count" and "unat count < 2 ^ 31" and "s < unat count"
  shows "offsetof_ring + s * sizeof_ioq_ring_desc + sizeof_ioq_ring_desc \<le> unat (IOQ_HEAD_DESC_SIZE count)
       \<and> (Suc s = unat count \<longrightarrow>
            offsetof_ring + s * sizeof_ioq_ring_desc + sizeof_ioq_ring_desc = unat (IOQ_HEAD_DESC_SIZE count))"
proof -
  have "unat (count - 1) = unat count - 1"
    using assms(1) by (metis unat_gt_0 unat_minus_one)
  then have size: "unat (IOQ_HEAD_DESC_SIZE count) = 88 + 32 * (unat count - 1)"
    using assms(1,2) by (simp add: IOQ_HEAD_DESC_SIZE_def sizeof_ioq_ring_head_def offsetof_ring_def
        sizeof_ioq_ring_desc_def unat_word_ariths)
  have "unat count = Suc (unat count - 1)"
    using assms(1) by simp
  then show ?thesis
    using assms(3) size unfolding offsetof_ring_def sizeof_ioq_ring_desc_def by linarith
qed

section \<open>Witnesses\<close>

text \<open>A fresh ring of two descriptors, all owned by the south side, which produces for the north side.\<close>

definition demo_ioq :: "locality \<Rightarrow> (unit, unit) ioq" where
  "demo_ioq loc = ioq_init loc (ShmSignalInit loc ()) 2"

definition demo_head :: "UINT8 \<Rightarrow> ioq_ring_head" where
  "demo_head own = \<lparr>h_magic = IOQ_RING_MAGIC, h_ver = IOQ_RING_VER, h_signal = demo_desc 0 0,
     idx = (\<lambda>_. \<lparr>head = 0, tail = 0, full = 0\<rparr>), h_count = 2,
     ring = replicate 2 \<lparr>cookie = 0, d_ptr = 0, d_len = 0, valid = 0, sown = own\<rparr>\<rparr>"

definition demo_link :: "(unit, unit) ioq_link" where
  "demo_link = \<lparr>lk_prod = demo_ioq shm_locality_south, lk_cons = demo_ioq shm_locality_north,
                lk_head = demo_head 1\<rparr>"

lemma demo_ioq_simps [simp]: "q_count (demo_ioq loc) = 2" "q_locale (demo_ioq loc) = loc"
  by (simp_all add: demo_ioq_def ioq_init_def)

lemma demo_ring_ok: "ring_ok (demo_ioq loc) (demo_head v)"
  by (simp add: ring_ok_def demo_head_def idx_ok_def)

lemma demo_slots [simp]: "idx_slots n (idx (demo_head v) t) = []"
  by (simp add: idx_slots_def idx_count_def idx_full_def demo_head_def)

lemma demo_link_ok: "link_ok demo_link" and demo_link_contents: "link_contents demo_link = []"
  and demo_link_cap: "link_cap demo_link = 2"
proof -
  have "owner_ok shm_locality_north (demo_ioq shm_locality_south) (demo_head 1)"
    unfolding owner_ok_def demo_slots by (simp add: demo_head_def)
  then show "link_ok demo_link"
    by (simp add: link_ok_def demo_link_def demo_ring_ok)
  show "link_contents demo_link = []" "link_cap demo_link = 2"
    by (simp_all add: demo_link_def link_contents_def link_cap_def)
qed

lemma ioq_link_fifo_witness:
  "\<exists>l' acc out. queue_run ioq_produce ioq_consume [Enq (1, 2, 3, 1), Enq (4, 5, 6, 1), Deq] demo_link
       = Inr (l', acc, out) \<and> link_ok l' \<and> out @ link_contents l' = acc"
  using ioq_link_fifo [OF demo_link_ok, of "[Enq (1, 2, 3, 1), Enq (4, 5, 6, 1), Deq]"]
  by (simp only: demo_link_contents append_Nil)

lemma ioq_link_bounded_witness:
  "\<exists>l' acc out. queue_run ioq_produce ioq_consume (replicate 5 (Enq (1, 2, 3, 1)) @ [Deq]) demo_link
       = Inr (l', acc, out) \<and> length acc \<le> 2 + length out"
proof -
  obtain l' acc out where run: "queue_run ioq_produce ioq_consume (replicate 5 (Enq (1, 2, 3, 1)) @ [Deq])
      demo_link = Inr (l', acc, out)"
    using ring.run_fifo [OF demo_link_ok] by blast
  then show ?thesis
    using ioq_link_bounded [OF demo_link_ok run] by (auto simp: demo_link_contents demo_link_cap)
qed

lemma ioq_produce_refuses_iff_full_witness:
  "ioq_consume demo_link = Inr None \<and> ioq_produce (1, 2, 3, 1) demo_link \<noteq> Inr None"
  using ioq_produce_refuses_iff_full [OF demo_link_ok, of "(1, 2, 3, 1)"]
  by (simp add: demo_link_contents demo_link_cap)

lemma ioq_queries_count_slots_witness:
  "ioq_count (demo_ioq shm_locality_north) (demo_head 0) ioq_idxtype_inuse = Inr 0
   \<and> ioq_remain (demo_ioq shm_locality_north) (demo_head 0) ioq_idxtype_inuse = Inr 2"
  using ioq_queries_count_slots [OF demo_ring_ok, of ioq_idxtype_inuse 0 shm_locality_north 0]
  by (simp del: length_idx_slots)

lemma ioq_iter_guards_witness:
  "ioq_iter_push (demo_ioq shm_locality_north) (demo_head 0) (snd (ioq_iter_init ioq_idxtype_valid 0))
     = Inr (-1, demo_head 0, snd (ioq_iter_init ioq_idxtype_valid 0), NoCall)"
  using ioq_iter_guards [of "snd (ioq_iter_init ioq_idxtype_valid 0)" ioq_idxtype_valid "demo_head 0"
      "demo_ioq shm_locality_north"]
  by (simp add: ioq_iter_init_def idxtype_to_idx_def demo_head_def)

lemma ioq_seek_negative_offset_witness:
  "\<exists>it'. ioq_iter_seek (demo_ioq shm_locality_north) (demo_head 0)
      (snd (ioq_iter_init ioq_idxtype_valid 0)) ioq_seek_set (-1) = Inr (0, it')
    \<and> desc_read (demo_head 0) it' = Inl OutOfBounds"
  using ioq_seek_negative_offset [OF demo_ring_ok, of "-1"] by simp

lemma ioq_dual_push_lockstep_witness:
  "\<exists>h' it'. ioq_iter_push (demo_ioq shm_locality_north) (demo_head 0)
       \<lparr>it_idx = Some ioq_idxtype_valid, it_pos = 0, it_desc = Some 0, it_update = False,
        it_dualidx = True, it_flipowner = True\<rparr> = Inr (0, h', it', NoCall)
     \<and> idx h' ioq_idxtype_valid = idx h' ioq_idxtype_inuse \<and> sown (ring h' ! 0) = 1"
proof -
  let ?i = "\<lparr>head = 0, tail = 0, full = 0\<rparr>" and ?q = "demo_ioq shm_locality_north"
  have "ioq_iter_seek ?q (demo_head 0) (snd (ioq_iter_init ioq_idxtype_both 0)) ioq_seek_tail 0 =
      Inr (0, \<lparr>it_idx = Some ioq_idxtype_valid, it_pos = 0, it_desc = Some 0, it_update = False,
        it_dualidx = True, it_flipowner = True\<rparr>)"
    by (simp add: ioq_iter_seek.simps ioq_iter_init_def idxtype_to_idx_def ioq_iter_setpos_def demo_head_def
        IOQ_ITER_AUTOUPDATE_def IOQ_ITER_NOFLIPOWNER_def)
  then show ?thesis
    using ioq_dual_push_lockstep [OF demo_ring_ok, of 0 ?i shm_locality_north]
    by (auto simp: idx_count_def idx_full_def demo_head_def)
qed

lemma ring_fits_allocation_witness:
  "offsetof_ring + 1023 * sizeof_ioq_ring_desc + sizeof_ioq_ring_desc = unat (IOQ_HEAD_DESC_SIZE 1024)"
  using ring_fits_allocation [of 1024 1023] by simp

end
