(* ===== verification/Pci_Eventq.thy ===== *)
theory Pci_Eventq
  imports Pci_Signal Ioq_Queue
begin

text \<open>
  The event queue of \<open>windows/vbus/pci.c\<close>: the handlers of the four events, the loop
  \<open>eventq_wakeup\<close> that drains the ring, the set-up of queue and ring, and the interrupt callbacks.
  Whether the loop returns depends on the host, so it is a partial function whose result is
  \<open>None\<close> when it does not. The lemmas show that against a quiet host it handles all queued events
  in order and hands every descriptor back, and what initialisation leaves behind.
\<close>

section \<open>Event handlers\<close>

text \<open>
  The child list of the framework is reached through the bus device. \<open>memcpy\<close> copies the whole
  type array.
\<close>

definition event_devadd :: "vbus_pci_event \<Rightarrow> machine \<Rightarrow> machine" where
  "event_devadd e m = io (Child_present (ev_word e) (take VBUS_MAX_DEVTYPE_LEN (ev_type e))) m"

text \<open>The search loop over the present children: the first one with the handle.\<close>

fun devdrop_find :: "UINT64 \<Rightarrow> pdo_data list \<Rightarrow> pdo_data option" where
  "devdrop_find h [] = None"
| "devdrop_find h (pd # pds) = (if pd_handle pd = h then Some pd else devdrop_find h pds)"

definition event_devdrop :: "vbus_pci_event \<Rightarrow> machine \<Rightarrow> machine" where
  "event_devdrop e m =
     (case devdrop_find (ev_word e) (m_children m) of
        None \<Rightarrow> m
      | Some pd \<Rightarrow> io (Child_missing (pd_id pd)) m)"

definition event_shmsignal :: "vbus_pci_event \<Rightarrow> machine \<Rightarrow> machine outcome" where
  "event_shmsignal e m = signal_op ShmSignalWakeup (ulong_cast (ev_word e)) m"

definition event_shmclose :: "vbus_pci_event \<Rightarrow> machine \<Rightarrow> machine outcome" where
  "event_shmclose e m = signal_put (ulong_cast (ev_word e)) m"

definition event_dispatch :: "vbus_pci_event \<Rightarrow> machine \<Rightarrow> machine outcome" where
  "event_dispatch e m =
     (if eventid e = 0 then Inr (event_devadd e m)
      else if eventid e = 1 then Inr (event_devdrop e m)
      else if eventid e = 2 then event_shmsignal e m
      else if eventid e = 3 then event_shmclose e m
      else Inr m)"

section \<open>The loop\<close>

text \<open>
  The event an address points to, as a position in the array of \<open>n\<close> events at \<open>base\<close>.
\<close>

definition event_index :: "UINT64 \<Rightarrow> nat \<Rightarrow> UINT64 \<Rightarrow> nat outcome" where
  "event_index base n a =
     (let off = unat a - unat base
      in if a = 0 then Inl NullDeref
         else if base \<le> a \<and> off mod sizeof_event = 0 \<and> off div sizeof_event < n
         then Inr (off div sizeof_event) else Inl OutOfBounds)"

text \<open>Injecting from the event queue: the signal's descriptor is the one in the ring header.\<close>

definition run_inject :: "(pci_ops, pci_notifier) sig_call \<Rightarrow> machine \<Rightarrow> machine outcome" where
  "run_inject c m = (case c of CallInject ops \<Rightarrow> ops_inject ops (vp_signal (vbus m)) m | _ \<Rightarrow> Inr m)"

text \<open>One turn of the loop; \<open>None\<close> ends it.\<close>

definition eventq_body :: "ioq_iterator \<Rightarrow> machine \<Rightarrow> (ioq_iterator \<times> machine) option outcome" where
  "eventq_body it m =
     bind_ok (desc_read (m_head m) it) (\<lambda>desc.
       if sown desc \<noteq> 0 then Inr None
       else
         bind_ok (event_index (vp_ring (vbus m)) (length (m_events m)) (ulong_cast (cookie desc))) (\<lambda>i.
         bind_ok (event_dispatch (m_events m ! i) m) (\<lambda>m1.
           let m2 = m1\<lparr>m_events := (m_events m1)[i := event_zero]\<rparr> in
           bind_ok (ioq_iter_pop (vp_eventq (vbus m2)) (m_head m2) it) (\<lambda>(_, h, it', c).
           bind_ok (run_inject c (m2\<lparr>m_head := h\<rparr>)) (\<lambda>m3. Inr (Some (it', m3)))))))"

text \<open>The host may change the shared memory before each test of the loop.\<close>

partial_function (option) eventq_loop :: "host \<Rightarrow> ioq_iterator \<Rightarrow> machine \<Rightarrow> machine outcome option" where
  "eventq_loop H it m =
     (case eventq_body it m of
        Inl e \<Rightarrow> Some (Inl e)
      | Inr None \<Rightarrow> Some (Inr m)
      | Inr (Some (it', m')) \<Rightarrow> eventq_loop H it' (hc_step H m'))"

definition eventq_kick :: "machine \<Rightarrow> machine outcome" where
  "eventq_kick m =
     (if vp_signal (vbus m) = 0 then Inl NullDeref
      else case ioq_signal (vp_eventq (vbus m)) (m_head m) of (_, h, c) \<Rightarrow> run_inject c (m\<lparr>m_head := h\<rparr>))"

definition eventq_wakeup :: "host \<Rightarrow> machine \<Rightarrow> machine outcome option" where
  "eventq_wakeup H m =
     (if vp_head_desc (vbus m) = 0 then Some (Inl NullDeref)
      else
        let it = snd (ioq_iter_init ioq_idxtype_inuse 0)
        in case ioq_iter_seek (vp_eventq (vbus m)) (m_head m) it ioq_seek_head 0 of
             Inl e \<Rightarrow> Some (Inl e)
           | Inr (_, it1) \<Rightarrow> ret_bind (eventq_loop H it1 m) (\<lambda>m1. Some (eventq_kick m1)))"

section \<open>Signal operations of the event queue\<close>

definition eventq_shm ::
  "host \<Rightarrow> ((pci_ops, shm_notifier) shm_signal \<Rightarrow> shm_signal_desc
            \<Rightarrow> shm_signal_desc \<times> (pci_ops, shm_notifier) sig_call)
   \<Rightarrow> machine \<Rightarrow> machine outcome option" where
  "eventq_shm H f m =
     (if vp_signal (vbus m) = 0 then Some (Inl NullDeref)
      else
        let q = vp_eventq (vbus m);
            (d, c) = f (q_signal q) (h_signal (m_head m));
            m1 = m\<lparr>m_head := (m_head m)\<lparr>h_signal := d\<rparr>\<rparr>
        in case ioq_dispatch q c of
             CallNotifier Eventq_wakeup \<Rightarrow> eventq_wakeup H m1
           | c' \<Rightarrow> Some (run_inject c' m1))"

definition eventq_intr_enable :: "host \<Rightarrow> machine \<Rightarrow> (NTSTATUS \<times> machine) outcome option" where
  "eventq_intr_enable H m = ret_bind (eventq_shm H ShmSignalEnable m) (\<lambda>m1. Some (Inr (STATUS_SUCCESS, m1)))"

definition eventq_disable :: "machine \<Rightarrow> machine outcome" where
  "eventq_disable m =
     (if vp_signal (vbus m) = 0 then Inl NullDeref
      else Inr (m\<lparr>m_head := snd (ioq_notify_disable (vp_eventq (vbus m)) (m_head m))\<rparr>))"

definition eventq_intr_disable :: "machine \<Rightarrow> (NTSTATUS \<times> machine) outcome" where
  "eventq_intr_disable m = bind_ok (eventq_disable m) (\<lambda>m1. Inr (STATUS_SUCCESS, m1))"

definition eventq_intr_dpc :: "host \<Rightarrow> machine \<Rightarrow> machine outcome option" where
  "eventq_intr_dpc H m =
     ret_bind (eventq_shm H ShmSignalWakeup m) (\<lambda>m1. eventq_shm H ShmSignalEnable m1)"

definition eventq_intr_isr :: "machine \<Rightarrow> (bool \<times> machine) outcome" where
  "eventq_intr_isr m =
     (if vp_signal (vbus m) = 0 then Inl NullDeref
      else if ShmSignalTestEnabled (q_signal (vp_eventq (vbus m))) (h_signal (m_head m)) = 0 then Inr (False, m)
      else bind_ok (eventq_disable m) (\<lambda>m1. Inr (True, io Queue_dpc m1)))"

section \<open>Initialisation\<close>

text \<open>The loop of \<open>eventq_init\<close> from event \<open>i\<close> on, with the number of events left.\<close>

fun eventq_fill :: "host \<Rightarrow> nat \<Rightarrow> nat \<Rightarrow> ioq_iterator \<Rightarrow> machine \<Rightarrow> (NTSTATUS \<times> machine) outcome" where
  "eventq_fill H i 0 it m = Inr (STATUS_SUCCESS, m)"
| "eventq_fill H i (Suc k) it m =
     (let event = vp_ring (vbus m) + of_nat (i * sizeof_event) in
      bind_ok (desc_write (m_head m) it (\<lambda>d. d\<lparr>cookie := ulong_cast event, d_ptr := pa H event,
                 d_len := of_nat sizeof_event, valid := 1\<rparr>)) (\<lambda>h.
      bind_ok (ioq_iter_push (vp_eventq (vbus m)) h it) (\<lambda>(ret, h', it', c).
      bind_ok (run_inject c (m\<lparr>m_head := h'\<rparr>)) (\<lambda>m1.
        if ret < 0 then Inr (STATUS_NO_MORE_ENTRIES, m1)
        else eventq_fill H (Suc i) k it' m1))))"

definition eventq_init :: "host \<Rightarrow> nat \<Rightarrow> machine \<Rightarrow> (NTSTATUS \<times> machine) outcome option" where
  "eventq_init H qlen m =
     (let (p, m1) = VbusAlloc m;
          m2 = m1\<lparr>vbus := (vbus m1)\<lparr>vp_ring := p\<rparr>\<rparr>
      in if p = 0 then Some (Inr (STATUS_NO_MEMORY, m2))
         else
           let m3 = m2\<lparr>m_events := replicate qlen event_zero\<rparr>;
               it = snd (ioq_iter_init ioq_idxtype_valid 0)
           in if vp_head_desc (vbus m3) = 0 then Some (Inl NullDeref)
              else
                ret_bind (Some (bind_ok (ioq_iter_seek (vp_eventq (vbus m3)) (m_head m3) it ioq_seek_tail 0)
                                  (\<lambda>(_, it1). eventq_fill H 0 qlen it1 m3)))
                  (\<lambda>(rc, m4).
                     if rc \<noteq> STATUS_SUCCESS then Some (Inr (rc, m4))
                     else
                       let m5 = m4\<lparr>vbus := (vbus m4)\<lparr>vp_eventq := (vp_eventq (vbus m4))
                                  \<lparr>q_notifier := Some Eventq_wakeup\<rparr>\<rparr>\<rparr>
                       in ret_bind (eventq_shm H ShmSignalEnable m5) (\<lambda>m6. Some (Inr (STATUS_SUCCESS, m6)))))"

definition eventq_ioq_init :: "nat \<Rightarrow> machine \<Rightarrow> NTSTATUS \<times> machine" where
  "eventq_ioq_init ringsize m =
     (let (h, m1) = VbusAlloc m
      in if h = 0 then (STATUS_NO_MEMORY, m1)
         else
           let (s, m2) = VbusAlloc m1
           in if s = 0 then (STATUS_NO_MEMORY, m2\<lparr>m_live := remove1 h (m_live m2)\<rparr>)
              else
                let zero_irq = \<lparr>enabled = 0, pending = 0, dirty = 0\<rparr>;
                    (d, sg) = signal_init \<lparr>magic = 0, ver = 0, irq = (\<lambda>_. zero_irq)\<rparr> Eventq_signal_ops;
                    hd = \<lparr>h_magic = IOQ_RING_MAGIC, h_ver = IOQ_RING_VER, h_signal = d,
                          idx = (\<lambda>_. \<lparr>head = 0, tail = 0, full = 0\<rparr>), h_count = of_nat ringsize,
                          ring = replicate ringsize
                            \<lparr>cookie = 0, d_ptr = 0, d_len = 0, valid = 0, sown = 0\<rparr>\<rparr>
                in (STATUS_SUCCESS,
                    m2\<lparr>m_head := hd,
                       vbus := (vbus m2)\<lparr>vp_eventq := ioq_init shm_locality_north sg (of_nat ringsize),
                                         vp_head_desc := h, vp_signal := s\<rparr>\<rparr>))"

section \<open>Draining the ring\<close>

text \<open>
  The queue is in order: ring and index are well formed, the in-use slots belong to the north, and
  the descriptor of slot \<open>s\<close> points to event \<open>s\<close>.
\<close>

definition evq_shape :: "vbus_pci \<Rightarrow> ioq_ring_head \<Rightarrow> vbus_pci_event list \<Rightarrow> bool" where
  "evq_shape V h evs \<longleftrightarrow>
     vp_head_desc V \<noteq> 0 \<and> vp_signal V \<noteq> 0 \<and> q_locale (vp_eventq V) = shm_locality_north
   \<and> s_locale (q_signal (vp_eventq V)) = shm_locality_north \<and> s_ops (q_signal (vp_eventq V)) = Eventq_signal_ops
   \<and> ring_ok (vp_eventq V) h \<and> owner_ok shm_locality_north (vp_eventq V) h
   \<and> length evs = ring_size (vp_eventq V)
   \<and> (\<forall>s < ring_size (vp_eventq V).
        event_index (vp_ring V) (length evs) (ulong_cast (cookie (ring h ! s))) = Inr s)"

abbreviation evq_ok :: "machine \<Rightarrow> bool" where
  "evq_ok m \<equiv> evq_shape (vbus m) (m_head m) (m_events m)"

abbreviation evq_slots :: "vbus_pci \<Rightarrow> ioq_ring_head \<Rightarrow> nat list" where
  "evq_slots V h \<equiv> idx_slots (ring_size (vp_eventq V)) (idx h ioq_idxtype_inuse)"

definition queued :: "machine \<Rightarrow> vbus_pci_event list" where
  "queued m = map (\<lambda>s. m_events m ! s) (evq_slots (vbus m) (m_head m))"

text \<open>The handlers, one after the other.\<close>

fun handle_events :: "vbus_pci_event list \<Rightarrow> machine \<Rightarrow> machine outcome" where
  "handle_events [] m = Inr m"
| "handle_events (e # es) m = bind_ok (event_dispatch e m) (handle_events es)"

abbreviation shared :: "ioq_ring_head \<Rightarrow> vbus_pci_event list \<Rightarrow> machine \<Rightarrow> machine" where
  "shared h evs m \<equiv> m\<lparr>m_head := h, m_events := evs\<rparr>"

text \<open>The handlers neither read nor write the ring and the events.\<close>

lemma sig_deref_shared [simp]: "sig_deref p (shared h evs m) = sig_deref p m"
  by (simp add: sig_deref_def)

lemma io_shared: "io e (shared h evs m) = shared h evs (io e m)"
  by (simp add: io_def)

lemma sig_write_shared: "sig_write p s (shared h evs m) = shared h evs (sig_write p s m)"
  by (simp add: sig_write_def)

lemma ops_inject_shared:
  "ops_inject ops p (shared h evs m) = bind_ok (ops_inject ops p m) (\<lambda>m1. Inr (shared h evs m1))"
  by (cases ops) (auto simp: signal_inject_def eventq_signal_inject_def io_shared bind_ok_assoc)

lemma VbusFree_shared:
  "VbusFree p (shared h evs m) = bind_ok (VbusFree p m) (\<lambda>m1. Inr (shared h evs m1))"
  by (simp add: VbusFree_def)

lemma event_dispatch_shared:
  "event_dispatch e (shared h evs m) = bind_ok (event_dispatch e m) (\<lambda>m1. Inr (shared h evs m1))"
proof -
  have op: "signal_op f p (shared h evs m) = bind_ok (signal_op f p m) (\<lambda>m1. Inr (shared h evs m1))" for f p
    by (cases "sig_deref p m")
      (auto simp: signal_op_def Let_def sig_write_shared ops_inject_shared io_shared split: prod.splits sig_call.splits)
  have put: "signal_put p (shared h evs m) = bind_ok (signal_put p m) (\<lambda>m1. Inr (shared h evs m1))" for p
    by (cases "sig_deref p m") (auto simp: signal_put_def Let_def sig_write_shared VbusFree_shared VbusFree_def)
  show ?thesis
    by (simp add: event_dispatch_def event_devadd_def event_devdrop_def event_shmsignal_def event_shmclose_def
        op put io_shared split: option.splits)
qed

text \<open>Nor the global state.\<close>

definition same_shared :: "machine \<Rightarrow> machine \<Rightarrow> bool" where
  "same_shared m m1 \<longleftrightarrow> vbus m1 = vbus m \<and> m_head m1 = m_head m \<and> m_events m1 = m_events m"

lemma same_sharedI [simp]:
  "same_shared m m" "same_shared m (io e m)" "same_shared m (sig_write p s m)"
  by (simp_all add: same_shared_def)

lemma same_shared_trans: "same_shared m m1 \<Longrightarrow> same_shared m1 m2 \<Longrightarrow> same_shared m m2"
  by (simp add: same_shared_def)

lemma ops_inject_frame: "ops_inject ops p m = Inr m1 \<Longrightarrow> same_shared m m1"
  by (cases ops) (auto simp: signal_inject_def eventq_signal_inject_def)

lemma signal_op_frame:
  assumes "signal_op f p m = Inr m1"
  shows "same_shared m m1"
proof -
  obtain s where s: "sig_deref p m = Inr s"
    using assms by (auto simp: signal_op_def)
  obtain d c where "f (sg_signal s) (sg_desc s) = (d, c)" by fastforce
  then show ?thesis
    using assms s same_shared_trans [OF same_sharedI(3)]
    by (cases c) (auto simp: signal_op_def Let_def same_shared_def dest!: ops_inject_frame)
qed

lemma signal_put_frame: "signal_put p m = Inr m1 \<Longrightarrow> same_shared m m1"
  by (auto simp: signal_put_def VbusFree_def same_shared_def Let_def split: if_splits)

lemma event_dispatch_frame: "event_dispatch e m = Inr m1 \<Longrightarrow> same_shared m m1"
  by (auto simp: event_dispatch_def event_devadd_def event_devdrop_def event_shmsignal_def event_shmclose_def
      intro: signal_op_frame signal_put_frame split: if_splits option.splits)

lemma handle_events_frame: "handle_events es m = Inr m1 \<Longrightarrow> same_shared m m1"
  by (induction es arbitrary: m) (auto dest!: event_dispatch_frame intro: same_shared_trans)

lemma evq_shapeD:
  assumes "evq_shape V h evs"
  shows "q_locale (vp_eventq V) = shm_locality_north" and "ring_ok (vp_eventq V) h"
    and "owner_ok (q_locale (vp_eventq V)) (vp_eventq V) h" and "length evs = ring_size (vp_eventq V)"
    and "s < ring_size (vp_eventq V) \<Longrightarrow>
           event_index (vp_ring V) (length evs) (ulong_cast (cookie (ring h ! s))) = Inr s"
    and "vp_head_desc V \<noteq> 0" and "vp_signal V \<noteq> 0"
    and "s_locale (q_signal (vp_eventq V)) = shm_locality_north"
    and "s_ops (q_signal (vp_eventq V)) = Eventq_signal_ops"
  using assms by (auto simp: evq_shape_def)

text \<open>What a drained queue looks like, relative to the queue it was.\<close>

definition drained :: "vbus_pci \<Rightarrow> ioq_ring_head \<Rightarrow> vbus_pci_event list \<Rightarrow> ioq_ring_head \<Rightarrow> vbus_pci_event list \<Rightarrow> bool" where
  "drained V h evs h' evs' \<longleftrightarrow>
     evq_shape V h' evs' \<and> evq_slots V h' = [] \<and> h_signal h' = h_signal h
   \<and> idx h' ioq_idxtype_valid = idx h ioq_idxtype_valid
   \<and> (\<forall>s < ring_size (vp_eventq V).
        sown (ring h' ! s) = 1 \<and> evs' ! s = (if s \<in> set (evq_slots V h) then event_zero else evs ! s))"

abbreviation head_iter :: "ioq_ring_head \<Rightarrow> ioq_iterator" where
  "head_iter h \<equiv> iter_at ioq_idxtype_inuse (head (idx h ioq_idxtype_inuse))"

text \<open>One turn of the loop on a queue that is not empty.\<close>

lemma eventq_body_some:
  assumes shape: "evq_shape V h evs" and slots: "evq_slots V h = s # ss"
  shows "\<exists>h2. evq_shape V h2 (evs[s := event_zero]) \<and> evq_slots V h2 = ss
           \<and> h_signal h2 = h_signal h \<and> idx h2 ioq_idxtype_valid = idx h ioq_idxtype_valid
           \<and> (\<forall>m. vbus m = V \<longrightarrow> eventq_body (head_iter h) (shared h evs m) =
                 bind_ok (event_dispatch (evs ! s) m)
                   (\<lambda>m1. Inr (Some (head_iter h2, shared h2 (evs[s := event_zero]) m1))))"
proof -
  let ?q = "vp_eventq V"
  note D = evq_shapeD [OF shape]
  define h2 where "h2 = flip_owner ?q (head (idx h ioq_idxtype_inuse))
                  (idx_upd ioq_idxtype_inuse (\<lambda>i. idx_head_pop i (count32 ?q)) h)"
  note pop = ring_pop [OF D(2,3) slots, folded h2_def]
  have len: "length (ring h) = ring_size ?q"
    using ring_okD(4) [OF D(2)] .
  have "\<forall>k < ring_size ?q. cookie (ring h2 ! k) = cookie (ring h ! k)"
    using pop(8) by simp
  then have "evq_shape V h2 (evs[s := event_zero])"
    using shape pop(5,6) D(1) by (auto simp: evq_shape_def)
  moreover have "eventq_body (head_iter h) (shared h evs m) =
      bind_ok (event_dispatch (evs ! s) m)
        (\<lambda>m1. Inr (Some (head_iter h2, shared h2 (evs[s := event_zero]) m1)))" if "vbus m = V" for m
  proof (cases "event_dispatch (evs ! s) m")
    case (Inl e)
    then show ?thesis
      using pop(1-3) D(1,5) len that
      by (simp add: eventq_body_def desc_read_def event_dispatch_shared)
  next
    case (Inr m1)
    have "vbus m1 = V"
      using event_dispatch_frame [OF Inr] that by (simp add: same_shared_def)
    then show ?thesis
      using Inr pop(1-4) D(1,5) len that
      by (simp add: eventq_body_def desc_read_def event_dispatch_shared run_inject_def)
  qed
  moreover have "idx h2 ioq_idxtype_valid = idx h ioq_idxtype_valid" and "h_signal h2 = h_signal h"
    by (simp_all add: h2_def flip_owner_def)
  ultimately show ?thesis
    using pop(7) by blast
qed

lemma eventq_body_none:
  assumes shape: "evq_shape V h evs" and slots: "evq_slots V h = []" and "vbus m = V"
  shows "eventq_body (head_iter h) (shared h evs m) = Inr None"
proof -
  note D = evq_shapeD [OF shape]
  have "unat (head (idx h ioq_idxtype_inuse)) < ring_size (vp_eventq V)"
    using ring_okD(5) [OF D(2)] by (auto simp: idx_ok_def)
  then show ?thesis
    using D(1,3) slots ring_okD(4) [OF D(2)]
    by (simp add: eventq_body_def desc_read_def owner_ok_def)
qed

lemma empty_drained:
  assumes "evq_shape V h evs" and "evq_slots V h = []"
  shows "drained V h evs h evs"
  using assms evq_shapeD(1,3) [OF assms(1)] by (simp add: drained_def owner_ok_def)

lemma eventq_loop_drains:
  assumes quiet: "hc_step H = (\<lambda>m. m)" and "evq_shape V h evs"
  shows "\<exists>h' evs'. drained V h evs h' evs'
           \<and> (\<forall>m. vbus m = V \<longrightarrow> eventq_loop H (head_iter h) (shared h evs m) =
                Some (bind_ok (handle_events (map (\<lambda>s. evs ! s) (evq_slots V h)) m)
                        (\<lambda>m1. Inr (shared h' evs' m1))))"
  using assms(2)
proof (induction "evq_slots V h" arbitrary: h evs)
  case Nil
  have "eventq_loop H (head_iter h) (shared h evs m) = Some (Inr (shared h evs m))" if "vbus m = V" for m
    using eventq_body_none [OF Nil(2) Nil(1) [symmetric] that] by (subst eventq_loop.simps) simp
  then show ?case
    using empty_drained [OF Nil(2) Nil(1) [symmetric]] Nil(1) [symmetric] by auto
next
  case (Cons s ss)
  let ?evs = "evs[s := event_zero]"
  obtain h2 where h2: "evq_shape V h2 ?evs" "ss = evq_slots V h2" "h_signal h2 = h_signal h"
      "idx h2 ioq_idxtype_valid = idx h ioq_idxtype_valid"
    and body: "\<And>m. vbus m = V \<Longrightarrow> eventq_body (head_iter h) (shared h evs m) =
      bind_ok (event_dispatch (evs ! s) m) (\<lambda>m1. Inr (Some (head_iter h2, shared h2 ?evs m1)))"
    using eventq_body_some [OF Cons(3) Cons(2) [symmetric]] by blast
  obtain h' evs' where d: "drained V h2 ?evs h' evs'"
    and loop: "\<And>m. vbus m = V \<Longrightarrow> eventq_loop H (head_iter h2) (shared h2 ?evs m) =
      Some (bind_ok (handle_events (map (\<lambda>s. ?evs ! s) ss) m) (\<lambda>m1. Inr (shared h' evs' m1)))"
    using Cons(1) [OF h2(2,1)] h2(2) by metis
  note D = evq_shapeD [OF Cons(3)]
  have i: "idx_ok (ring_size (vp_eventq V)) (idx h ioq_idxtype_inuse)"
    using ring_okD(5) [OF D(2)] by blast
  have s: "s \<notin> set ss" "s < length evs"
    using idx_slots_distinct [OF i] idx_slots_bound [OF i, of s] Cons(2) [symmetric] D(4) by simp_all
  have same: "map (\<lambda>s. ?evs ! s) ss = map (\<lambda>s. evs ! s) ss"
    using s by (auto simp: nth_list_update)
  have "drained V h evs h' evs'"
    using d h2(2-4) s Cons(2) [symmetric] D(4) by (auto simp: drained_def nth_list_update)
  moreover have "eventq_loop H (head_iter h) (shared h evs m) =
      Some (bind_ok (handle_events (map (\<lambda>s. evs ! s) (s # ss)) m) (\<lambda>m1. Inr (shared h' evs' m1)))"
    if "vbus m = V" for m
  proof (cases "event_dispatch (evs ! s) m")
    case (Inl e)
    then show ?thesis using body [OF that] by (subst eventq_loop.simps) simp
  next
    case (Inr m1)
    then have "vbus m1 = V"
      using event_dispatch_frame [OF Inr] that by (simp add: same_shared_def)
    then show ?thesis
      using body [OF that] loop [of m1] Inr quiet same by (subst eventq_loop.simps) simp
  qed
  ultimately show ?case
    using Cons(2) by metis
qed

lemma handle_events_shared:
  "handle_events es (shared h evs m) = bind_ok (handle_events es m) (\<lambda>m1. Inr (shared h evs m1))"
proof (induction es arbitrary: m)
  case (Cons e es)
  show ?case
    by (cases "event_dispatch e m") (simp_all add: event_dispatch_shared Cons)
qed simp

lemma evq_shape_signal [simp]: "evq_shape V (h\<lparr>h_signal := d\<rparr>) evs = evq_shape V h evs"
  by (simp add: evq_shape_def ring_ok_def owner_ok_def)

lemma eventq_kick_eq:
  assumes "vp_signal (vbus m) \<noteq> 0" and "s_ops (q_signal (vp_eventq (vbus m))) = Eventq_signal_ops"
    and "s_locale (q_signal (vp_eventq (vbus m))) = shm_locality_north"
  shows "\<exists>d es. eventq_kick m = Inr (m\<lparr>m_head := (m_head m)\<lparr>h_signal := d\<rparr>, m_io := m_io m @ es\<rparr>)
           \<and> irq d shm_locality_north = irq (h_signal (m_head m)) shm_locality_north
           \<and> dirty (irq d shm_locality_south) = 1 \<and> locks_balanced es"
proof -
  let ?h = "m_head m"
  let ?d = "upd_irq shm_locality_south (\<lambda>i. i\<lparr>dirty := 1\<rparr>) (h_signal ?h)"
  let ?i = "irq ?d shm_locality_south"
  have inj: "ShmSignalInject (q_signal (vp_eventq (vbus m))) (h_signal ?h) =
      (if enabled ?i \<noteq> 0 \<and> pending ?i = 0
       then (STATUS_SUCCESS, upd_irq shm_locality_south (\<lambda>i. i\<lparr>pending := 1\<rparr>) ?d, CallInject Eventq_signal_ops)
       else (STATUS_SUCCESS, ?d, NoCall))"
    using assms by (simp add: ShmSignalInject_def Let_def)
  show ?thesis
  proof (cases "enabled ?i \<noteq> 0 \<and> pending ?i = 0")
    case True
    then have "eventq_kick m = Inr (m\<lparr>m_head := ?h\<lparr>h_signal := upd_irq shm_locality_south (\<lambda>i. i\<lparr>pending := 1\<rparr>) ?d\<rparr>,
        m_io := m_io m @ [Write_register (vp_signals (vbus m) + offs_eventq) 0]\<rparr>)"
      using assms(1) inj
      by (simp add: eventq_kick_def ioq_signal_def run_inject_def eventq_signal_inject_def io_def)
    then show ?thesis
      by (auto intro!: exI simp: locks_balanced_def)
  next
    case False
    then have "eventq_kick m = Inr (m\<lparr>m_head := ?h\<lparr>h_signal := ?d\<rparr>, m_io := m_io m @ []\<rparr>)"
      using assms(1) inj by (simp only: if_False) (simp add: eventq_kick_def ioq_signal_def run_inject_def)
    then show ?thesis
      by (auto intro!: exI [of _ ?d] exI [of _ "[]"] simp: locks_balanced_def)
  qed
qed

lemma wakeup_drains:
  assumes "evq_ok m" and "hc_step H = (\<lambda>m. m)"
  shows "\<exists>h evs. eventq_wakeup H m =
            Some (bind_ok (handle_events (queued m) m) (\<lambda>m1. eventq_kick (m1\<lparr>m_head := h, m_events := evs\<rparr>)))
          \<and> drained (vbus m) (m_head m) (m_events m) h evs"
proof -
  note D = evq_shapeD [OF assms(1)]
  have self: "shared (m_head m) (m_events m) m = m" by simp
  obtain h evs where d: "drained (vbus m) (m_head m) (m_events m) h evs"
    and loop: "eventq_loop H (head_iter (m_head m)) (shared (m_head m) (m_events m) m) =
      Some (bind_ok (handle_events (queued m) m) (\<lambda>m1. Inr (shared h evs m1)))"
    using eventq_loop_drains [OF assms(2,1)] unfolding queued_def by blast
  have "eventq_wakeup H m =
      Some (bind_ok (handle_events (queued m) m) (\<lambda>m1. eventq_kick (m1\<lparr>m_head := h, m_events := evs\<rparr>)))"
    using D(6) by (simp add: eventq_wakeup_def iter_init_seek loop [unfolded self] bind_ok_assoc)
  then show ?thesis using d by blast
qed

section \<open>Properties of the loop and the interrupt\<close>


text \<open>An interrupt of the event queue is a complete cycle: the service routine masks the signal and
  queues the DPC, the DPC finds the work the host announced, has all queued events handled, and leaves the ring empty, in order, and the signal unmasked
  and clean, so that the next interrupt is taken again.\<close>

theorem eventq_interrupt_cycle:
  assumes ok: "evq_ok m" and quiet: "hc_step H = (\<lambda>m. m)"
    and notifier: "q_notifier (vp_eventq (vbus m)) = Some Eventq_wakeup"
    and registered: "s_notifier (q_signal (vp_eventq (vbus m))) = Some Ioq_shm_signal"
    and irq: "irq (h_signal (m_head m)) shm_locality_north = i" "enabled i \<noteq> 0" "dirty i \<noteq> 0 \<or> pending i \<noteq> 0"
    and handled: "handle_events (queued m) (io Queue_dpc m) = Inr m1"
  shows "\<exists>m2 m3. eventq_intr_isr m = Inr (True, m2) \<and> eventq_intr_dpc H m2 = Some (Inr m3)
           \<and> evq_ok m3 \<and> queued m3 = [] \<and> m_sigs m3 = m_sigs m1 \<and> m_live m3 = m_live m1
           \<and> enabled (irq (h_signal (m_head m3)) shm_locality_north) = 1
           \<and> dirty (irq (h_signal (m_head m3)) shm_locality_north) = 0"
proof -
  let ?V = "vbus m" and ?sd = "h_signal (m_head m)"
  note D = evq_shapeD [OF ok]
  let ?off = "upd_irq shm_locality_north (\<lambda>i. i\<lparr>enabled := 0\<rparr>) ?sd"
  let ?m2 = "io Queue_dpc (m\<lparr>m_head := (m_head m)\<lparr>h_signal := ?off\<rparr>\<rparr>)"
  let ?on = "upd_irq shm_locality_north (\<lambda>i. i\<lparr>enabled := 1, dirty := 0\<rparr>) ?sd"
  let ?h = "(m_head m)\<lparr>h_signal := ?on\<rparr>"
  let ?m3 = "shared ?h (m_events m) (io Queue_dpc m)"
  have isr: "eventq_intr_isr m = Inr (True, ?m2)"
    using D(7,8) irq(1,2)
    by (simp add: eventq_intr_isr_def eventq_disable_def ioq_notify_disable_def shm_defs unsigned_eq_0_iff)
  have masked: "eventq_shm H ShmSignalWakeup ?m2 = Some (Inr ?m2)"
    using D(7,8) by (simp add: eventq_shm_def shm_defs run_inject_def io_def)
  have "eventq_shm H ShmSignalEnable ?m2 = eventq_wakeup H ?m3"
    using D(7,8) irq(1,3) notifier registered
    by (simp add: eventq_shm_def shm_defs ioq_shm_signal_def io_def)
  then have dpc: "eventq_intr_dpc H ?m2 = eventq_wakeup H ?m3"
    by (simp add: eventq_intr_dpc_def masked)
  have ok3: "evq_ok ?m3" using ok by simp
  have q3: "queued ?m3 = queued m" by (simp add: queued_def)
  obtain h evs where wake: "eventq_wakeup H ?m3 =
      Some (bind_ok (handle_events (queued m) ?m3) (\<lambda>m1. eventq_kick (shared h evs m1)))"
    and dr: "drained ?V ?h (m_events m) h evs"
    using wakeup_drains [OF ok3 quiet] q3 by auto
  have m1: "vbus m1 = ?V"
    using handle_events_frame [OF handled] by (simp add: same_shared_def)
  obtain d es where kick: "eventq_kick (shared h evs m1) =
      Inr ((shared h evs m1)\<lparr>m_head := h\<lparr>h_signal := d\<rparr>, m_io := m_io m1 @ es\<rparr>)"
    and d: "irq d shm_locality_north = irq (h_signal h) shm_locality_north"
    using eventq_kick_eq [of "shared h evs m1"] D(7-9) m1 by auto
  have "eventq_intr_dpc H ?m2 = Some (Inr ((shared h evs m1)\<lparr>m_head := h\<lparr>h_signal := d\<rparr>, m_io := m_io m1 @ es\<rparr>))"
    unfolding dpc wake handle_events_shared handled using kick by simp
  then show ?thesis
    using isr dr d m1 by (auto simp: drained_def queued_def)
qed

text \<open>The event pointer goes through an \<open>unsigned long\<close> when it is stored in the descriptor's cookie and again
  when it is read: if the pool hands out an event ring above 4 GiB, the first event the host queues makes \<open>eventq_wakeup\<close> dereference an address outside
  the ring, whatever the event is.\<close>

theorem eventq_high_ring_faults:
  assumes "ring_ok (vp_eventq (vbus m)) (m_head m)" and "q_locale (vp_eventq (vbus m)) = shm_locality_north"
    and "owner_ok shm_locality_north (vp_eventq (vbus m)) (m_head m)" and "vp_head_desc (vbus m) \<noteq> 0"
    and "evq_slots (vbus m) (m_head m) = s # ss"
    and "cookie (ring (m_head m) ! s) = ulong_cast (vp_ring (vbus m) + of_nat (s * sizeof_event))"
    and "2 ^ 32 \<le> unat (vp_ring (vbus m))"
  shows "\<exists>e. eventq_wakeup H m = Some (Inl e)"
proof -
  let ?q = "vp_eventq (vbus m)" and ?h = "m_head m"
  note pop = ring_pop [OF assms(1) _ assms(5)]
  have own: "owner_ok (q_locale ?q) ?q ?h" using assms(2,3) by simp
  let ?a = "ulong_cast (cookie (ring ?h ! s))"
  have "\<not> vp_ring (vbus m) \<le> ?a"
    using unat_ulong_cast_less [of "cookie (ring ?h ! s)"] assms(7) by (simp add: word_le_nat_alt)
  then obtain e where "event_index (vp_ring (vbus m)) (length (m_events m)) ?a = Inl e"
    by (cases "?a = 0") (simp_all add: event_index_def Let_def)
  then have "eventq_body (head_iter ?h) m = Inl e"
    using pop(1-3) [OF own] assms(2) ring_okD(4) [OF assms(1)] by (simp add: eventq_body_def desc_read_def)
  then have "eventq_loop H (head_iter ?h) m = Some (Inl e)"
    by (subst eventq_loop.simps) simp
  then show ?thesis
    using assms(4) by (simp add: eventq_wakeup_def iter_init_seek)
qed

section \<open>Filling the ring\<close>

abbreviation zero_desc :: ioq_ring_desc where
  "zero_desc \<equiv> \<lparr>cookie = 0, d_ptr = 0, d_len = 0, valid = 0, sown = 0\<rparr>"

text \<open>The descriptor of event \<open>s\<close> once it is in the host's hands.\<close>

definition event_desc :: "host \<Rightarrow> UINT64 \<Rightarrow> nat \<Rightarrow> ioq_ring_desc" where
  "event_desc H base s =
     \<lparr>cookie = ulong_cast (base + of_nat (s * sizeof_event)), d_ptr = pa H (base + of_nat (s * sizeof_event)),
      d_len = of_nat sizeof_event, valid = 1, sown = 1\<rparr>"

text \<open>After \<open>i\<close> turns of the loop in \<open>eventq_init\<close>.\<close>

definition fill_inv :: "host \<Rightarrow> vbus_pci \<Rightarrow> ioq_ring_head \<Rightarrow> nat \<Rightarrow> bool" where
  "fill_inv H V h i \<longleftrightarrow>
     ring_ok (vp_eventq V) h \<and> q_locale (vp_eventq V) = shm_locality_north
   \<and> head (idx h ioq_idxtype_valid) = 0 \<and> i \<le> ring_size (vp_eventq V)
   \<and> idx_slots (ring_size (vp_eventq V)) (idx h ioq_idxtype_valid) = [0..<i]
   \<and> ring h = map (event_desc H (vp_ring V)) [0..<i] @ replicate (ring_size (vp_eventq V) - i) zero_desc"

abbreviation tail_iter :: "ioq_ring_head \<Rightarrow> ioq_iterator" where
  "tail_iter h \<equiv> iter_at ioq_idxtype_valid (tail (idx h ioq_idxtype_valid))"

lemma fill_inv_tail:
  assumes "fill_inv H V h i"
  shows "unat (tail (idx h ioq_idxtype_valid)) = i mod ring_size (vp_eventq V)"
    and "idx_ok (ring_size (vp_eventq V)) (idx h ioq_idxtype_valid)"
    and "idx_count (ring_size (vp_eventq V)) (idx h ioq_idxtype_valid) = i"
proof -
  show i: "idx_ok (ring_size (vp_eventq V)) (idx h ioq_idxtype_valid)"
    using assms ring_okD(5) by (auto simp: fill_inv_def)
  show c: "idx_count (ring_size (vp_eventq V)) (idx h ioq_idxtype_valid) = i"
    using assms unfolding fill_inv_def by (metis diff_zero length_idx_slots length_upt)
  show "unat (tail (idx h ioq_idxtype_valid)) = i mod ring_size (vp_eventq V)"
    using tail_eq_head_plus_count [OF i] c assms by (simp add: fill_inv_def)
qed

lemma eventq_fill_step:
  assumes inv: "fill_inv H V h i" and i: "i < ring_size (vp_eventq V)"
  shows "\<exists>h'. fill_inv H V h' (Suc i) \<and> h_signal h' = h_signal h
           \<and> idx h' ioq_idxtype_inuse = idx h ioq_idxtype_inuse
           \<and> (\<forall>m k. vbus m = V \<longrightarrow> eventq_fill H i (Suc k) (tail_iter h) (m\<lparr>m_head := h\<rparr>) =
                eventq_fill H (Suc i) k (tail_iter h') (m\<lparr>m_head := h'\<rparr>))"
proof -
  let ?q = "vp_eventq V" and ?n = "ring_size (vp_eventq V)" and ?t = ioq_idxtype_valid
  note T = fill_inv_tail [OF inv]
  have ok: "ring_ok ?q h" and north: "q_locale ?q = shm_locality_north"
    and ring: "ring h = map (event_desc H (vp_ring V)) [0..<i] @ replicate (?n - i) zero_desc"
    using inv by (simp_all add: fill_inv_def)
  note D = ring_okD [OF ok]
  have t: "unat (tail (idx h ?t)) = i" using T(1) i by simp
  define f :: "ioq_ring_desc \<Rightarrow> ioq_ring_desc" where
    "f d = d\<lparr>cookie := ulong_cast (vp_ring V + of_nat (i * sizeof_event)),
             d_ptr := pa H (vp_ring V + of_nat (i * sizeof_event)), d_len := of_nat sizeof_event, valid := 1\<rparr>" for d
  define h1 where "h1 = h\<lparr>ring := (ring h)[i := f (ring h ! i)]\<rparr>"
  define h' where "h' = flip_owner ?q (tail (idx h ?t)) (idx_upd ?t (\<lambda>j. idx_tail_push j (count32 ?q)) h1)"
  have nth: "ring h ! i = zero_desc"
    using i by (simp add: ring nth_append)
  have push: "ioq_iter_push ?q h1 (tail_iter h) =
      Inr (0, h', iter_at ?t (modulo_inc (tail (idx h ?t)) (count32 ?q)), NoCall)"
    using t i D(4) north nth
    by (subst iter_push_eq) (simp_all add: h1_def h'_def f_def)
  have tail': "modulo_inc (tail (idx h ?t)) (count32 ?q) = tail (idx h' ?t)"
    by (simp add: h'_def h1_def idx_tail_push_def Let_def)
  note P = idx_tail_push_ok [of "count32 ?q" "idx h ?t", unfolded D(1), OF T(2), unfolded T(3), OF i]
  have "ring_ok ?q h1" using ok by (simp add: ring_ok_def h1_def)
  then have "ring_ok ?q h'"
    using P(1) ring_ok_upd [of ?q h1 ?t] by (simp add: h'_def h1_def)
  moreover have "idx_slots ?n (idx h' ?t) = [0..<Suc i]"
    using P(3) inv t by (simp add: h'_def h1_def fill_inv_def)
  moreover have "head (idx h' ?t) = 0"
    using inv by (simp add: h'_def h1_def idx_tail_push_def Let_def fill_inv_def)
  moreover have "ring h' = map (event_desc H (vp_ring V)) [0..<Suc i] @ replicate (?n - Suc i) zero_desc"
  proof -
    have "ring h' = (ring h)[i := event_desc H (vp_ring V) i]"
      using t i D(4) nth north by (simp add: h'_def h1_def flip_owner_def f_def event_desc_def)
    moreover have "?n - i = Suc (?n - Suc i)" using i by simp
    ultimately show ?thesis
      using ring by (simp add: list_update_append)
  qed
  ultimately have "fill_inv H V h' (Suc i)"
    using north i by (simp add: fill_inv_def)
  moreover have "eventq_fill H i (Suc k) (tail_iter h) (m\<lparr>m_head := h\<rparr>) =
      eventq_fill H (Suc i) k (tail_iter h') (m\<lparr>m_head := h'\<rparr>)" if "vbus m = V" for m k
    using that t i D(4) push tail'
    by (simp add: desc_write_def run_inject_def h1_def f_def)
  moreover have "h_signal h' = h_signal h" "idx h' ioq_idxtype_inuse = idx h ioq_idxtype_inuse"
    by (simp_all add: h'_def h1_def flip_owner_def)
  ultimately show ?thesis by blast
qed

lemma eventq_fill_ok:
  assumes "fill_inv H V h i" and "i + k \<le> ring_size (vp_eventq V)" and "vbus m = V"
  shows "\<exists>h'. eventq_fill H i k (tail_iter h) (m\<lparr>m_head := h\<rparr>) = Inr (STATUS_SUCCESS, m\<lparr>m_head := h'\<rparr>)
           \<and> fill_inv H V h' (i + k) \<and> h_signal h' = h_signal h
           \<and> idx h' ioq_idxtype_inuse = idx h ioq_idxtype_inuse"
  using assms
proof (induction k arbitrary: i h)
  case (Suc k)
  then obtain h1 where h1: "fill_inv H V h1 (Suc i)" "h_signal h1 = h_signal h"
      "idx h1 ioq_idxtype_inuse = idx h ioq_idxtype_inuse"
    and step: "eventq_fill H i (Suc k) (tail_iter h) (m\<lparr>m_head := h\<rparr>) =
      eventq_fill H (Suc i) k (tail_iter h1) (m\<lparr>m_head := h1\<rparr>)"
    using eventq_fill_step [OF Suc.prems(1)] by fastforce
  then show ?case
    using Suc.IH [OF h1(1)] Suc.prems by (simp only: step) (auto simp del: eventq_fill.simps)
qed auto

text \<open>One event too many: the descriptor of slot 0 already belongs to the host.\<close>

lemma eventq_fill_full:
  assumes inv: "fill_inv H V h (ring_size (vp_eventq V))" and m: "vbus m = V"
  shows "\<exists>h'. eventq_fill H (ring_size (vp_eventq V)) (Suc k) (tail_iter h) (m\<lparr>m_head := h\<rparr>) =
           Inr (STATUS_NO_MORE_ENTRIES, m\<lparr>m_head := h'\<rparr>)"
proof -
  let ?q = "vp_eventq V" and ?n = "ring_size (vp_eventq V)" and ?t = ioq_idxtype_valid
  have ok: "ring_ok ?q h" and north: "q_locale ?q = shm_locality_north"
    and ring: "ring h = map (event_desc H (vp_ring V)) [0..<?n]"
    using inv by (simp_all add: fill_inv_def)
  note D = ring_okD [OF ok]
  have t: "unat (tail (idx h ?t)) = 0"
    using fill_inv_tail(1) [OF inv] by simp
  have own: "sown (ring h ! 0) = 1"
    using D(2) by (simp add: ring event_desc_def)
  show ?thesis
    using m t own north D(2,4)
    by (auto simp: desc_write_def desc_read_def ioq_iter_push_def run_inject_def Let_def)
qed

lemma eventq_fill_overflow:
  assumes "fill_inv H V h i" and "ring_size (vp_eventq V) < i + k" and "vbus m = V"
  shows "\<exists>h'. eventq_fill H i k (tail_iter h) (m\<lparr>m_head := h\<rparr>) =
           Inr (STATUS_NO_MORE_ENTRIES, m\<lparr>m_head := h'\<rparr>)"
  using assms
proof (induction k arbitrary: i h)
  case 0
  then show ?case by (simp add: fill_inv_def)
next
  case (Suc k)
  show ?case
  proof (cases "i = ring_size (vp_eventq V)")
    case True
    then show ?thesis using eventq_fill_full Suc.prems by blast
  next
    case False
    then have "i < ring_size (vp_eventq V)" using Suc.prems(1) by (simp add: fill_inv_def)
    then obtain h1 where "fill_inv H V h1 (Suc i)"
      and step: "eventq_fill H i (Suc k) (tail_iter h) (m\<lparr>m_head := h\<rparr>) =
        eventq_fill H (Suc i) k (tail_iter h1) (m\<lparr>m_head := h1\<rparr>)"
      using eventq_fill_step [OF Suc.prems(1)] Suc.prems(3) by blast
    then show ?thesis
      using Suc.IH [of h1 "Suc i"] Suc.prems(2,3) by (simp only: step)
  qed
qed

section \<open>Properties of the initialisation\<close>

lemma unat_of_nat_small: "n < 2 ^ 31 \<Longrightarrow> unat (of_nat n :: 64 word) = n"
  by (simp add: unat_of_nat)

lemma event_index_slot:
  assumes "p \<noteq> 0" and "unat p + n * sizeof_event \<le> 2 ^ 32" and "s < n"
  shows "event_index p n (ulong_cast (p + of_nat (s * sizeof_event))) = Inr s"
proof -
  have ev: "sizeof_event = 144" by (simp add: sizeof_event_def VBUS_MAX_DEVTYPE_LEN_def)
  have bound: "unat p + s * 144 < 2 ^ 32"
    using assms(2) mult_le_mono1 [of "Suc s" n 144] assms(3) ev by simp
  have off: "unat (of_nat (s * 144) :: 64 word) = s * 144"
    using bound by (simp add: unat_of_nat del: of_nat_mult)
  have a: "unat (p + of_nat (s * 144)) = unat p + s * 144"
    using bound off by (simp only: unat_plus_if') simp
  then have "ulong_cast (p + of_nat (s * 144)) = p + of_nat (s * 144)"
    using bound by (simp only: ulong_cast_id)
  moreover have "p + of_nat (s * 144) \<noteq> 0"
    using a assms(1) by (metis add_is_0 unat_0 unat_eq_zero)
  ultimately show ?thesis
    using a assms(3) unfolding event_index_def Let_def ev by (simp add: word_le_nat_alt)
qed

lemma eventq_ioq_init_success:
  assumes "eventq_ioq_init n m = (STATUS_SUCCESS, m1)"
  obtains h s where "h \<noteq> 0" and "s \<noteq> 0" and "vp_head_desc (vbus m1) = h" and "vp_signal (vbus m1) = s"
    and "m_live m1 = s # h # m_live m"
    and "vp_eventq (vbus m1) = ioq_init shm_locality_north (ShmSignalInit shm_locality_north Eventq_signal_ops)
           (of_nat n)"
    and "ring (m_head m1) = replicate n zero_desc"
    and "idx (m_head m1) = (\<lambda>_. \<lparr>head = 0, tail = 0, full = 0\<rparr>)"
    and "irq (h_signal (m_head m1)) = (\<lambda>_. \<lparr>enabled = 0, pending = 0, dirty = 0\<rparr>)"
  using assms
  by (auto simp: eventq_ioq_init_def signal_init_def Let_def dest!: VbusAllocD split: prod.splits if_splits)

lemma fresh_fill_inv:
  assumes "ring_size (vp_eventq V) = n" and "0 < n" and "n < 2 ^ 31" and "q_locale (vp_eventq V) = shm_locality_north"
    and "ring h = replicate n zero_desc" and "idx h = (\<lambda>_. \<lparr>head = 0, tail = 0, full = 0\<rparr>)"
  shows "fill_inv H V h 0"
  using assms by (simp add: fill_inv_def ring_ok_def idx_ok_def idx_slots_def idx_count_def idx_full_def)

lemma eventq_init_eq:
  assumes "VbusAlloc m = (p, m2)" and "p \<noteq> 0" and "vp_head_desc (vbus m) \<noteq> 0"
  defines "V \<equiv> (vbus m)\<lparr>vp_ring := p\<rparr>"
  shows "eventq_init H qlen m =
     ret_bind (Some (eventq_fill H 0 qlen (tail_iter (m_head m))
                 (m2\<lparr>vbus := V, m_events := replicate qlen event_zero, m_head := m_head m\<rparr>)))
       (\<lambda>(rc, m4).
          if rc \<noteq> STATUS_SUCCESS then Some (Inr (rc, m4))
          else
            let m5 = m4\<lparr>vbus := (vbus m4)\<lparr>vp_eventq := (vp_eventq (vbus m4))
                       \<lparr>q_notifier := Some Eventq_wakeup\<rparr>\<rparr>\<rparr>
            in ret_bind (eventq_shm H ShmSignalEnable m5) (\<lambda>m6. Some (Inr (STATUS_SUCCESS, m6))))"
  using assms VbusAllocD [OF assms(1)]
  by (simp add: eventq_init_def Let_def iter_init_seek)

definition ready_vbus :: "vbus_pci \<Rightarrow> UINT64 \<Rightarrow> vbus_pci" where
  "ready_vbus V p = V\<lparr>vp_ring := p, vp_eventq := (vp_eventq V)\<lparr>q_notifier := Some Eventq_wakeup\<rparr>\<rparr>"

lemma setup_state:
  assumes init: "eventq_ioq_init n m = (STATUS_SUCCESS, m1)" and alloc: "VbusAlloc m1 = (p, m2)"
    and "p \<noteq> 0" and "0 < n" and "n < 2 ^ 31"
  shows "\<exists>h. let m3 = m2\<lparr>vbus := ready_vbus (vbus m1) p, m_events := replicate n event_zero, m_head := h\<rparr> in
           eventq_init H n m1 = Some (Inr (STATUS_SUCCESS, m3))
           \<and> ring (m_head m3) = map (event_desc H p) [0..<n]
           \<and> idx_full (idx (m_head m3) ioq_idxtype_valid) \<and> queued m3 = []
           \<and> q_notifier (vp_eventq (vbus m3)) = Some Eventq_wakeup
           \<and> s_notifier (q_signal (vp_eventq (vbus m3))) = Some Ioq_shm_signal
           \<and> irq (h_signal (m_head m3)) shm_locality_north = \<lparr>enabled = 1, pending = 0, dirty = 0\<rparr>
           \<and> (unat p + n * sizeof_event \<le> 2 ^ 32 \<longrightarrow> evq_ok m3)"
proof -
  let ?V = "(vbus m1)\<lparr>vp_ring := p\<rparr>"
  obtain h s where I: "h \<noteq> 0" "s \<noteq> 0" "vp_head_desc (vbus m1) = h" "vp_signal (vbus m1) = s"
    "vp_eventq (vbus m1) = ioq_init shm_locality_north (ShmSignalInit shm_locality_north Eventq_signal_ops) (of_nat n)"
    "ring (m_head m1) = replicate n zero_desc" "idx (m_head m1) = (\<lambda>_. \<lparr>head = 0, tail = 0, full = 0\<rparr>)"
    "irq (h_signal (m_head m1)) = (\<lambda>_. \<lparr>enabled = 0, pending = 0, dirty = 0\<rparr>)"
    using eventq_ioq_init_success [OF init] by blast
  have size: "ring_size (vp_eventq ?V) = n"
    using I(5) assms(5) by (simp add: ioq_init_def unat_of_nat_small)
  have "fill_inv H ?V (m_head m1) 0"
    using fresh_fill_inv [OF size assms(4,5)] I(5-7) by (simp add: ioq_init_def)
  from eventq_fill_ok [OF this, of n "m2\<lparr>vbus := ?V, m_events := replicate n event_zero\<rparr>"]
  obtain h' where fill: "eventq_fill H 0 n (tail_iter (m_head m1))
      (m2\<lparr>vbus := ?V, m_events := replicate n event_zero, m_head := m_head m1\<rparr>) =
      Inr (STATUS_SUCCESS, m2\<lparr>vbus := ?V, m_events := replicate n event_zero, m_head := h'\<rparr>)"
    and inv: "fill_inv H ?V h' n" and h': "h_signal h' = h_signal (m_head m1)"
      "idx h' ioq_idxtype_inuse = idx (m_head m1) ioq_idxtype_inuse"
    using size by auto
  let ?W = "ready_vbus (vbus m1) p"
  let ?h = "h'\<lparr>h_signal := upd_irq shm_locality_north (\<lambda>i. i\<lparr>enabled := 1\<rparr>) (h_signal h')\<rparr>"
  let ?m3 = "m2\<lparr>vbus := ?W, m_events := replicate n event_zero, m_head := ?h\<rparr>"
  have run: "eventq_init H n m1 = Some (Inr (STATUS_SUCCESS, ?m3))"
    using I(1-5,8) h'(1)
    by (simp add: eventq_init_eq [OF alloc assms(3)] fill eventq_shm_def shm_defs ioq_init_def ShmSignalInit_def
        run_inject_def ready_vbus_def)
  have slots: "idx_slots n (idx ?h ioq_idxtype_inuse) = []"
    using h'(2) I(7) by (simp add: idx_slots_def idx_count_def idx_full_def)
  have ring: "ring ?h = map (event_desc H p) [0..<n]"
    using inv size by (simp add: fill_inv_def)
  have full: "idx_full (idx ?h ioq_idxtype_valid)"
    using fill_inv_tail(2,3) [OF inv] size idx_count_eq_full by auto
  have "evq_ok ?m3" if "unat p + n * sizeof_event \<le> 2 ^ 32"
  proof -
    have "ring_ok (vp_eventq ?W) h'"
      using inv size by (simp add: fill_inv_def ring_ok_def ready_vbus_def)
    moreover have "owner_ok shm_locality_north (vp_eventq ?W) h'"
      using ring slots size by (simp add: owner_ok_def event_desc_def ready_vbus_def)
    moreover have "\<forall>s < n. event_index p n (ulong_cast (cookie (ring h' ! s))) = Inr s"
      using event_index_slot [OF assms(3) that] ring
      by (simp add: event_desc_def del: of_nat_mult)
    ultimately have "evq_shape ?W h' (replicate n event_zero)"
      using I(1-5) size by (simp add: evq_shape_def ready_vbus_def) (simp add: ioq_init_def ShmSignalInit_def)
    then show ?thesis by simp
  qed
  then show ?thesis
    using run ring full slots size I(5,8) h'(1) unfolding Let_def
    by (intro exI [of _ ?h]) (auto simp: queued_def ioq_init_def ready_vbus_def)
qed


text \<open>A queue length beyond the ring is an error: the push that would wrap onto a descriptor the host
  already owns is refused and \<open>eventq_init\<close> returns \<open>STATUS_NO_MORE_ENTRIES\<close>, before the notifier is registered or the signal unmasked.\<close>

theorem eventq_too_many_events:
  assumes init: "eventq_ioq_init n m = (STATUS_SUCCESS, m1)" and alloc: "VbusAlloc m1 = (p, m2)"
    and "p \<noteq> 0" and "0 < n" and "n < 2 ^ 31" and "n < qlen"
  shows "\<exists>m3. eventq_init H qlen m1 = Some (Inr (STATUS_NO_MORE_ENTRIES, m3))
           \<and> q_notifier (vp_eventq (vbus m3)) = None"
proof -
  let ?V = "(vbus m1)\<lparr>vp_ring := p\<rparr>"
  obtain h where I: "h \<noteq> 0" "vp_head_desc (vbus m1) = h"
    "vp_eventq (vbus m1) = ioq_init shm_locality_north (ShmSignalInit shm_locality_north Eventq_signal_ops) (of_nat n)"
    "ring (m_head m1) = replicate n zero_desc" "idx (m_head m1) = (\<lambda>_. \<lparr>head = 0, tail = 0, full = 0\<rparr>)"
    using eventq_ioq_init_success [OF init] by blast
  have size: "ring_size (vp_eventq ?V) = n"
    using I(3) assms(5) by (simp add: ioq_init_def unat_of_nat_small)
  have "fill_inv H ?V (m_head m1) 0"
    using fresh_fill_inv [OF size assms(4,5)] I(3-5) by (simp add: ioq_init_def)
  from eventq_fill_overflow [OF this, of qlen "m2\<lparr>vbus := ?V, m_events := replicate qlen event_zero\<rparr>"]
  obtain h' where "eventq_fill H 0 qlen (tail_iter (m_head m1))
      (m2\<lparr>vbus := ?V, m_events := replicate qlen event_zero, m_head := m_head m1\<rparr>) =
      Inr (STATUS_NO_MORE_ENTRIES, m2\<lparr>vbus := ?V, m_events := replicate qlen event_zero, m_head := h'\<rparr>)"
    using size assms(6) by auto
  then show ?thesis
    using I(1-3) by (simp add: eventq_init_eq [OF alloc assms(3)] ioq_init_def)
qed

section \<open>Witnesses\<close>

text \<open>A queue of two events at \<open>base\<close>, the first of which the host has queued.\<close>

definition demo_evq_head :: "UINT64 \<Rightarrow> ioq_ring_head" where
  "demo_evq_head base = \<lparr>h_magic = IOQ_RING_MAGIC, h_ver = IOQ_RING_VER, h_signal = demo_desc 1 1,
     idx = (\<lambda>t. if t = ioq_idxtype_inuse then \<lparr>head = 0, tail = 1, full = 0\<rparr>
                else \<lparr>head = 0, tail = 0, full = 1\<rparr>),
     h_count = 2, ring = [(event_desc demo_host base 0)\<lparr>sown := 0\<rparr>, event_desc demo_host base 1]\<rparr>"

definition demo_evq :: "UINT64 \<Rightarrow> machine" where
  "demo_evq base = (demo_machine (demo_evq_head base))\<lparr>
     vbus := vbus_pci_zero\<lparr>vp_head_desc := 0x1000, vp_signal := 0x2000, vp_ring := base,
       vp_eventq := (ioq_init shm_locality_north (ShmSignalInit shm_locality_north Eventq_signal_ops) 2)
                     \<lparr>q_notifier := Some Eventq_wakeup\<rparr>\<rparr>,
     m_events := [event_zero\<lparr>ev_word := 5\<rparr>, event_zero]\<rparr>"

lemma demo_evq_simps [simp]:
  "vp_head_desc (vbus (demo_evq base)) = 0x1000" "vp_signal (vbus (demo_evq base)) = 0x2000"
  "vp_ring (vbus (demo_evq base)) = base" "m_head (demo_evq base) = demo_evq_head base"
  "m_events (demo_evq base) = [event_zero\<lparr>ev_word := 5\<rparr>, event_zero]"
  "q_count (vp_eventq (vbus (demo_evq base))) = 2"
  "q_locale (vp_eventq (vbus (demo_evq base))) = shm_locality_north"
  "q_signal (vp_eventq (vbus (demo_evq base))) =
     (ShmSignalInit shm_locality_north Eventq_signal_ops)\<lparr>s_notifier := Some Ioq_shm_signal\<rparr>"
  "q_notifier (vp_eventq (vbus (demo_evq base))) = Some Eventq_wakeup"
  by (simp_all add: demo_evq_def demo_machine_def ioq_init_def)

lemma hc_step_demo: "hc_step demo_host = (\<lambda>m. m)"
  by (simp add: demo_host_def)

lemma demo_evq_slots: "evq_slots (vbus (demo_evq base)) (demo_evq_head base) = [0]"
  by (simp add: idx_slots_def idx_count_def idx_full_def demo_evq_head_def)

lemma demo_evq_slots2: "idx_slots 2 (idx (demo_evq_head base) ioq_idxtype_inuse) = [0]"
  using demo_evq_slots by simp

lemma demo_evq_ring:
  "ring_ok (vp_eventq (vbus (demo_evq base))) (demo_evq_head base)"
  "owner_ok shm_locality_north (vp_eventq (vbus (demo_evq base))) (demo_evq_head base)"
  unfolding owner_ok_def demo_evq_slots
  by (simp_all add: ring_ok_def idx_ok_def demo_evq_head_def event_desc_def less_2_cases_iff)

lemma demo_evq_ok: "evq_ok (demo_evq 0x3000)"
  using demo_evq_ring [of "0x3000"]
  by (simp add: evq_shape_def ShmSignalInit_def less_2_cases_iff)
    (simp add: demo_evq_head_def event_desc_def event_index_def ulong_cast_def sizeof_event_def VBUS_MAX_DEVTYPE_LEN_def
      Let_def)

lemma demo_evq_queued: "queued (demo_evq base) = [event_zero\<lparr>ev_word := 5\<rparr>]"
  by (simp add: queued_def demo_evq_slots2)

lemma demo_evq_handled:
  "handle_events (queued (demo_evq base)) m = Inr (io (Child_present 5 (replicate VBUS_MAX_DEVTYPE_LEN 0)) m)"
  by (simp add: demo_evq_queued event_dispatch_def event_devadd_def event_zero_def)


lemma eventq_interrupt_cycle_witness:
  "\<exists>m2 m3. eventq_intr_isr (demo_evq 0x3000) = Inr (True, m2) \<and> eventq_intr_dpc demo_host m2 = Some (Inr m3)
     \<and> queued m3 = []"
proof -
  have "irq (h_signal (m_head (demo_evq 0x3000))) shm_locality_north = \<lparr>enabled = 1, pending = 1, dirty = 0\<rparr>"
    by (simp add: demo_evq_head_def demo_desc_def)
  then show ?thesis
    using eventq_interrupt_cycle [OF demo_evq_ok hc_step_demo _ _ _ _ _ demo_evq_handled] by fastforce
qed

lemma eventq_high_ring_faults_witness:
  "\<exists>e. eventq_wakeup demo_host (demo_evq 0x100000000) = Some (Inl e)"
  by (rule eventq_high_ring_faults [where s = 0 and ss = "[]"])
    (use demo_evq_ring in \<open>simp_all add: demo_evq_slots2\<close>, simp add: demo_evq_head_def event_desc_def)

definition demo_fresh :: "UINT64 list \<Rightarrow> machine" where
  "demo_fresh pool = (demo_machine (demo_evq_head 0))\<lparr>m_pool := pool\<rparr>"

lemma demo_fresh_init:
  "\<exists>m1 m2. eventq_ioq_init 2 (demo_fresh [0x1000, 0x2000, 0x3000]) = (STATUS_SUCCESS, m1)
     \<and> VbusAlloc m1 = (0x3000, m2)"
  by (simp add: eventq_ioq_init_def VbusAlloc_eq demo_fresh_def demo_machine_def Let_def signal_init_def)


lemma eventq_too_many_events_witness:
  "\<exists>m1 m3. eventq_ioq_init 2 (demo_fresh [0x1000, 0x2000, 0x3000]) = (STATUS_SUCCESS, m1)
     \<and> eventq_init demo_host 3 m1 = Some (Inr (STATUS_NO_MORE_ENTRIES, m3))"
  using demo_fresh_init eventq_too_many_events [of 2 _ _ "0x3000" _ 3 demo_host] by fastforce

end
