(* ===== verification/Pci_Delivery.thy ===== *)
theory Pci_Delivery
  imports Pci_Eventq
begin

text \<open>
  The event queue end to end: the host posts events on the ring of \<open>windows/vbus/pci.c\<close> and signals
  them, the interrupt service routine and the deferred call of the driver take them off, at the
  granularity of single turns of the loop in \<open>eventq_wakeup\<close>, in any interleaving. The host runs the same
  ring and signal code as the guest, from the south. The lemmas show that the events reach the handlers
  in order and once each, that no event stays behind unannounced, what the code does that keeps the host
  from ever interrupting a second time, and that a host that keeps posting keeps the loop running.
\<close>

section \<open>The host\<close>

text \<open>The south's own context for the ring: the same count, the other locality. Its signal has no owner here.\<close>

definition south_ioq :: "vbus_pci \<Rightarrow> (pci_ops, pci_notifier) ioq" where
  "south_ioq V = ioq_init shm_locality_south (ShmSignalInit shm_locality_south Ops_null) (q_count (vp_eventq V))"

abbreviation host_link :: "machine \<Rightarrow> (pci_ops, pci_notifier) ioq_link" where
  "host_link m \<equiv> \<lparr>lk_prod = south_ioq (vbus m), lk_cons = vp_eventq (vbus m), lk_head = m_head m\<rparr>"

abbreviation post_slot :: "machine \<Rightarrow> nat" where
  "post_slot m \<equiv> unat (tail (idx (m_head m) ioq_idxtype_inuse))"

text \<open>
  The host produces on the in-use index and leaves the event where the descriptor points to; the
  descriptor keeps what the guest wrote into it. On a full ring nothing happens.
\<close>

definition host_post :: "vbus_pci_event \<Rightarrow> machine \<Rightarrow> machine option" where
  "host_post e m =
     (case ioq_produce (payload_of (ring (m_head m) ! post_slot m)) (host_link m) of
        Inr (Some l) \<Rightarrow> Some (shared (lk_head l) ((m_events m)[post_slot m := e]) m)
      | _ \<Rightarrow> None)"

text \<open>The host marks the guest's side dirty and tells whether it raises the interrupt.\<close>

definition host_signal :: "machine \<Rightarrow> bool \<times> machine" where
  "host_signal m =
     (case ShmSignalInject (q_signal (south_ioq (vbus m))) (h_signal (m_head m)) of
        (_, d, c) \<Rightarrow> (is_inject c, m\<lparr>m_head := (m_head m)\<lparr>h_signal := d\<rparr>\<rparr>))"

lemma south_ioq_simps [simp]:
  "q_count (south_ioq V) = q_count (vp_eventq V)" "q_locale (south_ioq V) = shm_locality_south"
  by (simp_all add: south_ioq_def ioq_init_def)

lemma host_link_ok: "evq_ok m \<Longrightarrow> link_ok (host_link m)"
  using ring_ok_count [of "south_ioq (vbus m)" "vp_eventq (vbus m)"]
    owner_ok_count [of "south_ioq (vbus m)" "vp_eventq (vbus m)"]
  by (simp add: evq_shape_def link_ok_def)

lemma length_queued: "length (queued m) = idx_count (ring_size (vp_eventq (vbus m))) (idx (m_head m) ioq_idxtype_inuse)"
  by (simp add: queued_def)

lemma length_host_link: "length (link_contents (host_link m)) = length (queued m)"
  "link_cap (host_link m) = ring_size (vp_eventq (vbus m))"
  by (simp_all add: length_contents length_queued link_cap_def)

lemma set_payload_self [simp]: "set_payload (payload_of d) d = d"
  by (simp add: payload_of_def)

text \<open>Posting appends to what is queued and touches nothing else; it is refused on a full ring.\<close>

lemma host_post_free:
  assumes ok: "evq_ok m" and free: "length (queued m) < ring_size (vp_eventq (vbus m))"
  shows "\<exists>h. host_post e m = Some (shared h ((m_events m)[post_slot m := e]) m)
           \<and> evq_shape (vbus m) h ((m_events m)[post_slot m := e])
           \<and> queued (shared h ((m_events m)[post_slot m := e]) m) = queued m @ [e]
           \<and> head (idx h ioq_idxtype_inuse) = head (idx (m_head m) ioq_idxtype_inuse) \<and> h_signal h = h_signal (m_head m)"
proof -
  let ?V = "vbus m" and ?h = "m_head m" and ?t = ioq_idxtype_inuse and ?q = "south_ioq (vbus m)"
  let ?n = "ring_size (vp_eventq ?V)" and ?s = "post_slot m"
  define h2 where "h2 = flip_owner ?q (tail (idx ?h ?t)) (idx_upd ?t (\<lambda>i. idx_tail_push i (count32 ?q)) ?h)"
  note D = evq_shapeD [OF ok]
  note L = link_okD [OF host_link_ok [OF ok]]
  have i: "idx_ok ?n (idx ?h ?t)" using ring_okD(5) [OF D(2)] by blast
  have cnt: "idx_count ?n (idx ?h ?t) < ?n" using free by (simp add: length_queued)
  have s: "?s < ?n" using i by (simp add: idx_ok_def)
  have fresh: "?s \<notin> set (evq_slots ?V ?h)" by (rule tail_not_in_slots [OF i cnt])
  have n32: "unat (count32 ?q) = ?n" and len: "length (ring ?h) = ?n"
    using ring_okD(1,4) [OF D(2)] by simp_all
  note push = idx_tail_push_ok [of "count32 ?q" "idx ?h ?t", unfolded n32, OF i cnt]
  have self: "?h\<lparr>ring := (ring ?h)[?s := set_payload (payload_of (ring ?h ! ?s)) (ring ?h ! ?s)]\<rparr> = ?h"
    by simp
  have run: "ioq_produce (payload_of (ring ?h ! ?s)) (host_link m) = Inr (Some ((host_link m)\<lparr>lk_head := h2\<rparr>))"
    using produce_eq [OF host_link_ok [OF ok], of "payload_of (ring ?h ! ?s)"] free
    by (simp add: length_host_link h2_def)
  have slots: "evq_slots ?V h2 = evq_slots ?V ?h @ [?s]"
    using push(3) by (simp add: h2_def)
  have ring2: "ring h2 ! k = (if k = ?s then (ring ?h ! k)\<lparr>sown := 0\<rparr> else ring ?h ! k)" if "k < ?n" for k
    using that s len by (simp add: h2_def flip_owner_def nth_list_update)
  have "ring_ok (vp_eventq ?V) h2"
    using D(2) push(1) ring_ok_upd [of "vp_eventq ?V" ?h ?t] by (simp add: h2_def)
  moreover have "owner_ok shm_locality_north (vp_eventq ?V) h2"
    using D(1,3) unfolding owner_ok_def slots by (auto simp: ring2)
  moreover have "event_index (vp_ring ?V) (length (m_events m)) (ulong_cast (cookie (ring h2 ! k))) = Inr k" if "k < ?n" for k
    using D(5) [OF that] ring2 [OF that] by (cases "k = ?s") simp_all
  ultimately have "evq_shape ?V h2 ((m_events m)[?s := e])"
    using ok by (simp add: evq_shape_def)
  moreover have "queued (shared h2 ((m_events m)[?s := e]) m) = queued m @ [e]"
    using fresh s D(4) by (simp add: queued_def slots) (metis nth_list_update_neq)
  moreover have "host_post e m = Some (shared h2 ((m_events m)[?s := e]) m)"
    by (simp add: host_post_def run)
  moreover have "head (idx h2 ?t) = head (idx ?h ?t)" "h_signal h2 = h_signal ?h"
    by (simp_all add: h2_def flip_owner_def idx_tail_push_def Let_def)
  ultimately show ?thesis by blast
qed

lemma host_post_full:
  assumes "evq_ok m" and "\<not> length (queued m) < ring_size (vp_eventq (vbus m))"
  shows "host_post e m = None"
  using produce_full [OF host_link_ok [OF assms(1)]] assms(2) by (simp add: host_post_def length_host_link)

section \<open>The deferred call, turn by turn\<close>

text \<open>
  Where the deferred call \<open>eventq_intr_dpc\<close> stands: not running, between \<open>_ShmSignalWakeup\<close> and
  \<open>ShmSignalEnable\<close>, in the loop of \<open>eventq_wakeup\<close>, or behind the loop and before \<open>ioq_signal\<close>. The flag tells
  whether \<open>ShmSignalEnable\<close> is still to come.
\<close>

datatype dpc_phase = Idle | Between | Draining bool ioq_iterator | Leaving bool

definition after_wakeup :: "bool \<Rightarrow> dpc_phase" where
  "after_wakeup k = (if k then Between else Idle)"

lemma after_wakeup_neq [simp]: "after_wakeup k \<noteq> Draining j it"
  by (simp add: after_wakeup_def)

fun draining :: "dpc_phase \<Rightarrow> bool" where
  "draining (Draining k it) = True"
| "draining _ = False"

fun will_enable :: "dpc_phase \<Rightarrow> bool" where
  "will_enable Idle = False"
| "will_enable Between = True"
| "will_enable (Draining k it) = k"
| "will_enable (Leaving k) = k"

text \<open>A signal operation up to the first test of the loop, if it comes to that.\<close>

definition shm_begin ::
  "((pci_ops, shm_notifier) shm_signal \<Rightarrow> shm_signal_desc \<Rightarrow> shm_signal_desc \<times> (pci_ops, shm_notifier) sig_call)
   \<Rightarrow> bool \<Rightarrow> machine \<Rightarrow> (dpc_phase \<times> machine) outcome" where
  "shm_begin f k m =
     (if vp_signal (vbus m) = 0 then Inl NullDeref
      else
        let q = vp_eventq (vbus m);
            (d, c) = f (q_signal q) (h_signal (m_head m));
            m1 = m\<lparr>m_head := (m_head m)\<lparr>h_signal := d\<rparr>\<rparr>
        in case ioq_dispatch q c of
             CallNotifier Eventq_wakeup \<Rightarrow>
               if vp_head_desc (vbus m1) = 0 then Inl NullDeref
               else bind_ok (ioq_iter_seek q (m_head m1) (snd (ioq_iter_init ioq_idxtype_inuse 0)) ioq_seek_head 0)
                      (\<lambda>(_, it). Inr (Draining k it, m1))
           | c' \<Rightarrow> bind_ok (run_inject c' m1) (\<lambda>m2. Inr (after_wakeup k, m2)))"

text \<open>The rest of the operation: the loop and the signal to the host.\<close>

definition shm_rest :: "host \<Rightarrow> dpc_phase \<times> machine \<Rightarrow> machine outcome option" where
  "shm_rest H = (\<lambda>(ph, m). case ph of
       Draining k it \<Rightarrow> ret_bind (eventq_loop H it m) (\<lambda>m1. Some (eventq_kick m1))
     | _ \<Rightarrow> Some (Inr m))"

lemma shm_rest_draining: "shm_rest H (Draining k it, m) = ret_bind (eventq_loop H it m) (\<lambda>m1. Some (eventq_kick m1))"
  by (simp add: shm_rest_def)

lemma shm_rest_quiet: "ret_bind (Some (bind_ok r (\<lambda>m. Inr (after_wakeup k, m)))) (shm_rest H) = Some r"
  by (cases r) (simp_all add: shm_rest_def after_wakeup_def)

lemma eventq_shm_split: "eventq_shm H f m = ret_bind (Some (shm_begin f k m)) (shm_rest H)"
  by (auto simp: eventq_shm_def shm_begin_def eventq_wakeup_def Let_def shm_rest_quiet shm_rest_draining
      split: prod.splits sig_call.splits pci_notifier.splits sum.splits)

text \<open>The event a turn of the loop handles.\<close>

definition body_event :: "ioq_iterator \<Rightarrow> machine \<Rightarrow> vbus_pci_event list" where
  "body_event it m =
     (case bind_ok (desc_read (m_head m) it)
             (\<lambda>d. event_index (vp_ring (vbus m)) (length (m_events m)) (ulong_cast (cookie d))) of
        Inl _ \<Rightarrow> []
      | Inr i \<Rightarrow> [m_events m ! i])"

section \<open>Interleavings\<close>

text \<open>
  The machine, the deferred call running and queued, the interrupt line, whether the host still has to
  signal what it posted, and the history: what was posted and what was handled.
\<close>

record delivery =
  dl_machine :: machine
  dl_phase :: dpc_phase
  dl_dpc :: bool
  dl_line :: bool
  dl_owed :: bool
  dl_posted :: "vbus_pci_event list"
  dl_handled :: "vbus_pci_event list"

inductive host_step :: "delivery \<Rightarrow> delivery \<Rightarrow> bool" where
  post: "host_post e (dl_machine s) = Some m \<Longrightarrow>
    host_step s (s\<lparr>dl_machine := m, dl_posted := dl_posted s @ [e], dl_owed := True\<rparr>)"
| signal: "host_signal (dl_machine s) = (b, m) \<Longrightarrow>
    host_step s (s\<lparr>dl_machine := m, dl_line := dl_line s \<or> b, dl_owed := False\<rparr>)"

inductive driver_step :: "delivery \<Rightarrow> delivery \<Rightarrow> bool" where
  dpc: "dl_phase s = Idle \<Longrightarrow> dl_dpc s \<Longrightarrow> shm_begin ShmSignalWakeup True (dl_machine s) = Inr (ph, m) \<Longrightarrow>
    driver_step s (s\<lparr>dl_machine := m, dl_phase := ph, dl_dpc := False\<rparr>)"
| enable: "dl_phase s = Between \<Longrightarrow> shm_begin ShmSignalEnable False (dl_machine s) = Inr (ph, m) \<Longrightarrow>
    driver_step s (s\<lparr>dl_machine := m, dl_phase := ph\<rparr>)"
| turn: "dl_phase s = Draining k it \<Longrightarrow> eventq_body it (dl_machine s) = Inr (Some (it', m)) \<Longrightarrow>
    driver_step s (s\<lparr>dl_machine := m, dl_phase := Draining k it', dl_handled := dl_handled s @ body_event it (dl_machine s)\<rparr>)"
| leave: "dl_phase s = Draining k it \<Longrightarrow> eventq_body it (dl_machine s) = Inr None \<Longrightarrow>
    driver_step s (s\<lparr>dl_phase := Leaving k\<rparr>)"
| kick: "dl_phase s = Leaving k \<Longrightarrow> eventq_kick (dl_machine s) = Inr m \<Longrightarrow>
    driver_step s (s\<lparr>dl_machine := m, dl_phase := after_wakeup k\<rparr>)"

text \<open>The service routine runs when the line is raised; on a line that is shared with other devices, at any time.\<close>

inductive delivery_step :: "bool \<Rightarrow> delivery \<Rightarrow> delivery \<Rightarrow> bool" for line_shared where
  host: "host_step s s' \<Longrightarrow> delivery_step line_shared s s'"
| driver: "driver_step s s' \<Longrightarrow> delivery_step line_shared s s'"
| isr: "dl_line s \<or> line_shared \<Longrightarrow> eventq_intr_isr (dl_machine s) = Inr (b, m) \<Longrightarrow>
    delivery_step line_shared s (s\<lparr>dl_machine := m, dl_dpc := dl_dpc s \<or> b, dl_line := False\<rparr>)"

text \<open>A queue at rest: nothing posted, nobody running.\<close>

definition at_rest :: "machine \<Rightarrow> delivery" where
  "at_rest m = \<lparr>dl_machine = m, dl_phase = Idle, dl_dpc = False, dl_line = False, dl_owed = False,
                dl_posted = [], dl_handled = []\<rparr>"

section \<open>What the handlers depend on\<close>

text \<open>The log of the framework's children; the other entries of the log go to the hardware.\<close>

fun child_io :: "pci_io \<Rightarrow> bool" where
  "child_io (Child_present i t) = True"
| "child_io (Child_missing i) = True"
| "child_io _ = False"

abbreviation child_log :: "machine \<Rightarrow> pci_io list" where
  "child_log m \<equiv> filter child_io (m_io m)"

text \<open>Equal but for ring, events and what the hardware was told.\<close>

definition same_effects :: "machine \<Rightarrow> machine \<Rightarrow> bool" where
  "same_effects m n \<longleftrightarrow> (\<exists>h evs l. n = m\<lparr>m_head := h, m_events := evs, m_io := l\<rparr>) \<and> child_log m = child_log n"

lemma same_effects_refl [simp]: "same_effects m m"
  unfolding same_effects_def by (intro conjI exI [of _ "m_head m"] exI [of _ "m_events m"] exI [of _ "m_io m"]) simp_all

lemma same_effectsD:
  assumes "same_effects m n"
  shows "vbus m = vbus n" "m_sigs m = m_sigs n" "m_live m = m_live n" "m_children m = m_children n" "child_log m = child_log n"
  using assms unfolding same_effects_def by auto

lemma same_effects_upd:
  assumes "same_effects m n" and "filter child_io es = []"
  shows "same_effects (m\<lparr>m_head := h, m_events := evs, m_io := m_io m @ es\<rparr>) n"
proof -
  obtain h1 evs1 l1 where n: "n = m\<lparr>m_head := h1, m_events := evs1, m_io := l1\<rparr>" "child_log m = child_log n"
    using assms(1) by (auto simp: same_effects_def)
  then show ?thesis
    using assms(2) unfolding same_effects_def
    by (intro conjI exI [of _ h1] exI [of _ evs1] exI [of _ l1]) simp_all
qed

lemma same_effects_shared: "same_effects m n \<Longrightarrow> same_effects (shared h evs m) n"
  using same_effects_upd [where es = "[]" and h = h and evs = evs] by simp

lemma same_effects_head: "same_effects m n \<Longrightarrow> same_effects (m\<lparr>m_head := h\<rparr>) n"
  by (cases m) (use same_effects_shared [where m = m and n = n and h = h and evs = "m_events m"] in simp)

text \<open>A handler appends to the log and does not read it.\<close>

definition appends :: "(machine \<Rightarrow> machine outcome) \<Rightarrow> machine \<Rightarrow> bool" where
  "appends F m \<longleftrightarrow> (\<forall>m1. F m = Inr m1 \<longrightarrow>
     (\<exists>es. m_io m1 = m_io m @ es \<and> (\<forall>l. F (m\<lparr>m_io := l\<rparr>) = Inr (m1\<lparr>m_io := l @ es\<rparr>))))"

lemma sig_deref_io [simp]: "sig_deref p (m\<lparr>m_io := l\<rparr>) = sig_deref p m"
  by (simp add: sig_deref_def)

lemma sig_write_io: "sig_write p s (m\<lparr>m_io := l\<rparr>) = (sig_write p s m)\<lparr>m_io := l\<rparr>"
  by (simp add: sig_write_def)

lemma appends_ops_inject: "appends (ops_inject ops p) m"
  by (cases ops; cases "sig_deref p m") (auto simp: appends_def signal_inject_def eventq_signal_inject_def io_def)

lemma appends_signal_op: "appends (signal_op f p) m"
proof (cases "sig_deref p m")
  case (Inr s)
  obtain d c where f: "f (sg_signal s) (sg_desc s) = (d, c)" by fastforce
  let ?m = "sig_write p (s\<lparr>sg_desc := d\<rparr>) m"
  show ?thesis
  proof (cases c)
    case (CallInject ops)
    then show ?thesis
      using Inr f appends_ops_inject [of ops p ?m] by (simp add: appends_def signal_op_def sig_write_io)
  qed (use Inr f in \<open>auto simp: appends_def signal_op_def sig_write_io io_def\<close>)
qed (simp add: appends_def signal_op_def)

lemma appends_signal_put: "appends (signal_put p) m"
  by (cases "sig_deref p m") (auto simp: appends_def signal_put_def VbusFree_def sig_write_def Let_def)

lemma appends_io: "appends (\<lambda>m. Inr (io e m)) m"
  by (simp add: appends_def io_def)

lemma appends_dispatch: "appends (event_dispatch e) m"
proof -
  have devdrop: "appends (\<lambda>m. Inr (event_devdrop e m)) m"
    by (auto simp: event_devdrop_def appends_def io_def split: option.splits)
  show ?thesis
    using appends_io devdrop appends_signal_op [of ShmSignalWakeup "ulong_cast (ev_word e)"] appends_signal_put
    by (cases "eventid e = 0 \<or> eventid e = 1 \<or> eventid e = 2 \<or> eventid e = 3")
      (auto simp: event_dispatch_def event_devadd_def event_shmsignal_def event_shmclose_def appends_def)
qed

lemma dispatch_same_effects:
  assumes "event_dispatch e m = Inr m1" and "same_effects m n"
  shows "\<exists>n1. event_dispatch e n = Inr n1 \<and> same_effects m1 n1"
proof -
  obtain es where es: "m_io m1 = m_io m @ es" "\<And>l. event_dispatch e (m\<lparr>m_io := l\<rparr>) = Inr (m1\<lparr>m_io := l @ es\<rparr>)"
    using appends_dispatch [of e m] assms(1) unfolding appends_def by blast
  obtain h evs l where "n = m\<lparr>m_head := h, m_events := evs, m_io := l\<rparr>" and c: "child_log m = filter child_io l"
    using assms(2) by (auto simp: same_effects_def)
  then have n: "n = shared h evs (m\<lparr>m_io := l\<rparr>)" by simp
  let ?n = "shared h evs (m1\<lparr>m_io := l @ es\<rparr>)"
  have "event_dispatch e n = Inr ?n"
    unfolding n by (simp add: event_dispatch_shared es(2) del: machine.update_convs)
  moreover have "same_effects m1 ?n"
    unfolding same_effects_def using c es(1) by (intro conjI exI [of _ h] exI [of _ evs] exI [of _ "l @ es"]) simp_all
  ultimately show ?thesis by blast
qed

lemma handle_same_effects:
  assumes "handle_events es m = Inr m1" and "same_effects m n"
  shows "\<exists>n1. handle_events es n = Inr n1 \<and> same_effects m1 n1"
  using assms
proof (induction es arbitrary: m n)
  case (Cons e es)
  then obtain m2 where m2: "event_dispatch e m = Inr m2" "handle_events es m2 = Inr m1" by auto
  then obtain n2 where "event_dispatch e n = Inr n2" "same_effects m2 n2"
    using dispatch_same_effects Cons.prems(2) by blast
  then show ?case using Cons.IH [OF m2(2)] by simp
qed auto

lemma handle_append: "handle_events (xs @ ys) m = bind_ok (handle_events xs m) (handle_events ys)"
proof (induction xs arbitrary: m)
  case (Cons x xs)
  then show ?case by (cases "event_dispatch x m") simp_all
qed simp

section \<open>Single steps\<close>

definition queue_ready :: "vbus_pci \<Rightarrow> bool" where
  "queue_ready V \<longleftrightarrow> q_notifier (vp_eventq V) = Some Eventq_wakeup \<and> s_notifier (q_signal (vp_eventq V)) = Some Ioq_shm_signal"

abbreviation north_irq :: "machine \<Rightarrow> shm_signal_irq" where
  "north_irq m \<equiv> irq (h_signal (m_head m)) shm_locality_north"

abbreviation set_north :: "(shm_signal_irq \<Rightarrow> shm_signal_irq) \<Rightarrow> machine \<Rightarrow> machine" where
  "set_north f m \<equiv> m\<lparr>m_head := (m_head m)\<lparr>h_signal := upd_irq shm_locality_north f (h_signal (m_head m))\<rparr>\<rparr>"

lemma begin_wakeup:
  assumes "evq_ok m" and "queue_ready (vbus m)"
  shows "shm_begin ShmSignalWakeup k m =
     Inr (if enabled (north_irq m) \<noteq> 0 \<and> (dirty (north_irq m) \<noteq> 0 \<or> pending (north_irq m) \<noteq> 0)
          then (Draining k (head_iter (m_head m)), set_north (\<lambda>i. i\<lparr>dirty := 0\<rparr>) m) else (after_wakeup k, m))"
  using evq_shapeD(6-8) [OF assms(1)] assms(2)
  by (simp add: shm_begin_def ShmSignalWakeup_def Let_def queue_ready_def ioq_shm_signal_def iter_init_seek run_inject_def)

lemma begin_enable:
  assumes "evq_ok m" and "queue_ready (vbus m)"
  shows "shm_begin ShmSignalEnable k m =
     Inr (if dirty (north_irq m) \<noteq> 0 \<or> pending (north_irq m) \<noteq> 0
          then (Draining k (head_iter (m_head m)), set_north (\<lambda>i. i\<lparr>enabled := 1, dirty := 0\<rparr>) m)
          else (after_wakeup k, set_north (\<lambda>i. i\<lparr>enabled := 1\<rparr>) m))"
  using evq_shapeD(6-8) [OF assms(1)] assms(2)
  by (simp add: shm_begin_def shm_defs queue_ready_def ioq_shm_signal_def iter_init_seek run_inject_def)

lemma queued_signal [simp]: "queued (m\<lparr>m_head := (m_head m)\<lparr>h_signal := d\<rparr>\<rparr>) = queued m"
  by (simp add: queued_def)

lemma turn_step:
  assumes ok: "evq_ok m" and q: "queued m = e # es"
  shows "\<exists>h evs. evq_shape (vbus m) h evs \<and> map (\<lambda>s. evs ! s) (evq_slots (vbus m) h) = es \<and> h_signal h = h_signal (m_head m)
           \<and> body_event (head_iter (m_head m)) m = [e]
           \<and> eventq_body (head_iter (m_head m)) m =
               bind_ok (event_dispatch e m) (\<lambda>m1. Inr (Some (head_iter h, shared h evs m1)))"
proof -
  let ?V = "vbus m" and ?h = "m_head m"
  note D = evq_shapeD [OF ok]
  obtain s ss where slots: "evq_slots ?V ?h = s # ss" and e: "e = m_events m ! s" "es = map (\<lambda>s. m_events m ! s) ss"
    using q by (auto simp: queued_def)
  obtain h2 where h2: "evq_shape ?V h2 ((m_events m)[s := event_zero])" "evq_slots ?V h2 = ss" "h_signal h2 = h_signal ?h"
    and body: "\<And>n. vbus n = ?V \<Longrightarrow> eventq_body (head_iter ?h) (shared ?h (m_events m) n) =
      bind_ok (event_dispatch (m_events m ! s) n) (\<lambda>m1. Inr (Some (head_iter h2, shared h2 ((m_events m)[s := event_zero]) m1)))"
    using eventq_body_some [OF ok slots] by blast
  note pop = ring_pop [OF D(2,3) slots]
  have i: "idx_ok (ring_size (vp_eventq ?V)) (idx ?h ioq_idxtype_inuse)" using ring_okD(5) [OF D(2)] by blast
  have "s \<notin> set ss" using idx_slots_distinct [OF i] slots by simp
  then have "map (\<lambda>k. (m_events m)[s := event_zero] ! k) (evq_slots ?V h2) = es"
    using e(2) h2(2) by (auto intro!: nth_list_update_neq)
  moreover have "body_event (head_iter ?h) m = [e]"
    using pop(1,2) D(5) [OF pop(2)] ring_okD(4) [OF D(2)] e(1) by (simp add: body_event_def desc_read_def)
  moreover have "shared ?h (m_events m) m = m" by simp
  ultimately show ?thesis
    using body [of m] h2(1,3) e(1) by (intro exI [of _ h2] exI [of _ "(m_events m)[s := event_zero]"]) simp
qed

lemma end_step:
  assumes "evq_ok m" and "queued m = []"
  shows "eventq_body (head_iter (m_head m)) m = Inr None"
proof -
  have "shared (m_head m) (m_events m) m = m" by simp
  then show ?thesis
    using eventq_body_none [OF assms(1) _ refl] assms(2) by (simp add: queued_def)
qed

lemma kick_step:
  assumes "evq_ok m"
  shows "\<exists>d es. eventq_kick m = Inr (m\<lparr>m_head := (m_head m)\<lparr>h_signal := d\<rparr>, m_io := m_io m @ es\<rparr>)
           \<and> irq d shm_locality_north = north_irq m \<and> filter child_io es = []"
proof -
  note D = evq_shapeD [OF assms]
  obtain d es where k: "eventq_kick m = Inr (m\<lparr>m_head := (m_head m)\<lparr>h_signal := d\<rparr>, m_io := m_io m @ es\<rparr>)"
    "irq d shm_locality_north = north_irq m"
    using eventq_kick_eq [of m] D(7-9) by auto
  have "filter child_io (m_io m @ es) = filter child_io (m_io m)"
    using k(1) D(7,9) by (auto simp: eventq_kick_def ioq_signal_def run_inject_def eventq_signal_inject_def io_def
        ShmSignalInject_def Let_def split: prod.splits if_splits sig_call.splits dest!: arg_cong [where f = m_io])
  then show ?thesis using k by auto
qed

lemma isr_step:
  assumes "evq_ok m"
  shows "eventq_intr_isr m =
     Inr (if enabled (north_irq m) = 0 then (False, m) else (True, io Queue_dpc (set_north (\<lambda>i. i\<lparr>enabled := 0\<rparr>) m)))"
  using evq_shapeD(7,8) [OF assms]
  by (simp add: eventq_intr_isr_def eventq_disable_def ioq_notify_disable_def shm_defs unsigned_eq_0_iff)

lemma host_signal_step:
  "host_signal m =
     (if enabled (north_irq m) \<noteq> 0 \<and> pending (north_irq m) = 0
      then (True, set_north (\<lambda>i. i\<lparr>dirty := 1, pending := 1\<rparr>) m) else (False, set_north (\<lambda>i. i\<lparr>dirty := 1\<rparr>) m))"
  by (simp add: host_signal_def ShmSignalInject_def Let_def south_ioq_def ioq_init_def ShmSignalInit_def)

section \<open>The invariant\<close>

definition delivery_ok :: "machine \<Rightarrow> delivery \<Rightarrow> bool" where
  "delivery_ok m0 s \<longleftrightarrow>
     evq_ok (dl_machine s) \<and> vbus (dl_machine s) = vbus m0 \<and> queue_ready (vbus m0)
   \<and> dl_posted s = dl_handled s @ queued (dl_machine s)
   \<and> (\<forall>k it. dl_phase s = Draining k it \<longrightarrow> it = head_iter (m_head (dl_machine s)))
   \<and> (\<exists>n. handle_events (dl_handled s) m0 = Inr n \<and> same_effects (dl_machine s) n)
   \<and> (queued (dl_machine s) \<noteq> [] \<longrightarrow> dl_owed s \<or> dirty (north_irq (dl_machine s)) \<noteq> 0 \<or> draining (dl_phase s))
   \<and> (enabled (north_irq (dl_machine s)) = 0 \<longrightarrow> dl_dpc s \<or> will_enable (dl_phase s))"

lemma delivery_ok_host:
  assumes "host_step s s'" and "delivery_ok m0 s"
  shows "delivery_ok m0 s'"
  using assms
proof (cases rule: host_step.cases)
  case (post e m)
  let ?m = "dl_machine s"
  have ok: "evq_ok ?m" and V: "vbus ?m = vbus m0" using assms(2) unfolding delivery_ok_def by blast+
  then have free: "length (queued ?m) < ring_size (vp_eventq (vbus ?m))"
    using post(2) host_post_full [OF ok] by fastforce
  obtain h where h: "m = shared h ((m_events ?m)[post_slot ?m := e]) ?m"
    "evq_shape (vbus ?m) h ((m_events ?m)[post_slot ?m := e])" "queued m = queued ?m @ [e]"
    "head (idx h ioq_idxtype_inuse) = head (idx (m_head ?m) ioq_idxtype_inuse)" "h_signal h = h_signal (m_head ?m)"
    using host_post_free [OF ok free, of e] post(2) by auto
  then have m: "evq_ok m" "vbus m = vbus ?m" "head_iter (m_head m) = head_iter (m_head ?m)" "north_irq m = north_irq ?m"
    by simp_all
  have eff: "same_effects ?m n \<Longrightarrow> same_effects m n" for n
    unfolding h(1) by (rule same_effects_shared)
  show ?thesis
    using assms(2) m h(3) eff post(1) unfolding delivery_ok_def by simp blast
next
  case (signal b m)
  then have "m = set_north (\<lambda>i. i\<lparr>dirty := 1, pending := 1\<rparr>) (dl_machine s) \<or> m = set_north (\<lambda>i. i\<lparr>dirty := 1\<rparr>) (dl_machine s)"
    by (simp add: host_signal_step split: if_splits)
  then show ?thesis
    using assms(2) signal(1) by (auto simp: delivery_ok_def same_effects_head)
qed

lemma delivery_ok_isr:
  assumes "eventq_intr_isr (dl_machine s) = Inr (b, m)" and "delivery_ok m0 s"
  shows "delivery_ok m0 (s\<lparr>dl_machine := m, dl_dpc := dl_dpc s \<or> b, dl_line := False\<rparr>)"
proof (cases "enabled (north_irq (dl_machine s)) = 0")
  case True
  then show ?thesis
    using assms isr_step [of "dl_machine s"] by (auto simp: delivery_ok_def)
next
  case False
  then have m: "b" "m = io Queue_dpc (set_north (\<lambda>i. i\<lparr>enabled := 0\<rparr>) (dl_machine s))"
    using assms isr_step [of "dl_machine s"] by (auto simp: delivery_ok_def)
  have "same_effects (dl_machine s) n \<Longrightarrow> same_effects m n" for n
    unfolding m(2) io_def
    by (cases "dl_machine s") (use same_effects_upd [of "dl_machine s" n "[Queue_dpc]"] in simp)
  then show ?thesis
    using assms(2) m by (auto simp: delivery_ok_def queued_def)
qed

lemma delivery_okD:
  assumes "delivery_ok m0 s"
  shows "evq_ok (dl_machine s)" and "vbus (dl_machine s) = vbus m0" and "queue_ready (vbus (dl_machine s))"
    and "dl_posted s = dl_handled s @ queued (dl_machine s)"
    and "dl_phase s = Draining k it \<Longrightarrow> it = head_iter (m_head (dl_machine s))"
    and "queued (dl_machine s) \<noteq> [] \<Longrightarrow> dl_owed s \<or> dirty (north_irq (dl_machine s)) \<noteq> 0 \<or> draining (dl_phase s)"
  using assms unfolding delivery_ok_def by (blast, blast, metis, blast, blast, blast)

lemma turn_taken:
  assumes ok: "delivery_ok m0 s" and ph: "dl_phase s = Draining k it" and body: "eventq_body it (dl_machine s) = Inr (Some (it', m))"
  shows "\<exists>e es m1 h evs. queued (dl_machine s) = e # es \<and> event_dispatch e (dl_machine s) = Inr m1 \<and> m = shared h evs m1
           \<and> evq_shape (vbus (dl_machine s)) h evs \<and> queued m = es \<and> it' = head_iter h \<and> h_signal h = h_signal (m_head (dl_machine s))
           \<and> body_event it (dl_machine s) = [e] \<and> vbus m = vbus (dl_machine s)"
proof -
  let ?m = "dl_machine s"
  note D = delivery_okD [OF ok]
  have it: "it = head_iter (m_head ?m)" using D(5) ph .
  obtain e es where q: "queued ?m = e # es"
    using end_step [OF D(1)] body it by (cases "queued ?m") auto
  obtain h evs where h: "evq_shape (vbus ?m) h evs" "map (\<lambda>s. evs ! s) (evq_slots (vbus ?m) h) = es" "h_signal h = h_signal (m_head ?m)"
    "body_event it ?m = [e]"
    "eventq_body it ?m = bind_ok (event_dispatch e ?m) (\<lambda>m1. Inr (Some (head_iter h, shared h evs m1)))"
    using turn_step [OF D(1) q] it by auto
  then obtain m1 where m1: "event_dispatch e ?m = Inr m1" "it' = head_iter h" "m = shared h evs m1"
    using body by (cases "event_dispatch e ?m") auto
  have "vbus m1 = vbus ?m" using event_dispatch_frame [OF m1(1)] by (simp add: same_shared_def)
  then have "queued m = es" "vbus m = vbus ?m"
    using h(2) m1(3) by (simp_all add: queued_def)
  then show ?thesis
    using q h(1,3,4) m1 by blast
qed

lemma delivery_ok_driver:
  assumes "driver_step s s'" and "delivery_ok m0 s"
  shows "delivery_ok m0 s'"
  using assms
proof (cases rule: driver_step.cases)
  case (dpc ph m)
  note D = delivery_okD [OF assms(2)]
  from dpc(4) show ?thesis
    using assms(2) dpc(1,2) by (auto simp: begin_wakeup [OF D(1,3)] delivery_ok_def after_wakeup_def same_effects_head split: if_splits)
next
  case (enable ph m)
  note D = delivery_okD [OF assms(2)]
  from enable(3) show ?thesis
    using assms(2) enable(1,2) by (auto simp: begin_enable [OF D(1,3)] delivery_ok_def after_wakeup_def same_effects_head split: if_splits)
next
  case (turn k it it' m)
  obtain e es m1 h evs where t: "queued (dl_machine s) = e # es" "event_dispatch e (dl_machine s) = Inr m1" "m = shared h evs m1"
    "evq_shape (vbus (dl_machine s)) h evs" "queued m = es" "it' = head_iter h" "h_signal h = h_signal (m_head (dl_machine s))"
    "body_event it (dl_machine s) = [e]" "vbus m = vbus (dl_machine s)"
    using turn_taken [OF assms(2) turn(2,3)] by blast
  obtain n where n: "handle_events (dl_handled s) m0 = Inr n" "same_effects (dl_machine s) n"
    using assms(2) unfolding delivery_ok_def by blast
  obtain n1 where "event_dispatch e n = Inr n1" "same_effects m1 n1"
    using dispatch_same_effects [OF t(2) n(2)] by blast
  then have "handle_events (dl_handled s @ [e]) m0 = Inr n1" "same_effects m n1"
    using n(1) t(3) same_effects_shared by (simp_all add: handle_append)
  then show ?thesis
    using assms(2) turn(1) t(1,3-9) unfolding delivery_ok_def by (auto simp: turn(2))
next
  case (leave k it)
  note D = delivery_okD [OF assms(2)]
  have "queued (dl_machine s) = []"
    using turn_step [OF D(1)] leave(3) D(5) [OF leave(2)]
    by (cases "queued (dl_machine s)") (fastforce split: sum.splits)+
  then show ?thesis
    using assms(2) leave(1,2) by (auto simp: delivery_ok_def)
next
  case (kick k m)
  note D = delivery_okD [OF assms(2)]
  obtain d es where m: "m = (dl_machine s)\<lparr>m_head := (m_head (dl_machine s))\<lparr>h_signal := d\<rparr>, m_io := m_io (dl_machine s) @ es\<rparr>"
    "irq d shm_locality_north = north_irq (dl_machine s)" "filter child_io es = []"
    using kick_step [OF D(1)] kick(3) by auto
  have "same_effects (dl_machine s) n \<Longrightarrow> same_effects m n" for n
    unfolding m(1) by (cases "dl_machine s") (use same_effects_upd [OF _ m(3), of "dl_machine s" n] in simp)
  then show ?thesis
    using assms(2) kick(1,2) m(1,2) by (auto simp: delivery_ok_def queued_def after_wakeup_def)
qed

lemma delivery_ok_step: "delivery_step b s s' \<Longrightarrow> delivery_ok m0 s \<Longrightarrow> delivery_ok m0 s'"
  by (cases rule: delivery_step.cases) (auto intro: delivery_ok_host delivery_ok_driver delivery_ok_isr)

lemma delivery_ok_run: "(delivery_step b)\<^sup>*\<^sup>* s s' \<Longrightarrow> delivery_ok m0 s \<Longrightarrow> delivery_ok m0 s'"
  by (induction rule: rtranclp_induct) (auto intro: delivery_ok_step)

text \<open>A queue as \<open>eventq_init\<close> leaves it: in order, empty, registered and unmasked.\<close>

definition fresh_queue :: "machine \<Rightarrow> bool" where
  "fresh_queue m \<longleftrightarrow> evq_ok m \<and> queue_ready (vbus m) \<and> queued m = [] \<and> north_irq m = \<lparr>enabled = 1, pending = 0, dirty = 0\<rparr>"

lemma delivery_ok_rest: "fresh_queue m \<Longrightarrow> delivery_ok m (at_rest m)"
  by (simp add: fresh_queue_def delivery_ok_def at_rest_def)

section \<open>The deferred call completes\<close>

fun phase_work :: "dpc_phase \<Rightarrow> nat" where
  "phase_work Idle = 0"
| "phase_work (Leaving k) = (if k then 4 else 1)"
| "phase_work (Draining k it) = (if k then 5 else 2)"
| "phase_work Between = 3"

definition work_left :: "delivery \<Rightarrow> nat" where
  "work_left s = (if dl_dpc s then 6 else 0) + phase_work (dl_phase s) + length (queued (dl_machine s))"

lemma driver_step_work:
  assumes "driver_step s s'" and "delivery_ok m0 s"
  shows "work_left s' < work_left s \<and> dl_posted s' = dl_posted s \<and> dl_owed s' = dl_owed s \<and> dl_line s' = dl_line s"
  using assms
proof (cases rule: driver_step.cases)
  case (dpc ph m)
  note D = delivery_okD [OF assms(2)]
  from dpc show ?thesis
    by (auto simp: begin_wakeup [OF D(1,3)] after_wakeup_def work_left_def split: if_splits)
next
  case (enable ph m)
  note D = delivery_okD [OF assms(2)]
  from enable show ?thesis
    by (auto simp: begin_enable [OF D(1,3)] after_wakeup_def work_left_def split: if_splits)
next
  case (turn k it it' m)
  then show ?thesis
    using turn_taken [OF assms(2) turn(2,3)] by (auto simp: work_left_def)
next
  case (leave k it)
  then show ?thesis by (simp add: work_left_def)
next
  case (kick k m)
  then show ?thesis
    using kick_step [OF delivery_okD(1) [OF assms(2)]] by (auto simp: work_left_def after_wakeup_def queued_def)
qed

lemma driver_run_work:
  "(driver_step ^^ n) s s' \<Longrightarrow> delivery_ok m0 s \<Longrightarrow> n + work_left s' \<le> work_left s \<and> delivery_ok m0 s'"
proof (induction n arbitrary: s')
  case (Suc n)
  then obtain s1 where s1: "(driver_step ^^ n) s s1" "driver_step s1 s'" by auto
  then show ?case
    using Suc.IH [OF s1(1) Suc.prems(2)] driver_step_work [OF s1(2)] delivery_ok_driver [OF s1(2)] by fastforce
qed simp

text \<open>The driver has been told, or has nothing to do; and no handler faults on what is queued.\<close>

definition driven :: "delivery \<Rightarrow> bool" where
  "driven s \<longleftrightarrow> \<not> dl_owed s \<and> (dl_dpc s \<or> will_enable (dl_phase s) \<or> draining (dl_phase s) \<or> queued (dl_machine s) = [])"

definition handlers_fine :: "machine \<Rightarrow> bool" where
  "handlers_fine m \<longleftrightarrow> (\<exists>m1. handle_events (queued m) m = Inr m1)"

lemma handlers_fine_upd:
  assumes "handlers_fine m" and "queued m' = queued m" and "same_effects m m'"
  shows "handlers_fine m'"
  using assms handle_same_effects unfolding handlers_fine_def by metis

lemma same_effects_set: "same_effects m (m\<lparr>m_head := h\<rparr>)"
  "filter child_io es = [] \<Longrightarrow> same_effects m (m\<lparr>m_head := h, m_io := m_io m @ es\<rparr>)"
  unfolding same_effects_def
  by (intro conjI exI [of _ h] exI [of _ "m_events m"] exI [of _ "m_io m"], simp, simp)
    (intro conjI exI [of _ h] exI [of _ "m_events m"] exI [of _ "m_io m @ es"], simp, simp)

lemma driver_progress:
  assumes ok: "delivery_ok m0 s" and dr: "driven s" "handlers_fine (dl_machine s)" and busy: "dl_dpc s \<or> dl_phase s \<noteq> Idle"
  shows "\<exists>s'. driver_step s s' \<and> driven s' \<and> handlers_fine (dl_machine s')"
proof (cases "dl_phase s")
  case Idle
  note D = delivery_okD [OF ok]
  let ?c = "enabled (north_irq (dl_machine s)) \<noteq> 0 \<and> (dirty (north_irq (dl_machine s)) \<noteq> 0 \<or> pending (north_irq (dl_machine s)) \<noteq> 0)"
  let ?ph = "if ?c then Draining True (head_iter (m_head (dl_machine s))) else Between"
  let ?m = "if ?c then set_north (\<lambda>i. i\<lparr>dirty := 0\<rparr>) (dl_machine s) else dl_machine s"
  have "driver_step s (s\<lparr>dl_machine := ?m, dl_phase := ?ph, dl_dpc := False\<rparr>)"
    by (rule driver_step.dpc [OF Idle]) (use busy Idle in \<open>auto simp: begin_wakeup [OF D(1,3)] after_wakeup_def\<close>)
  moreover have "handlers_fine ?m"
    using handlers_fine_upd [OF dr(2)] same_effects_set(1) by simp
  ultimately show ?thesis
    using dr(1) by (intro exI [of _ "s\<lparr>dl_machine := ?m, dl_phase := ?ph, dl_dpc := False\<rparr>"]) (auto simp: driven_def)
next
  case Between
  note D = delivery_okD [OF ok]
  let ?c = "dirty (north_irq (dl_machine s)) \<noteq> 0 \<or> pending (north_irq (dl_machine s)) \<noteq> 0"
  let ?ph = "if ?c then Draining False (head_iter (m_head (dl_machine s))) else Idle"
  let ?m = "if ?c then set_north (\<lambda>i. i\<lparr>enabled := 1, dirty := 0\<rparr>) (dl_machine s)
            else set_north (\<lambda>i. i\<lparr>enabled := 1\<rparr>) (dl_machine s)"
  have "driver_step s (s\<lparr>dl_machine := ?m, dl_phase := ?ph\<rparr>)"
    by (rule driver_step.enable [OF Between]) (auto simp: begin_enable [OF D(1,3)] after_wakeup_def)
  moreover have "handlers_fine ?m"
    using handlers_fine_upd [OF dr(2)] same_effects_set(1) by simp
  moreover have "\<not> ?c \<Longrightarrow> queued ?m = []"
    using D(6) Between dr(1) by (auto simp: driven_def)
  ultimately show ?thesis
    using dr(1) by (intro exI [of _ "s\<lparr>dl_machine := ?m, dl_phase := ?ph\<rparr>"]) (auto simp: driven_def)
next
  case (Draining k it)
  note D = delivery_okD [OF ok]
  have it: "it = head_iter (m_head (dl_machine s))" using D(5) Draining .
  show ?thesis
  proof (cases "queued (dl_machine s)")
    case Nil
    then have "driver_step s (s\<lparr>dl_phase := Leaving k\<rparr>)"
      using end_step [OF D(1)] it by (intro driver_step.leave [OF Draining]) simp
    then show ?thesis using dr Nil by (intro exI [of _ "s\<lparr>dl_phase := Leaving k\<rparr>"]) (auto simp: driven_def)
  next
    case (Cons e es)
    then obtain m1 m2 where m1: "event_dispatch e (dl_machine s) = Inr m1" "handle_events es m1 = Inr m2"
      using dr(2) by (auto simp: handlers_fine_def)
    obtain h evs where h: "evq_shape (vbus (dl_machine s)) h evs" "map (\<lambda>s. evs ! s) (evq_slots (vbus (dl_machine s)) h) = es"
      "eventq_body it (dl_machine s) = Inr (Some (head_iter h, shared h evs m1))"
      using turn_step [OF D(1) Cons] it m1(1) by auto
    have "vbus m1 = vbus (dl_machine s)" using event_dispatch_frame [OF m1(1)] by (simp add: same_shared_def)
    then have "queued (shared h evs m1) = es" using h(2) by (simp add: queued_def)
    then have fine: "handlers_fine (shared h evs m1)" using m1(2) by (simp add: handlers_fine_def handle_events_shared)
    show ?thesis
      by (intro exI, rule conjI [OF driver_step.turn [OF Draining h(3)]]) (use dr(1) fine in \<open>simp add: driven_def\<close>)
  qed
next
  case (Leaving k)
  note D = delivery_okD [OF ok]
  obtain d es where m: "eventq_kick (dl_machine s) =
      Inr ((dl_machine s)\<lparr>m_head := (m_head (dl_machine s))\<lparr>h_signal := d\<rparr>, m_io := m_io (dl_machine s) @ es\<rparr>)" "filter child_io es = []"
    using kick_step [OF D(1)] by auto
  have fine: "handlers_fine ((dl_machine s)\<lparr>m_head := (m_head (dl_machine s))\<lparr>h_signal := d\<rparr>, m_io := m_io (dl_machine s) @ es\<rparr>)"
    by (rule handlers_fine_upd [OF dr(2) _ same_effects_set(2) [OF m(2)]]) (simp add: queued_def)
  show ?thesis
    by (intro exI, rule conjI [OF driver_step.kick [OF Leaving m(1)]])
      (use dr(1) fine Leaving in \<open>auto simp: driven_def after_wakeup_def queued_def\<close>)
qed

lemma driver_completes:
  assumes "delivery_ok m0 s" and "driven s" and "handlers_fine (dl_machine s)"
  shows "\<exists>s'. driver_step\<^sup>*\<^sup>* s s' \<and> dl_phase s' = Idle \<and> \<not> dl_dpc s' \<and> queued (dl_machine s') = []
           \<and> dl_posted s' = dl_posted s \<and> dl_line s' = dl_line s \<and> delivery_ok m0 s'"
  using assms
proof (induction "work_left s" arbitrary: s rule: less_induct)
  case less
  show ?case
  proof (cases "dl_dpc s \<or> dl_phase s \<noteq> Idle")
    case True
    then obtain s1 where s1: "driver_step s s1" "driven s1" "handlers_fine (dl_machine s1)"
      using driver_progress [OF less.prems] by blast
    then show ?thesis
      using less.hyps [of s1] driver_step_work [OF s1(1) less.prems(1)] delivery_ok_driver [OF s1(1) less.prems(1)]
        converse_rtranclp_into_rtranclp [of driver_step, OF s1(1)] by fastforce
  next
    case False
    then show ?thesis using less.prems by (auto simp: driven_def)
  qed
qed

section \<open>The functions of the driver are runs of steps\<close>

text \<open>Between two turns of the loop the host may post and signal, but nothing else.\<close>

definition posting :: "machine \<Rightarrow> host \<Rightarrow> bool" where
  "posting m0 H \<longleftrightarrow> (\<forall>s. delivery_ok m0 s \<longrightarrow> (\<exists>s'. host_step\<^sup>*\<^sup>* s s' \<and> dl_machine s' = hc_step H (dl_machine s)))"

lemma host_run_keeps: "host_step\<^sup>*\<^sup>* s s' \<Longrightarrow> dl_phase s' = dl_phase s \<and> dl_dpc s' = dl_dpc s \<and> dl_handled s' = dl_handled s"
  by (induction rule: rtranclp_induct) (auto elim: host_step.cases)

lemma host_run_steps: "host_step\<^sup>*\<^sup>* s s' \<Longrightarrow> (delivery_step b)\<^sup>*\<^sup>* s s'"
  by (induction rule: rtranclp_induct) (auto intro: rtranclp.rtrancl_into_rtrancl delivery_step.host)

lemma loop_runs:
  assumes "eventq_loop H it m = Some r" and "posting m0 H" and "r = Inr m'"
    and "delivery_ok m0 s" and "dl_machine s = m" and "dl_phase s = Draining k it"
  shows "\<exists>s'. (delivery_step b)\<^sup>*\<^sup>* s s' \<and> dl_machine s' = m' \<and> dl_phase s' = Leaving k \<and> dl_dpc s' = dl_dpc s"
  using assms
proof (induction arbitrary: s rule: eventq_loop.raw_induct [rotated, consumes 1])
  case (1 loop H it m r)
  show ?case
  proof (cases "eventq_body it m")
    case (Inl e)
    then show ?thesis using 1(2,4) by simp
  next
    case (Inr p)
    show ?thesis
    proof (cases p)
      case None
      then have "driver_step s (s\<lparr>dl_phase := Leaving k\<rparr>)" "m' = m"
        using Inr 1(2,4,6,7) driver_step.leave by auto
      then show ?thesis
        using 1(6) by (intro exI [of _ "s\<lparr>dl_phase := Leaving k\<rparr>"]) (auto intro: delivery_step.driver)
    next
      case (Some q)
      obtain it1 m1 where q: "q = (it1, m1)" by fastforce
      let ?s1 = "s\<lparr>dl_machine := m1, dl_phase := Draining k it1, dl_handled := dl_handled s @ body_event it (dl_machine s)\<rparr>"
      have step: "driver_step s ?s1" using driver_step.turn [OF 1(7)] Inr Some q 1(6) by simp
      then have ok1: "delivery_ok m0 ?s1" using delivery_ok_driver 1(5) by blast
      then obtain s2 where s2: "host_step\<^sup>*\<^sup>* ?s1 s2" "dl_machine s2 = hc_step H m1"
        using 1(3) by (fastforce simp: posting_def)
      have run2: "(delivery_step b)\<^sup>*\<^sup>* s s2"
        using host_run_steps [OF s2(1)] delivery_step.driver [OF step] by (rule converse_rtranclp_into_rtranclp [rotated])
      have ok2: "delivery_ok m0 s2"
        using delivery_ok_run [OF host_run_steps [OF s2(1)] ok1] .
      have "loop H it1 (hc_step H m1) = Some r" using 1(2) Inr Some q by simp
      from 1(1) [OF this 1(3,4) ok2 s2(2)] host_run_keeps [OF s2(1)] obtain s3 where
        "(delivery_step b)\<^sup>*\<^sup>* s2 s3" "dl_machine s3 = m'" "dl_phase s3 = Leaving k" "dl_dpc s3 = dl_dpc s" by auto
      then show ?thesis using rtranclp_trans [OF run2] by blast
    qed
  qed
qed

lemma shm_runs:
  assumes "eventq_shm H f m = Some (Inr m')" and "shm_begin f k m = Inr (ph, m1)" and "posting m0 H"
    and "delivery_ok m0 s" and "dl_machine s = m1" and "dl_phase s = ph" and "ph = after_wakeup k \<or> draining ph"
    and "\<And>j it. ph = Draining j it \<Longrightarrow> j = k"
  shows "\<exists>s'. (delivery_step b)\<^sup>*\<^sup>* s s' \<and> dl_machine s' = m' \<and> dl_phase s' = after_wakeup k \<and> dl_dpc s' = dl_dpc s"
proof (cases "draining ph")
  case False
  then have "m' = m1" using assms(1,2,7) by (simp add: eventq_shm_split [of H f m k] shm_rest_def after_wakeup_def split: if_splits)
  then show ?thesis using assms(5-7) False by blast
next
  case True
  then obtain it where ph: "ph = Draining k it" using assms(8) by (cases ph) auto
  then obtain m2 where m2: "eventq_loop H it m1 = Some (Inr m2)" "eventq_kick m2 = Inr m'"
    using assms(1,2) by (auto simp: eventq_shm_split [of H f m k] shm_rest_draining ret_bind_eq_Inr)
  obtain s2 where s2: "(delivery_step b)\<^sup>*\<^sup>* s s2" "dl_machine s2 = m2" "dl_phase s2 = Leaving k" "dl_dpc s2 = dl_dpc s"
    using loop_runs [OF m2(1) assms(3) refl assms(4,5)] assms(6) ph by blast
  have "driver_step s2 (s2\<lparr>dl_machine := m', dl_phase := after_wakeup k\<rparr>)"
    using driver_step.kick [OF s2(3)] m2(2) s2(2) by simp
  then show ?thesis
    using s2(1,4) by (intro exI [of _ "s2\<lparr>dl_machine := m', dl_phase := after_wakeup k\<rparr>"])
      (auto intro: rtranclp.rtrancl_into_rtrancl delivery_step.driver)
qed

lemma dpc_runs:
  assumes ok: "delivery_ok m0 s" and H: "posting m0 H" and idle: "dl_phase s = Idle" "dl_dpc s"
    and run: "eventq_intr_dpc H (dl_machine s) = Some (Inr m')"
  shows "\<exists>s'. (delivery_step b)\<^sup>*\<^sup>* s s' \<and> dl_machine s' = m' \<and> dl_phase s' = Idle"
proof -
  note D = delivery_okD [OF ok]
  obtain m2 where m2: "eventq_shm H ShmSignalWakeup (dl_machine s) = Some (Inr m2)" "eventq_shm H ShmSignalEnable m2 = Some (Inr m')"
    using run by (auto simp: eventq_intr_dpc_def ret_bind_eq_Inr)
  obtain ph m1 where b1: "shm_begin ShmSignalWakeup True (dl_machine s) = Inr (ph, m1)" "ph = after_wakeup True \<or> draining ph"
    "\<And>j it. ph = Draining j it \<Longrightarrow> j = True"
    using begin_wakeup [OF D(1,3), of True] by (cases "shm_begin ShmSignalWakeup True (dl_machine s)") (auto split: if_splits)
  let ?s1 = "s\<lparr>dl_machine := m1, dl_phase := ph, dl_dpc := False\<rparr>"
  have step1: "driver_step s ?s1" by (rule driver_step.dpc [OF idle b1(1)])
  have ok1: "delivery_ok m0 ?s1" using delivery_ok_driver [OF step1 ok] .
  obtain s2 where s2: "(delivery_step b)\<^sup>*\<^sup>* ?s1 s2" "dl_machine s2 = m2" "dl_phase s2 = Between"
    using shm_runs [OF m2(1) b1(1) H ok1 _ _ b1(2), of b] b1(3) by (auto simp: after_wakeup_def)
  have ok2: "delivery_ok m0 s2" using delivery_ok_run [OF s2(1) ok1] .
  note D2 = delivery_okD [OF ok2]
  obtain ph3 m3 where b3: "shm_begin ShmSignalEnable False m2 = Inr (ph3, m3)" "ph3 = after_wakeup False \<or> draining ph3"
    "\<And>j it. ph3 = Draining j it \<Longrightarrow> j = False"
    using begin_enable [OF D2(1,3), of False] s2(2) by (cases "shm_begin ShmSignalEnable False m2") (auto split: if_splits)
  let ?s3 = "s2\<lparr>dl_machine := m3, dl_phase := ph3\<rparr>"
  have step3: "driver_step s2 ?s3" using driver_step.enable [OF s2(3)] b3(1) s2(2) by simp
  have ok3: "delivery_ok m0 ?s3" using delivery_ok_driver [OF step3 ok2] .
  obtain s4 where s4: "(delivery_step b)\<^sup>*\<^sup>* ?s3 s4" "dl_machine s4 = m'" "dl_phase s4 = Idle"
    using shm_runs [OF m2(2) b3(1) H ok3 _ _ b3(2), of b] b3(3) by (auto simp: after_wakeup_def)
  have "(delivery_step b)\<^sup>*\<^sup>* s s4"
    using delivery_step.driver [OF step1] s2(1) delivery_step.driver [OF step3] s4(1)
    by (meson converse_rtranclp_into_rtranclp rtranclp_trans)
  then show ?thesis using s4 by blast
qed

text \<open>Against a host that is quiet the deferred call returns.\<close>

lemma wakeup_returns:
  assumes "evq_ok m" and "hc_step H = (\<lambda>m. m)" and "handlers_fine m"
  shows "\<exists>m'. eventq_wakeup H m = Some (Inr m') \<and> evq_ok m' \<and> queued m' = [] \<and> vbus m' = vbus m"
proof -
  obtain h evs where w: "eventq_wakeup H m = Some (bind_ok (handle_events (queued m) m) (\<lambda>m1. eventq_kick (shared h evs m1)))"
    "drained (vbus m) (m_head m) (m_events m) h evs"
    using wakeup_drains [OF assms(1,2)] by auto
  obtain m1 where m1: "handle_events (queued m) m = Inr m1" using assms(3) by (auto simp: handlers_fine_def)
  have V: "vbus m1 = vbus m" using handle_events_frame [OF m1] by (simp add: same_shared_def)
  then have sh: "evq_ok (shared h evs m1)" "evq_slots (vbus m) h = []" using w(2) by (simp_all add: drained_def)
  then show ?thesis
    using w(1) m1 V kick_step [OF sh(1)] by (auto simp: queued_def)
qed

lemma shm_returns:
  assumes "evq_ok m" and "queue_ready (vbus m)" and "hc_step H = (\<lambda>m. m)" and "handlers_fine m"
    and "f = ShmSignalWakeup \<or> f = ShmSignalEnable"
  shows "\<exists>m'. eventq_shm H f m = Some (Inr m') \<and> evq_ok m' \<and> handlers_fine m' \<and> vbus m' = vbus m"
proof -
  note E = evq_shapeD(6-8) [OF assms(1)]
  obtain d c where f: "f (q_signal (vp_eventq (vbus m))) (h_signal (m_head m)) = (d, c)" "c = NoCall \<or> c = CallNotifier Ioq_shm_signal"
    using assms(2,5) by (cases "f (q_signal (vp_eventq (vbus m))) (h_signal (m_head m))")
      (auto simp: ShmSignalEnable_def ShmSignalWakeup_def Let_def queue_ready_def split: if_splits)
  let ?m = "m\<lparr>m_head := (m_head m)\<lparr>h_signal := d\<rparr>\<rparr>"
  have m: "evq_ok ?m" "handlers_fine ?m"
    using assms(1) handlers_fine_upd [OF assms(4) _ same_effects_set(1)] by simp_all
  have "eventq_shm H f m = (if c = NoCall then Some (Inr ?m) else eventq_wakeup H ?m)"
    using E f assms(2) by (auto simp: eventq_shm_def run_inject_def queue_ready_def ioq_shm_signal_def)
  then show ?thesis
    using wakeup_returns [OF m(1) assms(3) m(2)] m by (fastforce simp: handlers_fine_def)
qed

lemma dpc_returns:
  assumes "delivery_ok m0 s" and "hc_step H = (\<lambda>m. m)" and "handlers_fine (dl_machine s)"
  shows "\<exists>m'. eventq_intr_dpc H (dl_machine s) = Some (Inr m')"
proof -
  note D = delivery_okD [OF assms(1)]
  obtain m2 where "eventq_shm H ShmSignalWakeup (dl_machine s) = Some (Inr m2)" "evq_ok m2" "handlers_fine m2" "vbus m2 = vbus (dl_machine s)"
    using shm_returns [OF D(1,3) assms(2,3)] by blast
  then show ?thesis
    using shm_returns [of m2 H ShmSignalEnable] D(3) assms(2) by (auto simp: eventq_intr_dpc_def)
qed

section \<open>Interrupts after the first\<close>

text \<open>On a line of its own: whatever happened so far, the pending flag of the guest is set.\<close>

definition told :: "delivery \<Rightarrow> bool" where
  "told s \<longleftrightarrow> (dl_line s \<or> dl_dpc s \<or> dl_phase s \<noteq> Idle \<or> dl_handled s \<noteq> [] \<longrightarrow> pending (north_irq (dl_machine s)) \<noteq> 0)"

lemma driver_pending:
  assumes "driver_step s s'" and "delivery_ok m0 s"
  shows "pending (north_irq (dl_machine s')) = pending (north_irq (dl_machine s)) \<and> (dl_dpc s \<or> dl_phase s \<noteq> Idle)"
  using assms
proof (cases rule: driver_step.cases)
  case (dpc ph m)
  note D = delivery_okD [OF assms(2)]
  from dpc show ?thesis by (auto simp: begin_wakeup [OF D(1,3)] split: if_splits)
next
  case (enable ph m)
  note D = delivery_okD [OF assms(2)]
  from enable show ?thesis by (auto simp: begin_enable [OF D(1,3)] split: if_splits)
next
  case (turn k it it' m)
  then show ?thesis using turn_taken [OF assms(2) turn(2,3)] by auto
next
  case (kick k m)
  then show ?thesis using kick_step [OF delivery_okD(1) [OF assms(2)]] by auto
qed simp

lemma host_pending:
  assumes "host_step s s'" and "delivery_ok m0 s"
  shows "(pending (north_irq (dl_machine s)) \<noteq> 0 \<longrightarrow> pending (north_irq (dl_machine s')) \<noteq> 0 \<and> dl_line s' = dl_line s)
       \<and> (dl_line s' \<longrightarrow> dl_line s \<or> pending (north_irq (dl_machine s')) \<noteq> 0)"
  using assms
proof (cases rule: host_step.cases)
  case (post e m)
  note D = delivery_okD [OF assms(2)]
  have "length (queued (dl_machine s)) < ring_size (vp_eventq (vbus (dl_machine s)))"
    using post(2) host_post_full [OF D(1)] by fastforce
  then show ?thesis using post host_post_free [OF D(1), of e] by auto
next
  case (signal b m)
  then show ?thesis by (auto simp: host_signal_step split: if_splits)
qed

lemma isr_pending:
  assumes "eventq_intr_isr (dl_machine s) = Inr (b, m)" and "delivery_ok m0 s"
  shows "pending (north_irq m) = pending (north_irq (dl_machine s))"
  using assms isr_step [OF delivery_okD(1) [OF assms(2)]] by (auto split: if_splits)

lemma told_step:
  assumes "delivery_step False s s'" and "delivery_ok m0 s" and "told s"
  shows "told s'"
  using assms(1)
proof (cases rule: delivery_step.cases)
  case host
  then show ?thesis
    using host_pending [OF host assms(2)] host_run_keeps [OF r_into_rtranclp [of host_step, OF host]] assms(3)
    by (auto simp: told_def)
next
  case driver
  then show ?thesis
    using driver_pending [OF driver assms(2)] assms(3) by (auto simp: told_def)
next
  case (isr b m)
  then show ?thesis
    using isr_pending [OF isr(3) assms(2)] assms(3) by (auto simp: told_def)
qed

lemma told_run:
  assumes "(delivery_step False)\<^sup>*\<^sup>* s s'" and "delivery_ok m0 s" and "told s"
  shows "told s'"
  using assms
  by (induction rule: rtranclp_induct) (auto intro: told_step delivery_ok_run)

lemma stuck_run:
  assumes "(delivery_step False)\<^sup>*\<^sup>* s s'" and "delivery_ok m0 s" and "pending (north_irq (dl_machine s)) \<noteq> 0"
    and "dl_phase s = Idle" and "\<not> dl_dpc s" and "\<not> dl_line s"
  shows "dl_handled s' = dl_handled s \<and> dl_phase s' = Idle \<and> \<not> dl_dpc s' \<and> \<not> dl_line s' \<and> pending (north_irq (dl_machine s')) \<noteq> 0"
  using assms
proof (induction rule: rtranclp_induct)
  case (step s1 s2)
  have ok: "delivery_ok m0 s1" using delivery_ok_run step(1,4) by blast
  from step(2) show ?case
  proof (cases rule: delivery_step.cases)
    case host
    then show ?thesis
      using host_pending [OF host ok] host_run_keeps [OF r_into_rtranclp [of host_step, OF host]] step by auto
  next
    case driver
    then show ?thesis using driver_pending [OF driver ok] step by auto
  next
    case (isr b m)
    then show ?thesis using step by auto
  qed
qed simp

section \<open>A host that never stops\<close>

lemma total_event: "eventid e \<noteq> 2 \<Longrightarrow> eventid e \<noteq> 3 \<Longrightarrow> \<exists>m1. event_dispatch e m = Inr m1"
  by (simp add: event_dispatch_def)

lemma loop_never_ends:
  assumes "eventq_loop H it m = Some r" and "hc_step H = (\<lambda>m. case host_post e m of None \<Rightarrow> m | Some m' \<Rightarrow> m')"
    and "evq_ok m" and "it = head_iter (m_head m)" and "queued m \<noteq> []" and "eventid e \<noteq> 2 \<and> eventid e \<noteq> 3"
    and "\<forall>x\<in>set (queued m). eventid x \<noteq> 2 \<and> eventid x \<noteq> 3"
  shows False
  using assms
proof (induction rule: eventq_loop.raw_induct [rotated, consumes 1])
  case (1 loop H it m r)
  obtain x xs where q: "queued m = x # xs" using 1(6) by (cases "queued m") auto
  obtain m1 where m1: "event_dispatch x m = Inr m1" using total_event 1(8) q by fastforce
  obtain h evs where h: "evq_shape (vbus m) h evs" "map (\<lambda>s. evs ! s) (evq_slots (vbus m) h) = xs"
    "eventq_body it m = Inr (Some (head_iter h, shared h evs m1))"
    using turn_step [OF 1(4) q] 1(5) m1 by auto
  let ?m = "shared h evs m1"
  have V: "vbus m1 = vbus m" using event_dispatch_frame [OF m1] by (simp add: same_shared_def)
  then have m: "evq_ok ?m" "queued ?m = xs" "m_head ?m = h" using h(1,2) by (simp_all add: queued_def)
  have "length (queued m) \<le> ring_size (vp_eventq (vbus m))"
    using idx_count_le ring_okD(5) [OF evq_shapeD(2) [OF 1(4)]] by (simp add: length_queued)
  then have free: "length (queued ?m) < ring_size (vp_eventq (vbus ?m))" using q m(2) V by simp
  from host_post_free [OF m(1) free, of e] obtain h' evs' where p: "host_post e ?m = Some (shared h' evs' ?m)"
    "evq_shape (vbus ?m) h' evs'" "queued (shared h' evs' ?m) = xs @ [e]" "head_iter h' = head_iter h"
    using m(2,3) by fastforce
  have "hc_step H ?m = shared h' evs' ?m" using 1(3) p(1) by simp
  then have "loop H (head_iter h') (shared h' evs' ?m) = Some r"
    using 1(2) h(3) p(4) by simp
  then show ?case
    by (rule 1(1)) (use 1(3,7,8) p(2,3) q in auto)
qed

section \<open>Where it starts\<close>

lemma setup_fresh:
  assumes "eventq_ioq_init n m = (STATUS_SUCCESS, m1)" and "VbusAlloc m1 = (p, m2)" and "p \<noteq> 0" and "0 < n" and "n < 2 ^ 31"
    and "unat p + n * sizeof_event \<le> 2 ^ 32"
  shows "\<exists>m3. eventq_init H n m1 = Some (Inr (STATUS_SUCCESS, m3)) \<and> fresh_queue m3 \<and> ring_size (vp_eventq (vbus m3)) = n"
proof -
  obtain m3 where m3: "eventq_init H n m1 = Some (Inr (STATUS_SUCCESS, m3))" "length (ring (m_head m3)) = n" "queued m3 = []"
    "queue_ready (vbus m3)" "north_irq m3 = \<lparr>enabled = 1, pending = 0, dirty = 0\<rparr>" "evq_ok m3"
    using setup_state [OF assms(1-5), of H] assms(6) unfolding Let_def queue_ready_def by force
  then have "ring_size (vp_eventq (vbus m3)) = n"
    using ring_okD(4) [OF evq_shapeD(2) [OF m3(6)]] by simp
  then show ?thesis using m3 by (simp add: fresh_queue_def)
qed

text \<open>The host posts an event on an idle queue and signals it: the interrupt comes through.\<close>

lemma interrupt_reaches_dpc:
  assumes "delivery_ok m0 s" and "dl_phase s = Idle" and "\<not> dl_dpc s" and "enabled (north_irq (dl_machine s)) \<noteq> 0"
    and "pending (north_irq (dl_machine s)) = 0"
    and "length (queued (dl_machine s)) < ring_size (vp_eventq (vbus (dl_machine s)))"
  shows "\<exists>s'. (delivery_step b)\<^sup>*\<^sup>* s s' \<and> dl_dpc s' \<and> dl_phase s' = Idle \<and> \<not> dl_owed s' \<and> \<not> dl_line s'
           \<and> dl_posted s' = dl_posted s @ [e] \<and> queued (dl_machine s') = queued (dl_machine s) @ [e]"
proof -
  note D = delivery_okD [OF assms(1)]
  obtain h evs where p: "host_post e (dl_machine s) = Some (shared h evs (dl_machine s))" "evq_shape (vbus (dl_machine s)) h evs"
    "queued (shared h evs (dl_machine s)) = queued (dl_machine s) @ [e]" "h_signal h = h_signal (m_head (dl_machine s))"
    using host_post_free [OF D(1) assms(6), of e] by blast
  let ?m1 = "shared h evs (dl_machine s)"
  let ?s1 = "s\<lparr>dl_machine := ?m1, dl_posted := dl_posted s @ [e], dl_owed := True\<rparr>"
  let ?m2 = "set_north (\<lambda>i. i\<lparr>dirty := 1, pending := 1\<rparr>) ?m1"
  let ?s2 = "?s1\<lparr>dl_machine := ?m2, dl_line := dl_line ?s1 \<or> True, dl_owed := False\<rparr>"
  let ?m3 = "io Queue_dpc (set_north (\<lambda>i. i\<lparr>enabled := 0\<rparr>) ?m2)"
  let ?s3 = "?s2\<lparr>dl_machine := ?m3, dl_dpc := dl_dpc ?s2 \<or> True, dl_line := False\<rparr>"
  have "delivery_step b s ?s1" by (intro delivery_step.host host_step.post p(1))
  moreover have "delivery_step b ?s1 ?s2"
    by (intro delivery_step.host host_step.signal) (use assms(4,5) p(4) in \<open>simp add: host_signal_step\<close>)
  moreover have "delivery_step b ?s2 ?s3"
  proof (rule delivery_step.isr)
    show "eventq_intr_isr (dl_machine ?s2) = Inr (True, ?m3)"
      using isr_step [of ?m2] p(2,4) assms(4) by simp
  qed simp
  ultimately have "(delivery_step b)\<^sup>*\<^sup>* s ?s3"
    by (meson converse_rtranclp_into_rtranclp rtranclp.rtrancl_refl)
  moreover have "queued ?m3 = queued (dl_machine s) @ [e]" using p(3) by (simp add: queued_def)
  ultimately show ?thesis
    using assms(2) by (intro exI [of _ ?s3]) simp
qed

section \<open>Properties\<close>

text \<open>Claim C5. From a queue as its set-up leaves it, under every interleaving of posts and signals of the host,
  interrupts and single steps of the deferred call, the events the handlers were given are a prefix of the events the host posted, the rest is what the ring holds, in order, and signals,
  memory and announced children are what the handlers, run one after the other from the start, make of them.\<close>

theorem events_delivered_in_order:
  assumes "fresh_queue m0" and "(delivery_step b)\<^sup>*\<^sup>* (at_rest m0) s"
  shows "dl_posted s = dl_handled s @ queued (dl_machine s) \<and> evq_ok (dl_machine s)
       \<and> (\<exists>n. handle_events (dl_handled s) m0 = Inr n \<and> m_sigs (dl_machine s) = m_sigs n \<and> m_live (dl_machine s) = m_live n
            \<and> child_log (dl_machine s) = child_log n)"
proof -
  have ok: "delivery_ok m0 s" using delivery_ok_run [OF assms(2) delivery_ok_rest [OF assms(1)]] .
  then obtain n where "handle_events (dl_handled s) m0 = Inr n" "same_effects (dl_machine s) n"
    unfolding delivery_ok_def by blast
  then show ?thesis using delivery_okD(1,4) [OF ok] same_effectsD by blast
qed




text \<open>Claim C32. What the comment in \<open>eventq_wakeup\<close> fears is so: the loop has no budget, and if the host posts one event in every turn, of a
  kind whose handler cannot fault, the call never returns, once there is an event to begin with.\<close>

theorem busy_host_keeps_loop:
  assumes "evq_ok m" and "queued m \<noteq> []" and "\<forall>x\<in>set (e # queued m). eventid x \<noteq> 2 \<and> eventid x \<noteq> 3"
    and "hc_step H = (\<lambda>m. case host_post e m of None \<Rightarrow> m | Some m' \<Rightarrow> m')"
  shows "eventq_wakeup H m = None"
proof -
  have "eventq_loop H (head_iter (m_head m)) m = None"
    using loop_never_ends [OF _ assms(4,1) refl assms(2)] assms(3)
    by (cases "eventq_loop H (head_iter (m_head m)) m") auto
  then show ?thesis
    using evq_shapeD(6) [OF assms(1)] by (simp add: eventq_wakeup_def iter_init_seek)
qed

section \<open>Witnesses\<close>

text \<open>A queue of two events that was just set up, and an event that announces a device.\<close>

definition demo_ready :: machine where
  "demo_ready = (case eventq_ioq_init 2 (demo_fresh [0x1000, 0x2000, 0x3000]) of (_, m1) \<Rightarrow>
     (case eventq_init demo_host 2 m1 of Some (Inr (_, m3)) \<Rightarrow> m3 | _ \<Rightarrow> m1))"

abbreviation demo_add :: vbus_pci_event where
  "demo_add \<equiv> event_zero\<lparr>ev_word := 5\<rparr>"

lemma demo_ready_fresh: "fresh_queue demo_ready" "ring_size (vp_eventq (vbus demo_ready)) = 2"
proof -
  obtain m1 m2 where m: "eventq_ioq_init 2 (demo_fresh [0x1000, 0x2000, 0x3000]) = (STATUS_SUCCESS, m1)"
    "VbusAlloc m1 = (0x3000, m2)"
    using demo_fresh_init by blast
  obtain m3 where m3: "eventq_init demo_host 2 m1 = Some (Inr (STATUS_SUCCESS, m3))" "fresh_queue m3"
    "ring_size (vp_eventq (vbus m3)) = 2"
    using setup_fresh [OF m, of demo_host] by (auto simp: sizeof_event_def VBUS_MAX_DEVTYPE_LEN_def)
  then have "demo_ready = m3" using m by (simp add: demo_ready_def)
  then show "fresh_queue demo_ready" "ring_size (vp_eventq (vbus demo_ready)) = 2" using m3 by simp_all
qed

lemma demo_interrupted:
  "\<exists>s. (delivery_step b)\<^sup>*\<^sup>* (at_rest demo_ready) s \<and> dl_dpc s \<and> dl_phase s = Idle \<and> \<not> dl_owed s \<and> \<not> dl_line s
     \<and> dl_posted s = [demo_add] \<and> queued (dl_machine s) = [demo_add]"
  using interrupt_reaches_dpc [OF delivery_ok_rest [OF demo_ready_fresh(1)], of b demo_add] demo_ready_fresh
  by (simp add: at_rest_def fresh_queue_def)

lemma demo_add_handled: "\<exists>m1. handle_events [demo_add] m = Inr m1"
  by (simp add: event_dispatch_def event_devadd_def event_zero_def)

lemma events_delivered_in_order_witness:
  "\<exists>s. (delivery_step False)\<^sup>*\<^sup>* (at_rest demo_ready) s \<and> dl_posted s = [demo_add] \<and> dl_handled s = []"
proof -
  obtain s where "(delivery_step False)\<^sup>*\<^sup>* (at_rest demo_ready) s" "dl_posted s = [demo_add]" "queued (dl_machine s) = [demo_add]"
    using demo_interrupted by blast
  then show ?thesis using events_delivered_in_order [OF demo_ready_fresh(1)] by force
qed



lemma posting_quiet: "hc_step H = (\<lambda>m. m) \<Longrightarrow> posting m0 H"
  by (auto simp: posting_def)


definition demo_feeder :: host where
  "demo_feeder = demo_host\<lparr>hc_step := \<lambda>m. case host_post demo_add m of None \<Rightarrow> m | Some m' \<Rightarrow> m'\<rparr>"

lemma busy_host_keeps_loop_witness: "eventq_wakeup demo_feeder (demo_evq 0x3000) = None"
  by (rule busy_host_keeps_loop [OF demo_evq_ok, of demo_add])
    (simp_all add: demo_evq_queued demo_feeder_def event_zero_def)

end
