(* ===== verification/Pci_Lifecycle.thy ===== *)
theory Pci_Lifecycle
  imports Pci_Eventq "HOL-Library.Multiset"
begin

text \<open>
  The life of the bridge device, \<open>windows/vbus/pci.c\<close>: mapping the resources, preparing the hardware
  with its error exits, releasing it, and the power transitions. The invariant accounts for the
  pool blocks the global \<open>vbus_pci\<close> owns; the lemmas show that no path of the set-up leaks one or
  frees one twice, that a set-up always comes back, and what a successful one leaves behind.
\<close>

section \<open>Resources\<close>

datatype cm_resource =
    CmResourceTypePort ULONG ULONG
  | CmResourceTypeMemory UINT64 ULONG
  | CmResourceTypeInterrupt
  | CmResourceTypeOther

text \<open>A translated resource list; a null descriptor is \<open>None\<close>.\<close>

type_synonym cm_resource_list = "cm_resource option list"

definition set_vbus :: "(vbus_pci \<Rightarrow> vbus_pci) \<Rightarrow> machine \<Rightarrow> machine" where
  "set_vbus f m = m\<lparr>vbus := f (vbus m)\<rparr>"

definition vbus_pci_parse_resource :: "host \<Rightarrow> cm_resource option \<Rightarrow> machine \<Rightarrow> NTSTATUS \<times> machine" where
  "vbus_pci_parse_resource H d m =
     (case d of
        None \<Rightarrow> (STATUS_DEVICE_CONFIGURATION_ERROR, m)
      | Some (CmResourceTypePort low len) \<Rightarrow>
          (STATUS_SUCCESS, set_vbus (\<lambda>V. V\<lparr>vp_signals := ucast low, vp_signals_length := len\<rparr>) m)
      | Some (CmResourceTypeMemory start len) \<Rightarrow>
          (STATUS_SUCCESS, set_vbus (\<lambda>V. V\<lparr>vp_regs := map_io H start len, vp_regs_length := len\<rparr>) m)
      | Some CmResourceTypeInterrupt \<Rightarrow> (STATUS_SUCCESS, m)
      | Some CmResourceTypeOther \<Rightarrow> (STATUS_SUCCESS, m))"

text \<open>The loop over the list, with the status of the descriptor before.\<close>

fun map_resources_from :: "host \<Rightarrow> NTSTATUS \<Rightarrow> cm_resource_list \<Rightarrow> machine \<Rightarrow> NTSTATUS \<times> machine" where
  "map_resources_from H rc [] m = (rc, m)"
| "map_resources_from H rc (d # ds) m =
     (let (rc', m') = vbus_pci_parse_resource H d m
      in if \<not> NT_SUCCESS rc' then (rc', m') else map_resources_from H rc' ds m')"

definition vbus_pci_map_resources :: "host \<Rightarrow> cm_resource_list \<Rightarrow> machine \<Rightarrow> NTSTATUS \<times> machine" where
  "vbus_pci_map_resources H rt m = map_resources_from H STATUS_DEVICE_CONFIGURATION_ERROR rt m"

section \<open>Preparing and releasing\<close>

definition vbus_pci_cleanup :: "machine \<Rightarrow> machine outcome" where
  "vbus_pci_cleanup m =
     (let V = vbus m;
          m1 = (if vp_regs V \<noteq> 0 then io (Unmap_io (vp_regs V) (vp_regs_length V)) m else m)
      in bind_ok (VbusFree (vp_head_desc V) m1) (\<lambda>m2.
         bind_ok (VbusFree (vp_signal V) m2) (\<lambda>m3.
         bind_ok (VbusFree (vp_ring V) m3) (\<lambda>m4.
           Inr (m4\<lparr>vbus := vbus_pci_zero\<rparr>)))))"

definition out_fail :: "NTSTATUS \<Rightarrow> machine \<Rightarrow> (NTSTATUS \<times> machine) outcome" where
  "out_fail rc m = bind_ok (vbus_pci_cleanup m) (\<lambda>m1. Inr (rc, m1))"

text \<open>The part of \<open>VbusPciPrepareHardware\<close> after the locks.\<close>

definition prepare_device :: "host \<Rightarrow> cm_resource_list \<Rightarrow> machine \<Rightarrow> (NTSTATUS \<times> machine) outcome option" where
  "prepare_device H rt m =
     (let (rc, m1) = vbus_pci_map_resources H rt m
      in if \<not> NT_SUCCESS rc then Some (out_fail rc m1)
         else ret_bind (Some (vbus_pci_open H m1)) (\<lambda>(r, m2).
           if r < 0 then Some (out_fail STATUS_DEVICE_PROTOCOL_ERROR m2)
           else ret_bind (Some (vbus_pci_setup_fastcall H m2)) (\<lambda>(r, m3).
             if r \<noteq> 0 then Some (out_fail STATUS_DEVICE_CONFIGURATION_ERROR m3)
             else
               let (rc, m4) = eventq_ioq_init QLEN m3
               in if \<not> NT_SUCCESS rc then Some (out_fail rc m4)
                  else ret_bind (eventq_init H QLEN m4) (\<lambda>(rc, m5).
                    if \<not> NT_SUCCESS rc then Some (out_fail rc m5)
                    else ret_bind (Some (vbus_pci_eventq_register H m5)) (\<lambda>(r, m6).
                      if r < 0 then Some (out_fail STATUS_DEVICE_PROTOCOL_ERROR m6)
                      else Some (Inr (STATUS_SUCCESS, set_vbus (\<lambda>V. V\<lparr>vp_enabled := 1\<rparr>) m6)))))))"

definition VbusPciPrepareHardware ::
  "host \<Rightarrow> nat \<Rightarrow> cm_resource_list \<Rightarrow> machine \<Rightarrow> (NTSTATUS \<times> machine) outcome option" where
  "VbusPciPrepareHardware H dev rt m =
     (if vp_enabled (vbus m) \<noteq> 0 then Some (Inr (STATUS_DEVICE_ALREADY_ATTACHED, m))
      else
        let m1 = set_vbus (\<lambda>V. V\<lparr>vp_bus := Some dev\<rparr>) m;
            (rc, lk) = wdf_lock H Bridge_lock
        in if \<not> NT_SUCCESS rc then Some (Inr (rc, m1))
           else
             let m2 = set_vbus (\<lambda>V. V\<lparr>vp_lock := lk\<rparr>) m1;
                 (rc, lk) = wdf_lock H Fast_lock
             in if \<not> NT_SUCCESS rc then Some (Inr (rc, m2))
                else prepare_device H rt (m2\<lparr>fastlock := lk\<rparr>))"

definition VbusPciCreateResources :: "host \<Rightarrow> machine \<Rightarrow> NTSTATUS \<times> machine" where
  "VbusPciCreateResources H m =
     (let (rc, h) = wdf_interrupt H
      in (rc, if NT_SUCCESS rc then set_vbus (\<lambda>V. V\<lparr>vp_interrupt := h\<rparr>) m else m))"

definition VbusPciReleaseHardware :: "machine \<Rightarrow> (NTSTATUS \<times> machine) outcome" where
  "VbusPciReleaseHardware m = bind_ok (vbus_pci_cleanup m) (\<lambda>m1. Inr (STATUS_SUCCESS, m1))"

section \<open>Power\<close>

definition VbusPciD0Entry :: "host \<Rightarrow> machine \<Rightarrow> (NTSTATUS \<times> machine) outcome option" where
  "VbusPciD0Entry H m = ret_bind (eventq_shm H ShmSignalEnable m) (\<lambda>m1. Some (Inr (STATUS_SUCCESS, m1)))"

definition VbusPciD0Exit :: "machine \<Rightarrow> (NTSTATUS \<times> machine) outcome" where
  "VbusPciD0Exit m = bind_ok (eventq_disable m) (\<lambda>m1. Inr (STATUS_SUCCESS, m1))"

section \<open>Ownership of pool blocks\<close>

definition block :: "UINT64 \<Rightarrow> UINT64 multiset" where
  "block p = (if p = 0 then {#} else {#p#})"

definition owned :: "vbus_pci \<Rightarrow> UINT64 multiset" where
  "owned V = block (vp_ring V) + block (vp_signal V) + block (vp_head_desc V)"

text \<open>The live blocks are those of others, \<open>L\<close>, and those the global points to.\<close>

definition blocks_ok :: "UINT64 multiset \<Rightarrow> machine \<Rightarrow> bool" where
  "blocks_ok L m \<longleftrightarrow> mset (m_live m) = L + owned (vbus m)"

definition no_blocks :: "vbus_pci \<Rightarrow> bool" where
  "no_blocks V \<longleftrightarrow> vp_ring V = 0 \<and> vp_signal V = 0 \<and> vp_head_desc V = 0"

lemma owned_no_blocks [simp]: "no_blocks V \<Longrightarrow> owned V = {#}"
  by (simp add: owned_def no_blocks_def block_def)

lemma no_blocks_zero [simp]: "no_blocks vbus_pci_zero"
  by (simp add: no_blocks_def vbus_pci_zero_def)

lemma VbusFree_live:
  assumes "mset (m_live m) = B + block p"
  shows "\<exists>ls. VbusFree p m = Inr (m\<lparr>m_live := ls\<rparr>) \<and> mset ls = B"
proof (cases "p = 0")
  case True
  then show ?thesis using assms by (auto simp: VbusFree_def block_def intro: exI [of _ "m_live m"])
next
  case False
  then have "mset (m_live m) = add_mset p B" using assms by (simp add: block_def)
  then have "p \<in> set (m_live m)" by (metis set_mset_mset union_single_eq_member)
  then show ?thesis
    using False \<open>mset (m_live m) = add_mset p B\<close>
    by (simp add: VbusFree_def) (rule exI [of _ "remove1 p (m_live m)"], simp)
qed

lemma cleanup_ok:
  assumes "blocks_ok L m"
  shows "\<exists>m'. vbus_pci_cleanup m = Inr m' \<and> vbus m' = vbus_pci_zero \<and> mset (m_live m') = L"
proof -
  let ?V = "vbus m"
  define m1 where "m1 = (if vp_regs ?V \<noteq> 0 then io (Unmap_io (vp_regs ?V) (vp_regs_length ?V)) m else m)"
  have "mset (m_live m1) = L + block (vp_ring ?V) + block (vp_signal ?V) + block (vp_head_desc ?V)"
    using assms by (simp add: m1_def blocks_ok_def owned_def ac_simps)
  then obtain l2 where f1: "VbusFree (vp_head_desc ?V) m1 = Inr (m1\<lparr>m_live := l2\<rparr>)"
    and l2: "mset l2 = L + block (vp_ring ?V) + block (vp_signal ?V)"
    using VbusFree_live by blast
  obtain l3 where f2: "VbusFree (vp_signal ?V) (m1\<lparr>m_live := l2\<rparr>) = Inr (m1\<lparr>m_live := l3\<rparr>)"
    and l3: "mset l3 = L + block (vp_ring ?V)"
    using VbusFree_live [of "m1\<lparr>m_live := l2\<rparr>"] l2 by auto
  obtain l4 where f3: "VbusFree (vp_ring ?V) (m1\<lparr>m_live := l3\<rparr>) = Inr (m1\<lparr>m_live := l4\<rparr>)"
    and l4: "mset l4 = L"
    using VbusFree_live [of "m1\<lparr>m_live := l3\<rparr>"] l3 by auto
  show ?thesis
    using f1 f2 f3 l4 by (simp add: vbus_pci_cleanup_def Let_def flip: m1_def)
qed

text \<open>What a set-up may come back with: a failure that leaves no trace, or the device enabled.\<close>

definition out_ok :: "UINT64 multiset \<Rightarrow> (NTSTATUS \<times> machine) outcome option \<Rightarrow> bool" where
  "out_ok L r \<longleftrightarrow> (\<exists>rc m'. r = Some (Inr (rc, m')) \<and>
     (if NT_SUCCESS rc then vp_enabled (vbus m') = 1 \<and> blocks_ok L m' \<and> \<not> no_blocks (vbus m')
      else vp_enabled (vbus m') = 0 \<and> no_blocks (vbus m') \<and> mset (m_live m') = L))"

lemma out_fail_ok:
  assumes "blocks_ok L m" and "\<not> NT_SUCCESS rc"
  shows "out_ok L (Some (out_fail rc m))"
  using cleanup_ok [OF assms(1)] assms(2) by (auto simp: out_ok_def out_fail_def vbus_pci_zero_def no_blocks_def)

section \<open>The stages of the set-up\<close>

text \<open>A machine on its way to being prepared: lock created, nothing allocated yet.\<close>

definition staged :: "UINT64 multiset \<Rightarrow> machine \<Rightarrow> bool" where
  "staged L m \<longleftrightarrow> no_blocks (vbus m) \<and> mset (m_live m) = L \<and> vp_lock (vbus m) \<noteq> 0 \<and> vp_enabled (vbus m) = 0"

lemma staged_blocks: "staged L m \<Longrightarrow> blocks_ok L m"
  by (simp add: staged_def blocks_ok_def)

lemma parse_staged: "staged L m \<Longrightarrow> vbus_pci_parse_resource H d m = (rc, m') \<Longrightarrow> staged L m'"
  by (auto simp: vbus_pci_parse_resource_def set_vbus_def staged_def no_blocks_def
      split: option.splits cm_resource.splits)

lemma parse_regs:
  assumes "vbus_pci_parse_resource H d m = (rc, m')" and "\<And>a l. map_io H a l \<noteq> 0"
  shows "vp_regs (vbus m) \<noteq> 0 \<or> (\<exists>a l. d = Some (CmResourceTypeMemory a l)) \<Longrightarrow> vp_regs (vbus m') \<noteq> 0"
  using assms by (auto simp: vbus_pci_parse_resource_def set_vbus_def split: option.splits cm_resource.splits)

lemma map_resources_staged:
  "staged L m \<Longrightarrow> map_resources_from H rc ds m = (rc', m') \<Longrightarrow> staged L m'"
  by (induction ds arbitrary: rc m) (auto dest: parse_staged split: prod.splits if_splits)

lemma map_resources_regs:
  assumes "\<And>a l. map_io H a l \<noteq> 0" and "map_resources_from H rc ds m = (rc', m')" and "NT_SUCCESS rc'"
    and "vp_regs (vbus m) \<noteq> 0 \<or> (\<exists>a l. Some (CmResourceTypeMemory a l) \<in> set ds)"
  shows "vp_regs (vbus m') \<noteq> 0"
  using assms(2-4)
proof (induction ds arbitrary: rc m)
  case (Cons d ds)
  obtain rc1 m1 where d: "vbus_pci_parse_resource H d m = (rc1, m1)" by fastforce
  show ?case
    using Cons.IH [of rc1 m1] Cons.prems d parse_regs [OF d assms(1)] by (auto split: if_splits)
qed simp

lemma bridgecall_staged:
  assumes "vbus_pci_bridgecall H nr p data len m = Inr (r, m')"
  shows "vbus m' = vbus m" and "m_live m' = m_live m" and "m_head m' = m_head m" and "m_events m' = m_events m"
  using bridgecall_frame [OF assms] by auto

lemma bridgecall_returns:
  assumes "vp_lock (vbus m) \<noteq> 0" and "vp_regs (vbus m) \<noteq> 0"
  shows "\<exists>r m'. vbus_pci_bridgecall H nr p data len m = Inr (r, m')"
  using assms by (simp add: bridgecall_eq Let_def)

lemma eventq_ioq_init_cases:
  assumes "eventq_ioq_init n m = (rc, m1)" and "staged L m"
  shows "rc = STATUS_NO_MEMORY \<and> staged L m1 \<and> blocks_ok L m1
       \<or> rc = STATUS_SUCCESS \<and> blocks_ok L m1 \<and> vp_ring (vbus m1) = 0 \<and> vp_head_desc (vbus m1) \<noteq> 0
         \<and> vp_lock (vbus m1) = vp_lock (vbus m) \<and> vp_regs (vbus m1) = vp_regs (vbus m)"
  using assms
  by (auto simp: eventq_ioq_init_def signal_init_def Let_def staged_def blocks_ok_def owned_def block_def
      no_blocks_def dest!: VbusAllocD split: prod.splits if_splits)

lemma qlen_small: "0 < QLEN" "QLEN < 2 ^ 31"
  by (simp_all add: QLEN_def)

text \<open>The last two stages, once the ring is there.\<close>

lemma eventq_init_cases:
  assumes init: "eventq_ioq_init QLEN m = (STATUS_SUCCESS, m1)" and ok: "blocks_ok L m1"
    and V: "vp_ring (vbus m1) = 0" "vp_head_desc (vbus m1) \<noteq> 0"
  shows "\<exists>rc m2. eventq_init H QLEN m1 = Some (Inr (rc, m2)) \<and> blocks_ok L m2
           \<and> (rc = STATUS_NO_MEMORY \<or> rc = STATUS_SUCCESS \<and> \<not> no_blocks (vbus m2)
                \<and> vp_lock (vbus m2) = vp_lock (vbus m1) \<and> vp_regs (vbus m2) = vp_regs (vbus m1))"
proof (cases "fst (VbusAlloc m1) = 0")
  case True
  then show ?thesis
    using ok V by (auto simp: eventq_init_def VbusAlloc_eq Let_def blocks_ok_def owned_def block_def split: list.splits)
next
  case False
  obtain p m2 where alloc: "VbusAlloc m1 = (p, m2)" by fastforce
  with False have p: "p \<noteq> 0" by simp
  obtain h where "eventq_init H QLEN m1 = Some (Inr (STATUS_SUCCESS,
      m2\<lparr>vbus := ready_vbus (vbus m1) p, m_events := replicate QLEN event_zero, m_head := h\<rparr>))"
    using setup_state [OF init alloc p qlen_small] unfolding Let_def by blast
  then show ?thesis
    using ok V p VbusAllocD [OF alloc]
    by (simp add: blocks_ok_def owned_def block_def ready_vbus_def no_blocks_def)
qed

lemma register_out_ok:
  assumes ok: "blocks_ok L m" and V: "\<not> no_blocks (vbus m)" "vp_lock (vbus m) \<noteq> 0" "vp_regs (vbus m) \<noteq> 0"
  shows "out_ok L (ret_bind (Some (vbus_pci_eventq_register H m)) (\<lambda>(r, m6).
           if r < 0 then Some (out_fail STATUS_DEVICE_PROTOCOL_ERROR m6)
           else Some (Inr (STATUS_SUCCESS, set_vbus (\<lambda>V. V\<lparr>vp_enabled := 1\<rparr>) m6))))"
proof -
  obtain r m' where call: "vbus_pci_eventq_register H m = Inr (r, m')"
    unfolding slow_call_defs using bridgecall_returns [OF V(2,3)] by blast
  note F = bridgecall_staged [OF call [unfolded slow_call_defs]]
  have ok': "blocks_ok L m'" using ok F by (simp add: blocks_ok_def)
  show ?thesis
    using out_fail_ok [OF ok'] ok' V(1) F(1)
    by (simp add: call) (simp add: out_ok_def set_vbus_def blocks_ok_def owned_def no_blocks_def)
qed

lemma queue_out_ok:
  assumes st: "staged L m" and regs: "vp_regs (vbus m) \<noteq> 0"
  shows "out_ok L (let (rc, m4) = eventq_ioq_init QLEN m
               in if \<not> NT_SUCCESS rc then Some (out_fail rc m4)
                  else ret_bind (eventq_init H QLEN m4) (\<lambda>(rc, m5).
                    if \<not> NT_SUCCESS rc then Some (out_fail rc m5)
                    else ret_bind (Some (vbus_pci_eventq_register H m5)) (\<lambda>(r, m6).
                      if r < 0 then Some (out_fail STATUS_DEVICE_PROTOCOL_ERROR m6)
                      else Some (Inr (STATUS_SUCCESS, set_vbus (\<lambda>V. V\<lparr>vp_enabled := 1\<rparr>) m6)))))"
proof -
  obtain rc m1 where init: "eventq_ioq_init QLEN m = (rc, m1)" by fastforce
  from eventq_ioq_init_cases [OF init st] show ?thesis
  proof
    assume "rc = STATUS_NO_MEMORY \<and> staged L m1 \<and> blocks_ok L m1"
    then show ?thesis using out_fail_ok [of L m1 rc] by (simp add: init)
  next
    assume A: "rc = STATUS_SUCCESS \<and> blocks_ok L m1 \<and> vp_ring (vbus m1) = 0 \<and> vp_head_desc (vbus m1) \<noteq> 0
      \<and> vp_lock (vbus m1) = vp_lock (vbus m) \<and> vp_regs (vbus m1) = vp_regs (vbus m)"
    then obtain rc2 m2 where run: "eventq_init H QLEN m1 = Some (Inr (rc2, m2))" and ok2: "blocks_ok L m2"
      and cases: "rc2 = STATUS_NO_MEMORY \<or> rc2 = STATUS_SUCCESS \<and> \<not> no_blocks (vbus m2)
        \<and> vp_lock (vbus m2) = vp_lock (vbus m1) \<and> vp_regs (vbus m2) = vp_regs (vbus m1)"
      using eventq_init_cases [of m m1 L H] init by blast
    have lock: "vp_lock (vbus m) \<noteq> 0" using st by (simp add: staged_def)
    from cases show ?thesis
    proof
      assume "rc2 = STATUS_NO_MEMORY"
      then show ?thesis using A run out_fail_ok [OF ok2, of rc2] by (simp add: init)
    next
      assume B: "rc2 = STATUS_SUCCESS \<and> \<not> no_blocks (vbus m2)
        \<and> vp_lock (vbus m2) = vp_lock (vbus m1) \<and> vp_regs (vbus m2) = vp_regs (vbus m1)"
      then show ?thesis
        using A run register_out_ok [OF ok2, of H] lock regs by (simp add: init)
    qed
  qed
qed

lemma prepare_device_out_ok:
  assumes st: "staged L m" and map: "\<And>a l. map_io H a l \<noteq> 0"
    and mem: "Some (CmResourceTypeMemory a l) \<in> set rt"
  shows "out_ok L (prepare_device H rt m)"
proof -
  obtain rc m1 where res: "vbus_pci_map_resources H rt m = (rc, m1)" by fastforce
  have st1: "staged L m1"
    using map_resources_staged [OF st] res by (simp add: vbus_pci_map_resources_def)
  show ?thesis
  proof (cases "NT_SUCCESS rc")
    case False
    then show ?thesis
      using out_fail_ok [OF staged_blocks [OF st1]] by (simp add: prepare_device_def res)
  next
    case True
    then have regs: "vp_regs (vbus m1) \<noteq> 0"
      using map_resources_regs [OF map] res mem by (fastforce simp: vbus_pci_map_resources_def)
    have lock: "vp_lock (vbus m1) \<noteq> 0" using st1 by (simp add: staged_def)
    obtain r2 m2 where open_: "vbus_pci_open H m1 = Inr (r2, m2)"
      unfolding slow_call_defs using bridgecall_returns [OF lock regs] by blast
    note F2 = bridgecall_staged [OF open_ [unfolded slow_call_defs]]
    obtain r3 m3 where fast: "vbus_pci_setup_fastcall H m2 = Inr (r3, m3)"
      unfolding slow_call_defs using bridgecall_returns [of m2] lock regs F2(1) by metis
    note F3 = bridgecall_staged [OF fast [unfolded slow_call_defs]]
    have st2: "staged L m2" and st3: "staged L m3" and regs3: "vp_regs (vbus m3) \<noteq> 0"
      using st1 F2 F3 regs by (simp_all add: staged_def)
    show ?thesis
      using True out_fail_ok [OF staged_blocks [OF st2]] out_fail_ok [OF staged_blocks [OF st3]]
        queue_out_ok [OF st3 regs3, of H]
      by (simp add: prepare_device_def res open_ fast)
  qed
qed

text \<open>What the framework promises of the objects it creates, and what the machine has.\<close>

definition host_ok :: "host \<Rightarrow> bool" where
  "host_ok H \<longleftrightarrow> (\<forall>l. NT_SUCCESS (fst (wdf_lock H l)) \<longrightarrow> snd (wdf_lock H l) \<noteq> 0) \<and> (\<forall>a l. map_io H a l \<noteq> 0)"

lemma prepare_out_ok:
  assumes H: "host_ok H" and off: "vp_enabled (vbus m) = 0" and none: "no_blocks (vbus m)"
    and mem: "Some (CmResourceTypeMemory a l) \<in> set rt"
  shows "out_ok (mset (m_live m)) (VbusPciPrepareHardware H dev rt m)"
proof -
  obtain r1 k1 where l1: "wdf_lock H Bridge_lock = (r1, k1)" by fastforce
  obtain r2 k2 where l2: "wdf_lock H Fast_lock = (r2, k2)" by fastforce
  let ?m = "set_vbus (\<lambda>V. V\<lparr>vp_lock := k1\<rparr>) (set_vbus (\<lambda>V. V\<lparr>vp_bus := Some dev\<rparr>) m)\<lparr>fastlock := k2\<rparr>"
  have "staged (mset (m_live m)) ?m" if "NT_SUCCESS r1"
    using H off none l1 that by (auto simp: host_ok_def staged_def set_vbus_def no_blocks_def dest!: spec [of _ Bridge_lock])
  then have "out_ok (mset (m_live m)) (prepare_device H rt ?m)" if "NT_SUCCESS r1"
    using prepare_device_out_ok [OF _ _ mem] H that by (simp add: host_ok_def)
  moreover have "out_ok (mset (m_live m)) (Some (Inr (rc, set_vbus f m)))"
    if "\<not> NT_SUCCESS rc" "vp_enabled (f (vbus m)) = 0" "no_blocks (f (vbus m))" for rc f
    using that by (simp add: out_ok_def set_vbus_def)
  moreover have "set_vbus g (set_vbus f m) = set_vbus (\<lambda>V. g (f V)) m" for f g
    by (simp add: set_vbus_def)
  ultimately show ?thesis
    using off none l1 l2
    by (simp add: VbusPciPrepareHardware_def no_blocks_def Let_def)
qed

lemma out_fail_status: "out_fail rc m = Inr (rc', m') \<Longrightarrow> rc' = rc"
  by (auto simp: out_fail_def)

text \<open>The last stages of a set-up that succeeded.\<close>

lemma prepare_device_success:
  assumes "prepare_device H rt m = Some (Inr (rc, m'))" and "NT_SUCCESS rc"
  shows "\<exists>m3 m4 rc4 m5 r m6. eventq_ioq_init QLEN m3 = (STATUS_SUCCESS, m4)
           \<and> eventq_init H QLEN m4 = Some (Inr (rc4, m5)) \<and> NT_SUCCESS rc4
           \<and> vbus_pci_eventq_register H m5 = Inr (r, m6) \<and> 0 \<le> r
           \<and> m' = set_vbus (\<lambda>V. V\<lparr>vp_enabled := 1\<rparr>) m6"
proof -
  obtain r0 m1 where res: "vbus_pci_map_resources H rt m = (r0, m1)" by fastforce
  have "NT_SUCCESS r0"
    using assms res by (auto simp: prepare_device_def dest: out_fail_status split: if_splits)
  with assms obtain r2 m2 where o: "vbus_pci_open H m1 = Inr (r2, m2)" "\<not> r2 < 0"
    using res by (auto simp: prepare_device_def ret_bind_eq_Inr dest: out_fail_status split: if_splits)
  with assms \<open>NT_SUCCESS r0\<close> obtain r3 m3 where f: "vbus_pci_setup_fastcall H m2 = Inr (r3, m3)" "r3 = 0"
    using res by (auto simp: prepare_device_def ret_bind_eq_Inr dest: out_fail_status split: if_splits)
  obtain r4 m4 where i: "eventq_ioq_init QLEN m3 = (r4, m4)" by fastforce
  have s4: "NT_SUCCESS r4"
    using assms \<open>NT_SUCCESS r0\<close> res o f i
    by (auto simp: prepare_device_def dest: out_fail_status split: if_splits)
  then have "r4 = STATUS_SUCCESS"
    using i by (auto simp: eventq_ioq_init_def Let_def split: prod.splits if_splits)
  with assms(1) \<open>NT_SUCCESS r0\<close> res o f i obtain r5 m5
    where e: "eventq_init H QLEN m4 = Some (Inr (r5, m5))"
      and rest: "(if \<not> NT_SUCCESS r5 then Some (out_fail r5 m5)
        else ret_bind (Some (vbus_pci_eventq_register H m5)) (\<lambda>(r, m6).
          if r < 0 then Some (out_fail STATUS_DEVICE_PROTOCOL_ERROR m6)
          else Some (Inr (STATUS_SUCCESS, set_vbus (\<lambda>V. V\<lparr>vp_enabled := 1\<rparr>) m6)))) = Some (Inr (rc, m'))"
    by (auto simp: prepare_device_def ret_bind_eq_Inr)
  have s5: "NT_SUCCESS r5"
    using rest assms(2) by (auto dest: out_fail_status split: if_splits)
  obtain r6 m6 where q: "vbus_pci_eventq_register H m5 = Inr (r6, m6)"
    using rest s5 by (auto simp: ret_bind_eq_Inr)
  have "0 \<le> r6"
    using rest s5 q assms(2) by (auto dest: out_fail_status split: if_splits)
  then have "m' = set_vbus (\<lambda>V. V\<lparr>vp_enabled := 1\<rparr>) m6"
    using rest s5 q by simp
  then show ?thesis
    using i \<open>r4 = STATUS_SUCCESS\<close> e s5 q \<open>0 \<le> r6\<close> by blast
qed

lemma evq_shape_enabled: "evq_shape (V\<lparr>vp_enabled := e\<rparr>) h evs = evq_shape V h evs"
  by (simp add: evq_shape_def)

section \<open>Properties\<close>


text \<open>When \<open>VbusPciPrepareHardware\<close> succeeds, the event queue is ready and the host knows it: 1024
  descriptors handed over, the in-use index empty, the notifier registered, the signal unmasked and clean, and the last call told the host the count and the
  physical addresses of ring and events; with the events below 4 GiB the queue is in the order that \<open>eventq_wakeup\<close> needs.\<close>

theorem prepare_success_ready:
  assumes "VbusPciPrepareHardware H dev rt m = Some (Inr (rc, m'))" and "NT_SUCCESS rc"
  shows "vp_enabled (vbus m') = 1 \<and> queued m' = []
       \<and> ring (m_head m') = map (event_desc H (vp_ring (vbus m'))) [0..<QLEN]
       \<and> q_notifier (vp_eventq (vbus m')) = Some Eventq_wakeup
       \<and> irq (h_signal (m_head m')) shm_locality_north = \<lparr>enabled = 1, pending = 0, dirty = 0\<rparr>
       \<and> Write_register_buffer (vp_regs (vbus m'))
           (desc_words \<lparr>c_vector = bridge_val VBUS_PCI_BRIDGE_QREG, c_len = of_nat sizeof_busreg,
                        c_datap = pa H (va_params H)\<rparr>)
           (Busreg 1 [(of_nat QLEN, pa H (vp_head_desc (vbus m')), pa H (vp_ring (vbus m')))])
         \<in> set (m_io m')
       \<and> (unat (vp_ring (vbus m')) + QLEN * sizeof_event \<le> 2 ^ 32 \<longrightarrow> evq_ok m')"
proof -
  have "\<exists>m2. prepare_device H rt m2 = Some (Inr (rc, m'))"
    using assms by (auto simp: VbusPciPrepareHardware_def Let_def split: if_splits prod.splits)
  then obtain m3 m4 rc4 m5 r m6 where init: "eventq_ioq_init QLEN m3 = (STATUS_SUCCESS, m4)"
    and run: "eventq_init H QLEN m4 = Some (Inr (rc4, m5))" "NT_SUCCESS rc4"
    and reg: "vbus_pci_eventq_register H m5 = Inr (r, m6)" and m': "m' = set_vbus (\<lambda>V. V\<lparr>vp_enabled := 1\<rparr>) m6"
    using prepare_device_success assms(2) by blast
  obtain p m5a where alloc: "VbusAlloc m4 = (p, m5a)" by fastforce
  have p: "p \<noteq> 0"
    using run alloc by (auto simp: eventq_init_def)
  from setup_state [OF init alloc p qlen_small, of H] obtain h
    where m5: "m5 = m5a\<lparr>vbus := ready_vbus (vbus m4) p, m_events := replicate QLEN event_zero, m_head := h\<rparr>"
      and S: "ring (m_head m5) = map (event_desc H p) [0..<QLEN]" "queued m5 = []"
        "q_notifier (vp_eventq (vbus m5)) = Some Eventq_wakeup"
        "irq (h_signal (m_head m5)) shm_locality_north = \<lparr>enabled = 1, pending = 0, dirty = 0\<rparr>"
        "unat p + QLEN * sizeof_event \<le> 2 ^ 32 \<longrightarrow> evq_ok m5"
    using run(1) unfolding Let_def by auto
  have ring: "vp_ring (vbus m5) = p" by (simp add: m5 ready_vbus_def)
  note F = bridgecall_staged [OF reg [unfolded slow_call_defs]]
  have io: "Write_register_buffer (vp_regs (vbus m5))
      (desc_words \<lparr>c_vector = bridge_val VBUS_PCI_BRIDGE_QREG, c_len = of_nat sizeof_busreg,
                   c_datap = pa H (va_params H)\<rparr>)
      (Busreg 1 [(of_nat QLEN, pa H (vp_head_desc (vbus m5)), pa H (vp_ring (vbus m5)))]) \<in> set (m_io m6)"
    using reg by (auto simp: slow_call_defs bridgecall_eq Let_def split: if_splits)
  show ?thesis
    using S ring F io by (simp add: m' set_vbus_def queued_def evq_shape_enabled)
qed

text \<open>The set-up does not check that a memory range was mapped: with resources that hold
  none, for instance the interrupt alone, mapping reports success and the first bridgecall writes through the null pointer.\<close>

theorem prepare_without_memory_faults:
  assumes "vp_enabled (vbus m) = 0" and "vp_regs (vbus m) = 0" and "rt \<noteq> []" and "None \<notin> set rt"
    and "\<forall>a l. Some (CmResourceTypeMemory a l) \<notin> set rt" and "\<And>l. NT_SUCCESS (fst (wdf_lock H l))"
  shows "VbusPciPrepareHardware H dev rt m = Some (Inl NullDeref)"
proof -
  have map: "\<exists>m1. map_resources_from H rc ds m = (if ds = [] then rc else STATUS_SUCCESS, m1) \<and> vp_regs (vbus m1) = 0"
    if "vp_regs (vbus m) = 0" "set ds \<subseteq> set rt" for rc ds m
    using that
  proof (induction ds arbitrary: rc m)
    case (Cons d ds)
    obtain c where d: "d = Some c" "\<forall>a l. c \<noteq> CmResourceTypeMemory a l"
      using Cons.prems(2) assms(4,5) by (cases d) auto
    obtain m1 where m1: "vbus_pci_parse_resource H d m = (STATUS_SUCCESS, m1)" "vp_regs (vbus m1) = 0"
      using d Cons.prems(1) by (cases c) (auto simp: vbus_pci_parse_resource_def set_vbus_def)
    then show ?case
      using Cons.IH [OF m1(2), of STATUS_SUCCESS] Cons.prems(2) by auto
  qed simp
  have "prepare_device H rt m1 = Some (Inl NullDeref)" if "vp_regs (vbus m1) = 0" for m1
    using map [OF that, of rt STATUS_DEVICE_CONFIGURATION_ERROR] assms(3)
    by (auto simp: prepare_device_def vbus_pci_map_resources_def vbus_pci_open_def bridgecall_eq)
  then show ?thesis
    using assms(1,2) assms(6) [of Bridge_lock] assms(6) [of Fast_lock]
    by (cases "wdf_lock H Bridge_lock"; cases "wdf_lock H Fast_lock")
      (simp add: VbusPciPrepareHardware_def set_vbus_def Let_def)
qed

section \<open>Histories\<close>

text \<open>The calls of the framework that manage the device, in any order.\<close>

inductive pnp :: "host \<Rightarrow> machine \<Rightarrow> machine \<Rightarrow> bool" for H where
  create: "VbusPciCreateResources H m = (rc, m') \<Longrightarrow> pnp H m m'"
| prepare: "Some (CmResourceTypeMemory a l) \<in> set rt \<Longrightarrow>
    VbusPciPrepareHardware H dev rt m = Some (Inr (rc, m')) \<Longrightarrow> pnp H m m'"
| release: "VbusPciReleaseHardware m = Inr (rc, m') \<Longrightarrow> pnp H m m'"
| d0_exit: "VbusPciD0Exit m = Inr (rc, m') \<Longrightarrow> pnp H m m'"
| isr: "eventq_intr_isr m = Inr (b, m') \<Longrightarrow> pnp H m m'"

definition pnp_inv :: "UINT64 multiset \<Rightarrow> machine \<Rightarrow> bool" where
  "pnp_inv L m \<longleftrightarrow> blocks_ok L m \<and> (vp_enabled (vbus m) = 0 \<longrightarrow> no_blocks (vbus m))"

lemma prepare_inv:
  assumes "host_ok H" and "pnp_inv L m" and "Some (CmResourceTypeMemory a l) \<in> set rt"
    and "VbusPciPrepareHardware H dev rt m = Some (Inr (rc, m'))"
  shows "pnp_inv L m'"
proof (cases "vp_enabled (vbus m) = 0")
  case True
  then have "no_blocks (vbus m)" and "mset (m_live m) = L"
    using assms(2) by (auto simp: pnp_inv_def blocks_ok_def)
  then show ?thesis
    using prepare_out_ok [OF assms(1) True _ assms(3), of dev] assms(4)
    by (auto simp: out_ok_def pnp_inv_def blocks_ok_def split: if_splits)
next
  case False
  then show ?thesis using assms(2,4) by (simp add: VbusPciPrepareHardware_def)
qed

lemma pnp_step_inv:
  assumes "pnp H m m'" and "host_ok H" and "pnp_inv L m"
  shows "pnp_inv L m'"
  using assms
proof (induction rule: pnp.induct)
  case (create m rc m')
  then show ?case
    by (auto simp: VbusPciCreateResources_def set_vbus_def pnp_inv_def blocks_ok_def owned_def no_blocks_def
        split: prod.splits if_splits)
next
  case (prepare a l rt dev m rc m')
  then show ?case using prepare_inv by blast
next
  case (release m rc m')
  then show ?case
    using cleanup_ok [of L m] by (auto simp: VbusPciReleaseHardware_def pnp_inv_def blocks_ok_def)
next
  case (d0_exit m rc m')
  then show ?case
    by (auto simp: VbusPciD0Exit_def eventq_disable_def pnp_inv_def blocks_ok_def split: if_splits)
next
  case (isr m b m')
  then show ?case
    by (auto simp: eventq_intr_isr_def eventq_disable_def pnp_inv_def blocks_ok_def split: if_splits)
qed

text \<open>Over any history of creating, preparing, failing to prepare, preparing twice, interrupting, powering
  down and releasing the device, the blocks it holds are exactly those its pointers name: a device that is off holds none, and a release at
  any point neither faults nor frees twice, clears the global and leaves exactly the blocks live that were live at the start.\<close>

theorem pnp_never_leaks:
  assumes "host_ok H" and "vbus m = vbus_pci_zero" and "(pnp H)\<^sup>*\<^sup>* m m'"
  shows "(vp_enabled (vbus m') = 0 \<longrightarrow> mset (m_live m') = mset (m_live m))
       \<and> (\<exists>m''. VbusPciReleaseHardware m' = Inr (STATUS_SUCCESS, m'') \<and> vbus m'' = vbus_pci_zero
            \<and> mset (m_live m'') = mset (m_live m))"
proof -
  have "pnp_inv (mset (m_live m)) m"
    using assms(2) by (simp add: pnp_inv_def blocks_ok_def)
  with assms(3) have inv: "pnp_inv (mset (m_live m)) m'"
    by (induction rule: rtranclp_induct) (blast intro: pnp_step_inv [OF _ assms(1)])+
  then show ?thesis
    using cleanup_ok [of "mset (m_live m)" m'] by (auto simp: VbusPciReleaseHardware_def pnp_inv_def blocks_ok_def)
qed

section \<open>Witnesses\<close>

text \<open>A device that was never prepared, and a pool that answers three requests.\<close>

definition demo_off :: "UINT64 list \<Rightarrow> machine" where
  "demo_off pool = (demo_fresh pool)\<lparr>vbus := vbus_pci_zero\<rparr>"

definition demo_rt :: cm_resource_list where
  "demo_rt = [Some (CmResourceTypePort 0xC000 32), Some (CmResourceTypeMemory 0xFE000000 4096)]"

lemma demo_host_ok: "host_ok demo_host"
  by (simp add: host_ok_def demo_host_def)

lemma demo_off_simps [simp]:
  "vp_enabled (vbus (demo_off pool)) = 0" "no_blocks (vbus (demo_off pool))" "vbus (demo_off pool) = vbus_pci_zero"
  "m_live (demo_off pool) = []" "m_pool (demo_off pool) = pool" "vp_regs (vbus (demo_off pool)) = 0"
  by (simp_all add: demo_off_def demo_fresh_def demo_machine_def vbus_pci_zero_def no_blocks_def)

lemma demo_rt_mem: "Some (CmResourceTypeMemory 0xFE000000 4096) \<in> set demo_rt"
  by (simp add: demo_rt_def)

lemma demo_prepare:
  "\<exists>m'. VbusPciPrepareHardware demo_host 7 demo_rt (demo_off [0x1000, 0x2000, 0x3000]) =
     Some (Inr (STATUS_SUCCESS, m'))"
proof -
  let ?H = demo_host
  have reply: "sint (hc_bridge ?H es) = 0" for es by (simp add: demo_host_def)
  define m0 where "m0 = set_vbus (\<lambda>V. V\<lparr>vp_lock := 1\<rparr>)
    (set_vbus (\<lambda>V. V\<lparr>vp_bus := Some 7\<rparr>) (demo_off [0x1000, 0x2000, 0x3000]))\<lparr>fastlock := 1\<rparr>"
  define m1 where "m1 = set_vbus (\<lambda>V. V\<lparr>vp_regs := 0xE000, vp_regs_length := 4096\<rparr>)
    (set_vbus (\<lambda>V. V\<lparr>vp_signals := 0xC000, vp_signals_length := 32\<rparr>) m0)"
  have res: "vbus_pci_map_resources ?H demo_rt m0 = (STATUS_SUCCESS, m1)"
    by (simp add: vbus_pci_map_resources_def demo_rt_def vbus_pci_parse_resource_def m1_def demo_host_def)
  have V1: "vp_lock (vbus m1) = 1" "vp_regs (vbus m1) = 0xE000" "m_pool m1 = [0x1000, 0x2000, 0x3000]"
    by (simp_all add: m1_def m0_def set_vbus_def)
  have call: "\<exists>m'. vbus_pci_bridgecall ?H nr p d l m = Inr (0, m') \<and> vbus m' = vbus m \<and> m_pool m' = m_pool m"
    if "vp_lock (vbus m) = 1" "vp_regs (vbus m) = 0xE000" for nr p d l m
    using that by (simp add: bridgecall_eq Let_def reply)
  obtain m2 where o: "vbus_pci_open ?H m1 = Inr (0, m2)" "vbus m2 = vbus m1" "m_pool m2 = m_pool m1"
    unfolding slow_call_defs using call V1 by blast
  obtain m3 where f: "vbus_pci_setup_fastcall ?H m2 = Inr (0, m3)" "vbus m3 = vbus m1" "m_pool m3 = m_pool m1"
    unfolding slow_call_defs using call [of m2] V1 o by metis
  obtain m4 where i: "eventq_ioq_init QLEN m3 = (STATUS_SUCCESS, m4)" "m_pool m4 = [0x3000]"
    "vp_lock (vbus m4) = 1" "vp_regs (vbus m4) = 0xE000"
    using f V1 by (simp add: eventq_ioq_init_def VbusAlloc_eq Let_def signal_init_def)
  obtain m5a where a: "VbusAlloc m4 = (0x3000, m5a)"
    using i(2) by (simp add: VbusAlloc_eq)
  obtain h where e: "eventq_init ?H QLEN m4 = Some (Inr (STATUS_SUCCESS,
      m5a\<lparr>vbus := ready_vbus (vbus m4) 0x3000, m_events := replicate QLEN event_zero, m_head := h\<rparr>))"
    using setup_state [OF i(1) a _ qlen_small, of ?H] unfolding Let_def by auto
  let ?m5 = "m5a\<lparr>vbus := ready_vbus (vbus m4) 0x3000, m_events := replicate QLEN event_zero, m_head := h\<rparr>"
  obtain m6 where q: "vbus_pci_eventq_register ?H ?m5 = Inr (0, m6)"
    unfolding slow_call_defs using call [of ?m5] i(3,4) by (simp add: ready_vbus_def) metis
  have "prepare_device ?H demo_rt m0 = Some (Inr (STATUS_SUCCESS, set_vbus (\<lambda>V. V\<lparr>vp_enabled := 1\<rparr>) m6))"
    by (simp add: prepare_device_def res o f i e q)
  moreover have "wdf_lock ?H l = (STATUS_SUCCESS, 1)" for l by (simp add: demo_host_def)
  ultimately show ?thesis
    by (simp add: VbusPciPrepareHardware_def vbus_pci_zero_def Let_def flip: m0_def)
qed


lemma prepare_success_ready_witness:
  "\<exists>m'. VbusPciPrepareHardware demo_host 7 demo_rt (demo_off [0x1000, 0x2000, 0x3000]) = Some (Inr (STATUS_SUCCESS, m'))
     \<and> vp_enabled (vbus m') = 1 \<and> length (ring (m_head m')) = 1024"
proof -
  obtain m' where m': "VbusPciPrepareHardware demo_host 7 demo_rt (demo_off [0x1000, 0x2000, 0x3000]) =
      Some (Inr (STATUS_SUCCESS, m'))"
    using demo_prepare by blast
  then show ?thesis
    using prepare_success_ready [OF m' NT_SUCCESS_codes(1)] by (simp add: QLEN_def)
qed

lemma prepare_without_memory_faults_witness:
  "VbusPciPrepareHardware demo_host 7 [Some CmResourceTypeInterrupt] (demo_off []) = Some (Inl NullDeref)"
  by (rule prepare_without_memory_faults) (simp_all add: demo_host_def vbus_pci_zero_def)

lemma pnp_never_leaks_witness:
  "\<exists>m' m''. VbusPciPrepareHardware demo_host 7 demo_rt (demo_off [0x1000, 0x2000, 0x3000]) = Some (Inr (STATUS_SUCCESS, m'))
     \<and> VbusPciReleaseHardware m' = Inr (STATUS_SUCCESS, m'') \<and> m_live m'' = []"
proof -
  obtain m' where m': "VbusPciPrepareHardware demo_host 7 demo_rt (demo_off [0x1000, 0x2000, 0x3000]) =
      Some (Inr (STATUS_SUCCESS, m'))"
    using demo_prepare by blast
  have "(pnp demo_host)\<^sup>*\<^sup>* (demo_off [0x1000, 0x2000, 0x3000]) m'"
    using pnp.prepare [OF demo_rt_mem m'] by (rule r_into_rtranclp)
  then show ?thesis
    using pnp_never_leaks [OF demo_host_ok demo_off_simps(3)] m' by fastforce
qed

end
