(* ===== verification/Vbus_Interface.thy ===== *)
theory Vbus_Interface
  imports Pci_Lifecycle
begin

text \<open>
  What the bus driver offers its children: the creation of a child device (\<open>windows/vbus/pdo.c\<close>),
  the interface a child queries (\<open>windows/vbus/interface.c\<close>) and the proxies that act on a child's
  handle (\<open>VbusProxyDeviceCall\<close> and \<open>VbusProxyDeviceShm\<close> in \<open>windows/vbus/pci.c\<close>). A child is its
  position in \<open>m_children\<close>; the framework zeroes its context. The lemmas show the check on the
  embedded signal descriptor, and that the handle and the list head the proxies rely on are
  never set.
\<close>

section \<open>Child devices\<close>

record pdo_id_desc =
  d_id :: UINT64
  d_type :: "UINT8 list"

definition VbusIdDup :: "pdo_id_desc \<Rightarrow> pdo_id_desc \<Rightarrow> NTSTATUS \<times> pdo_id_desc" where
  "VbusIdDup src dst = (STATUS_SUCCESS, dst\<lparr>d_id := d_id src, d_type := take VBUS_MAX_DEVTYPE_LEN (d_type src)\<rparr>)"

definition VbusIdCmp :: "pdo_id_desc \<Rightarrow> pdo_id_desc \<Rightarrow> bool" where
  "VbusIdCmp l r \<longleftrightarrow> d_id l = d_id r"

text \<open>The framework calls that can fail, with the strings the driver builds.\<close>

datatype pdo_call =
    AssignDeviceID "UINT8 list"
  | AddHardwareID "UINT8 list"
  | AddCompatibleID "UINT8 list"
  | AssignInstanceID int
  | AddDeviceText int
  | DeviceCreate
  | AddQueryInterface

text \<open>The characters of \<open>VBUS\\<close>.\<close>

definition vbus_location :: "UINT8 list" where
  "vbus_location = [0x56, 0x42, 0x55, 0x53, 0x5C]"

text \<open>\<open>RtlInitAnsiString\<close> reads up to the terminator, wherever that is.\<close>

definition type_string :: "UINT8 list \<Rightarrow> UINT8 list outcome" where
  "type_string t = (if 0 \<in> set t then Inr (takeWhile (\<lambda>c. c \<noteq> 0) t) else Inl OutOfBounds)"

text \<open>Calls in order, up to the first that fails.\<close>

fun pdo_calls :: "(pdo_call \<Rightarrow> NTSTATUS) \<Rightarrow> pdo_call list \<Rightarrow> NTSTATUS" where
  "pdo_calls fw [] = STATUS_SUCCESS"
| "pdo_calls fw (c # cs) = (if \<not> NT_SUCCESS (fw c) then fw c else pdo_calls fw cs)"

definition pdo_zero :: pdo_data where
  "pdo_zero = \<lparr>pd_shms = None, pd_handle = 0, pd_id = 0, pd_type = replicate VBUS_MAX_DEVTYPE_LEN 0, pd_bh = 0\<rparr>"

text \<open>Working, the four sleeping states up to hibernation, and shutdown.\<close>

definition pdo_caps :: "pdo_id_desc \<Rightarrow> child_caps" where
  "pdo_caps d = \<lparr>cc_removable = True, cc_eject = True, cc_surprise_ok = True, cc_address = ucast (d_id d),
     cc_ui_number = ucast (d_id d), cc_d1 = True, cc_wake_from_d1 = True, cc_device_wake = PowerDeviceD1,
     cc_states = [PowerDeviceD1, PowerDeviceD1, PowerDeviceD2, PowerDeviceD2, PowerDeviceD3, PowerDeviceD3]\<rparr>"

definition VbusCreatePdo :: "(pdo_call \<Rightarrow> NTSTATUS) \<Rightarrow> pdo_id_desc \<Rightarrow> machine \<Rightarrow> (NTSTATUS \<times> machine) outcome" where
  "VbusCreatePdo fw d m =
     bind_ok (type_string (d_type d)) (\<lambda>t.
       let hwid = vbus_location @ t;
           i = sint (ucast (d_id d) :: 32 word);
           rc = pdo_calls fw [AssignDeviceID hwid, AddHardwareID hwid, AddCompatibleID hwid,
                              AssignInstanceID i, AddDeviceText i, DeviceCreate]
       in if \<not> NT_SUCCESS rc then Inr (rc, m)
          else
            let pd = pdo_zero\<lparr>pd_id := d_id d, pd_type := take VBUS_MAX_DEVTYPE_LEN (d_type d)\<rparr>;
                m1 = io (Child_capabilities (pdo_caps d)) (m\<lparr>m_children := m_children m @ [pd]\<rparr>)
            in Inr (fw AddQueryInterface, m1))"

definition VbusDevicePdo :: "(pdo_call \<Rightarrow> NTSTATUS) \<Rightarrow> pdo_id_desc \<Rightarrow> machine \<Rightarrow> (NTSTATUS \<times> machine) outcome" where
  "VbusDevicePdo fw d m = VbusCreatePdo fw d m"

text \<open>\<open>PdoGetData\<close> for child \<open>i\<close>.\<close>

definition pdo_get :: "nat \<Rightarrow> machine \<Rightarrow> pdo_data outcome" where
  "pdo_get i m = (if i < length (m_children m) then Inr (m_children m ! i) else Inl NullDeref)"

definition pdo_set :: "nat \<Rightarrow> pdo_data \<Rightarrow> machine \<Rightarrow> machine" where
  "pdo_set i pd m = m\<lparr>m_children := (m_children m)[i := pd]\<rparr>"

section \<open>Proxies\<close>

definition sizeof_devicecall :: nat where "sizeof_devicecall = 32"
definition sizeof_deviceshm :: nat where "sizeof_deviceshm = 48"
definition sizeof_deviceopen :: nat where "sizeof_deviceopen = 16"
definition sizeof_shm_signal_desc :: UINT64 where "sizeof_shm_signal_desc = 16"

definition VbusProxyDeviceCall ::
  "host \<Rightarrow> nat \<Rightarrow> UINT32 \<Rightarrow> UINT64 \<Rightarrow> size_t \<Rightarrow> UINT32 \<Rightarrow> machine \<Rightarrow> (NTSTATUS \<times> machine) outcome" where
  "VbusProxyDeviceCall H i func data len flags m =
     bind_ok (pdo_get i m) (\<lambda>pd.
       if pd_handle pd = 0 then Inr (STATUS_INVALID_HANDLE, m)
       else
         bind_ok (vbus_pci_buscall H (hc_val VBUS_PCI_HC_DEVCALL) (va_params H)
                    (Device_call (pd_handle pd) func (ucast len) flags (pa H data))
                    (of_nat sizeof_devicecall) m)
           (\<lambda>(rc, _, m1). Inr (if rc < 0 then STATUS_INVALID_DEVICE_REQUEST else STATUS_SUCCESS, m1)))"

text \<open>The check that the signal descriptor is embedded in the block of the caller.\<close>

definition sdesc_bad :: "UINT64 \<Rightarrow> size_t \<Rightarrow> UINT64 \<Rightarrow> bool" where
  "sdesc_bad ptr len sdesc \<longleftrightarrow>
     sdesc = 0 \<or> len < sizeof_shm_signal_desc \<or> sdesc < ptr \<or> sdesc > ptr + len - sizeof_shm_signal_desc"

text \<open>\<open>InsertTailList\<close> writes through the back link of the head.\<close>

definition shms_insert :: "UINT64 \<Rightarrow> pdo_data \<Rightarrow> pdo_data outcome" where
  "shms_insert p pd = (case pd_shms pd of None \<Rightarrow> Inl NullDeref | Some ps \<Rightarrow> Inr (pd\<lparr>pd_shms := Some (ps @ [p])\<rparr>))"

text \<open>The exit \<open>fail\<close>.\<close>

definition shm_fail :: "UINT64 \<Rightarrow> NTSTATUS \<Rightarrow> machine \<Rightarrow> (NTSTATUS \<times> UINT64 option \<times> machine) outcome" where
  "shm_fail p status m =
     bind_ok (VbusFree p m) (\<lambda>m1. Inr (status, None, if p = 0 then m1 else m1\<lparr>m_sigs := (m_sigs m1)(p := None)\<rparr>))"

text \<open>
  \<open>sdesc\<close> is the address of a descriptor with contents \<open>sd\<close>; \<open>want\<close> says that the caller passed
  a place for the signal. The result has the signal the caller gets.
\<close>

definition VbusProxyDeviceShm ::
  "host \<Rightarrow> nat \<Rightarrow> UINT32 \<Rightarrow> UINT64 \<Rightarrow> size_t \<Rightarrow> UINT64 \<Rightarrow> shm_signal_desc \<Rightarrow> bool \<Rightarrow> UINT32 \<Rightarrow> machine
   \<Rightarrow> (NTSTATUS \<times> UINT64 option \<times> machine) outcome" where
  "VbusProxyDeviceShm H i prio ptr len sdesc sd want flags m =
     bind_ok (pdo_get i m) (\<lambda>pd.
       if pd_handle pd = 0 then Inr (STATUS_INVALID_HANDLE, None, m)
       else if want \<and> sdesc_bad ptr len sdesc then Inr (STATUS_INVALID_PARAMETER, None, m)
       else
         let (p, m1) = (if want then VbusAlloc m else (0, m))
         in if want \<and> p = 0 then Inr (STATUS_NO_MEMORY, None, m1)
            else
              let (sd', sg) = signal_init sd Signal_ops;
                  s = \<lparr>sg_signal = sg, sg_desc = sd', sg_handle = 0, sg_refCount = 0\<rparr>;
                  m2 = (if want then sig_write p (s\<lparr>sg_refCount := sg_refCount s + 1\<rparr>) m1 else m1);
                  offset = (if want then ucast (ulong_cast sdesc - ulong_cast ptr) else - 1);
                  params = Device_shm (pd_handle pd) (ucast (pd_id pd)) (ucast len) flags offset
                             (if want then Some (prio, ulong_cast p) else None) (pa H ptr)
              in bind_ok (vbus_pci_buscall H (hc_val VBUS_PCI_HC_DEVSHM) (va_params H) params
                            (of_nat sizeof_deviceshm) m2)
                   (\<lambda>(rc, _, m3).
                      if rc < 0 then shm_fail p STATUS_INVALID_DEVICE_REQUEST m3
                      else if \<not> want then Inr (STATUS_SUCCESS, None, m3)
                      else
                        let (status, _) = wdf_interrupt H
                        in if \<not> NT_SUCCESS status then shm_fail p status m3
                           else
                             bind_ok (acquire Bridge_lock (vp_lock (vbus m3)) m3) (\<lambda>m4.
                             bind_ok (shms_insert p pd) (\<lambda>pd'.
                               Inr (STATUS_SUCCESS, Some p, io (Release Bridge_lock) (pdo_set i pd' m4))))))"

section \<open>The interface of a child\<close>

text \<open>The caller's handle variable is an argument and a result: the function is passed its address.\<close>

definition VbusInterfaceOpen ::
  "host \<Rightarrow> nat \<Rightarrow> UINT32 \<Rightarrow> UINT64 \<Rightarrow> machine \<Rightarrow> (int \<times> UINT64 \<times> machine) outcome" where
  "VbusInterfaceOpen H i version bh m =
     bind_ok (pdo_get i m) (\<lambda>pd.
     bind_ok (VbusBusCall H (hc_val VBUS_PCI_HC_DEVOPEN) (va_params H)
                (Device_open (ucast (pd_id pd)) version 0) (of_nat sizeof_deviceopen) m)
       (\<lambda>(rc, params, m1).
          if rc < 0 then Inr (-1, bh, m1)
          else
            let h = (case params of Device_open _ _ h \<Rightarrow> h | _ \<Rightarrow> 0)
            in Inr (rc, bh, pdo_set i (pd\<lparr>pd_bh := h\<rparr>) m1)))"

definition VbusInterfaceClose :: "host \<Rightarrow> UINT64 \<Rightarrow> machine \<Rightarrow> machine outcome" where
  "VbusInterfaceClose H bh m =
     (if bh \<noteq> 0
      then bind_ok (VbusBusCall H (hc_val VBUS_PCI_HC_DEVCLOSE) (va_params H) (Device_handle bh) 8 m)
             (\<lambda>(_, _, m1). Inr m1)
      else Inr m)"

definition VbusInterfaceCall ::
  "host \<Rightarrow> UINT64 \<Rightarrow> UINT32 \<Rightarrow> UINT64 \<Rightarrow> UINT8 list \<Rightarrow> UINT32 \<Rightarrow> UINT32 \<Rightarrow> machine
   \<Rightarrow> (int \<times> hc_data \<times> machine) outcome" where
  "VbusInterfaceCall H bh type p data len flags m = VbusBusCall H type p (Client_memory data) len m"

text \<open>\<open>struct _IO\<close> without the ring, which nobody initialises.\<close>

record ioh =
  io_type :: UINT32
  io_context :: UINT64
  io_notify :: UINT64

definition VbusInterfaceCreate ::
  "UINT64 \<Rightarrow> UINT32 \<Rightarrow> UINT64 \<Rightarrow> UINT32 \<Rightarrow> UINT64 \<Rightarrow> machine \<Rightarrow> UINT64 \<times> ioh option \<times> machine" where
  "VbusInterfaceCreate bh qlen data type func m =
     (let (p, m1) = VbusAlloc m
      in (p, if p \<noteq> 0 then Some \<lparr>io_type = type, io_context = data, io_notify = func\<rparr> else None, m1))"

definition VbusInterfaceDestroy :: "UINT64 \<Rightarrow> machine \<Rightarrow> machine outcome" where
  "VbusInterfaceDestroy handle m = (if handle \<noteq> 0 then VbusFree handle m else Inr m)"

text \<open>Queue control, seek, send and receive report success and do nothing.\<close>

definition VbusInterfaceIoqctl :: "UINT64 \<Rightarrow> UINT32 \<Rightarrow> int" where "VbusInterfaceIoqctl handle oper = 0"
definition VbusInterfaceSeek :: "UINT64 \<Rightarrow> UINT32 \<Rightarrow> int" where "VbusInterfaceSeek handle offset = 0"
definition VbusInterfaceSend :: "UINT64 \<Rightarrow> UINT64 \<Rightarrow> UINT32 \<Rightarrow> int" where "VbusInterfaceSend handle data len = 0"
definition VbusInterfaceRecv :: "UINT64 \<Rightarrow> int" where "VbusInterfaceRecv handle = 0"

section \<open>Lemmas\<close>

lemma buscall_frame:
  assumes "vbus_pci_buscall H nr p data len m = Inr (rc, d, m')"
  shows "m_children m' = m_children m" and "vbus m' = vbus m" and "m_sigs m' = m_sigs m" and "m_live m' = m_live m"
    and "m_io m' = m_io m @ [Acquire Fast_lock, Write_port_call (va_signals H) 0 data, Release Fast_lock]"
    and "m_head m' = m_head m" and "m_events m' = m_events m"
  using assms by (auto simp: vbus_pci_buscall_def acquire_def Let_def split: if_splits prod.splits)

lemma nth_updated_in_set: "x \<in> set (xs[i := y]) \<Longrightarrow> x = y \<or> x \<in> set xs"
  using set_update_subset_insert [of xs i y] by blast

section \<open>Children that nobody opened\<close>

text \<open>No operation writes a child's handle or initialises its list of signals.\<close>

definition pdo_bare :: "machine \<Rightarrow> bool" where
  "pdo_bare m \<longleftrightarrow> (\<forall>pd\<in>set (m_children m). pd_handle pd = 0 \<and> pd_shms pd = None)"

inductive bus_step :: "host \<Rightarrow> machine \<Rightarrow> machine \<Rightarrow> bool" for H where
  pdo_step: "VbusDevicePdo fw d m = Inr (rc, m') \<Longrightarrow> bus_step H m m'"
| open_step: "VbusInterfaceOpen H i v bh m = Inr (r, bh', m') \<Longrightarrow> bus_step H m m'"
| close_step: "VbusInterfaceClose H bh m = Inr m' \<Longrightarrow> bus_step H m m'"
| call_step: "VbusInterfaceCall H bh t p data len flags m = Inr (r, d, m') \<Longrightarrow> bus_step H m m'"
| create_step: "VbusInterfaceCreate bh qlen data t f m = (p, x, m') \<Longrightarrow> bus_step H m m'"
| destroy_step: "VbusInterfaceDestroy h m = Inr m' \<Longrightarrow> bus_step H m m'"
| proxy_call_step: "VbusProxyDeviceCall H i func p len flags m = Inr (rc, m') \<Longrightarrow> bus_step H m m'"
| proxy_shm_step: "VbusProxyDeviceShm H i prio p len sdesc sd want flags m = Inr (rc, s, m') \<Longrightarrow> bus_step H m m'"

lemma create_pdo_bare: "VbusCreatePdo fw d m = Inr (rc, m') \<Longrightarrow> pdo_bare m \<Longrightarrow> pdo_bare m'"
  by (auto simp: VbusCreatePdo_def pdo_bare_def pdo_zero_def Let_def split: if_splits)

lemma open_cases:
  assumes "VbusInterfaceOpen H i v bh m = Inr (r, bh', m')"
  obtains rc d m1 where "vbus_pci_buscall H (hc_val VBUS_PCI_HC_DEVOPEN) (va_params H)
      (Device_open (ucast (pd_id (m_children m ! i))) v 0) (of_nat sizeof_deviceopen) m = Inr (rc, d, m1)"
    and "i < length (m_children m)" and "bh' = bh" and "rc < 0" and "r = -1" and "m' = m1"
  | rc d m1 h where "vbus_pci_buscall H (hc_val VBUS_PCI_HC_DEVOPEN) (va_params H)
      (Device_open (ucast (pd_id (m_children m ! i))) v 0) (of_nat sizeof_deviceopen) m = Inr (rc, d, m1)"
    and "i < length (m_children m)" and "bh' = bh" and "0 \<le> rc" and "r = rc"
    and "m' = pdo_set i ((m_children m ! i)\<lparr>pd_bh := h\<rparr>) m1"
proof -
  have i: "i < length (m_children m)"
    using assms by (auto simp: VbusInterfaceOpen_def pdo_get_def split: if_splits)
  then have get: "pdo_get i m = Inr (m_children m ! i)" by (simp add: pdo_get_def)
  obtain rc d m1 where call: "vbus_pci_buscall H (hc_val VBUS_PCI_HC_DEVOPEN) (va_params H)
      (Device_open (ucast (pd_id (m_children m ! i))) v 0) (of_nat sizeof_deviceopen) m = Inr (rc, d, m1)"
    using assms unfolding VbusInterfaceOpen_def VbusBusCall_def get by auto
  show thesis
  proof (cases "rc < 0")
    case True
    then show thesis
      using that(1) [OF call i] assms unfolding VbusInterfaceOpen_def VbusBusCall_def get
      by (simp add: call del: hc_val.simps)
  next
    case False
    then show thesis
      using that(2) [OF call i] assms unfolding VbusInterfaceOpen_def VbusBusCall_def get
      by (simp add: call Let_def del: hc_val.simps) blast
  qed
qed

lemma pdo_set_bare:
  assumes "pdo_bare m" and "m_children m1 = m_children m" and "i < length (m_children m)"
  shows "pdo_bare (pdo_set i ((m_children m ! i)\<lparr>pd_bh := h\<rparr>) m1)"
proof -
  have "m_children m ! i \<in> set (m_children m)" using assms(3) by simp
  then show ?thesis
    using assms(1,2) by (auto simp: pdo_bare_def pdo_set_def dest!: nth_updated_in_set)
qed

lemma open_bare:
  assumes "VbusInterfaceOpen H i v bh m = Inr (r, bh', m')" and "pdo_bare m"
  shows "pdo_bare m'"
  using assms(1)
proof (cases rule: open_cases)
  case (1 rc d m1)
  then show ?thesis using assms(2) buscall_frame(1) [OF 1(1)] by (simp add: pdo_bare_def)
next
  case (2 rc d m1 h)
  then show ?thesis using pdo_set_bare [OF assms(2) buscall_frame(1) [OF 2(1)]] by simp
qed

lemma buscall_bare: "vbus_pci_buscall H nr p data len m = Inr (rc, d, m') \<Longrightarrow> pdo_bare m \<Longrightarrow> pdo_bare m'"
  by (simp add: pdo_bare_def buscall_frame(1))

lemma proxy_refused:
  assumes "pdo_bare m" and "i < length (m_children m)"
  shows "VbusProxyDeviceCall H i func data len flags m = Inr (STATUS_INVALID_HANDLE, m)"
    and "VbusProxyDeviceShm H i prio ptr len sdesc sd want flags m = Inr (STATUS_INVALID_HANDLE, None, m)"
  using assms by (auto simp: VbusProxyDeviceCall_def VbusProxyDeviceShm_def pdo_get_def pdo_bare_def)

lemma proxy_returns_index:
  "VbusProxyDeviceCall H i func data len flags m = Inr x \<Longrightarrow> i < length (m_children m)"
  "VbusProxyDeviceShm H i prio ptr len sdesc sd want flags m = Inr y \<Longrightarrow> i < length (m_children m)"
  by (auto simp: VbusProxyDeviceCall_def VbusProxyDeviceShm_def pdo_get_def split: if_splits)

lemma bus_step_bare:
  assumes "bus_step H m m'" and "pdo_bare m"
  shows "pdo_bare m'"
  using assms
proof (induction rule: bus_step.induct)
  case (pdo_step fw d m rc m')
  then show ?case using create_pdo_bare unfolding VbusDevicePdo_def by blast
next
  case (open_step i v bh m r bh' m')
  then show ?case by (rule open_bare)
next
  case (close_step bh m m')
  show ?case
  proof (cases "bh = 0")
    case False
    then obtain rc d where "vbus_pci_buscall H (hc_val VBUS_PCI_HC_DEVCLOSE) (va_params H) (Device_handle bh) 8 m =
        Inr (rc, d, m')"
      using close_step(1) by (auto simp: VbusInterfaceClose_def VbusBusCall_def)
    then show ?thesis using buscall_bare close_step(2) by blast
  qed (use close_step in \<open>simp add: VbusInterfaceClose_def\<close>)
next
  case (call_step bh t p data len flags m r d m')
  then show ?case using buscall_bare unfolding VbusInterfaceCall_def VbusBusCall_def by blast
next
  case (create_step bh qlen data t f m p x m')
  then show ?case by (auto simp: VbusInterfaceCreate_def pdo_bare_def dest!: VbusAllocD split: prod.splits)
next
  case (destroy_step h m m')
  then show ?case by (auto simp: VbusInterfaceDestroy_def VbusFree_def pdo_bare_def split: if_splits)
next
  case (proxy_call_step i func p len flags m rc m')
  then have "m' = m"
    using proxy_refused(1) [OF proxy_call_step(2) proxy_returns_index(1) [OF proxy_call_step(1)]]
    by (metis Inr_inject prod.inject)
  then show ?case using proxy_call_step(2) by simp
next
  case (proxy_shm_step i prio p len sdesc sd want flags m rc s m')
  then have "m' = m"
    using proxy_refused(2) [OF proxy_shm_step(2) proxy_returns_index(2) [OF proxy_shm_step(1)]]
    by (metis Inr_inject prod.inject)
  then show ?case using proxy_shm_step(2) by simp
qed

section \<open>Properties\<close>

text \<open>Claim C25. From a machine without children, whatever devices are enumerated, opened, called and closed
  through the interface, no child ever gets the handle the proxies test: \<open>VbusProxyDeviceCall\<close> and \<open>VbusProxyDeviceShm\<close> always return
  \<open>STATUS_INVALID_HANDLE\<close> and change nothing, since \<open>VbusInterfaceOpen\<close> stores the handle of the host in another field.\<close>

theorem proxies_never_reach_host:
  assumes "(bus_step H)\<^sup>*\<^sup>* m m'" and "m_children m = []" and "i < length (m_children m')"
  shows "VbusProxyDeviceCall H i func data len flags m' = Inr (STATUS_INVALID_HANDLE, m')
       \<and> VbusProxyDeviceShm H i prio ptr len sdesc sd want flags m' = Inr (STATUS_INVALID_HANDLE, None, m')"
proof -
  have "pdo_bare m" using assms(2) by (simp add: pdo_bare_def)
  with assms(1) have "pdo_bare m'"
    by (induction rule: rtranclp_induct) (blast intro: bus_step_bare)+
  then show ?thesis using proxy_refused assms(3) by blast
qed

text \<open>The check of \<open>VbusProxyDeviceShm\<close> on the signal descriptor accepts exactly the descriptors that
  lie inside the block of the caller, all 16 bytes of them, as long as the block does not wrap around the address space.\<close>

theorem sdesc_check_exact:
  assumes "unat ptr + unat len < 2 ^ 64"
  shows "\<not> sdesc_bad ptr len sdesc \<longleftrightarrow>
           sdesc \<noteq> 0 \<and> unat ptr \<le> unat sdesc \<and> unat sdesc + 16 \<le> unat ptr + unat len"
proof -
  have sum: "unat (ptr + len) = unat ptr + unat len"
    using assms by (simp add: unat_plus_if')
  have diff: "unat (ptr + len - 16) = unat ptr + unat len - 16" if "16 \<le> unat len"
    using that sum by (subst unat_sub) (simp_all add: word_le_nat_alt)
  show ?thesis
  proof (cases "16 \<le> unat len")
    case True
    then show ?thesis
      using diff [OF True] unfolding sdesc_bad_def sizeof_shm_signal_desc_def
      by (auto simp: word_less_nat_alt not_less)
  next
    case False
    then have "len < 16" by (simp add: word_less_nat_alt)
    moreover have "unat sdesc + 16 \<le> unat ptr + unat len \<Longrightarrow> unat sdesc < unat ptr"
      using False by linarith
    ultimately show ?thesis
      unfolding sdesc_bad_def sizeof_shm_signal_desc_def by (auto dest: leD)
  qed
qed

text \<open>\<open>VbusInterfaceOpen\<close> never writes the handle of the caller: whatever the host answers, the
  variable keeps its value and only the context of the child learns the handle; a caller that zeroed its variable then closes handle 0, and
  \<open>VbusInterfaceClose\<close> does not tell the host.\<close>

theorem open_handle_not_returned:
  assumes "VbusInterfaceOpen H i version bh m = Inr (rc, bh', m')"
  shows "bh' = bh \<and> (bh = 0 \<longrightarrow> VbusInterfaceClose H bh' m' = Inr m')
       \<and> (0 \<le> rc \<longrightarrow> (\<exists>h. m_children m' = (m_children m)[i := (m_children m ! i)\<lparr>pd_bh := h\<rparr>]))"
  using assms
proof (cases rule: open_cases)
  case (1 rc d m1)
  then show ?thesis by (simp add: VbusInterfaceClose_def)
next
  case (2 rc d m1 h)
  then show ?thesis
    using buscall_frame(1) [OF 2(1)] by (auto simp: VbusInterfaceClose_def pdo_set_def)
qed

text \<open>When the host accepts a shared-memory registration but the interrupt cannot be created,
  \<open>VbusProxyDeviceShm\<close> frees the signal and returns the error without telling the host, which keeps the signal's address as its cookie: the next
  signal event with that cookie is a use after free.\<close>

theorem shm_dead_cookie:
  assumes "i < length (m_children m)" and "pd_handle (m_children m ! i) \<noteq> 0" and "\<not> sdesc_bad ptr len sdesc"
    and "VbusAlloc m = (p, m1)" and "p \<noteq> 0" and "unat p < 2 ^ 32" and "fastlock m \<noteq> 0"
    and "\<And>log port fp d. hc_port H log port fp d = (fp\<lparr>f_result := 0\<rparr>, d)"
    and "wdf_interrupt H = (status, x)" and "\<not> NT_SUCCESS status"
    and "eventid e = 2" and "ev_word e = ulong_cast p"
  shows "\<exists>m' offset. VbusProxyDeviceShm H i prio ptr len sdesc sd True flags m = Inr (status, None, m')
       \<and> m_live m' = m_live m \<and> event_dispatch e m' = Inl UseAfterFree
       \<and> Write_port_call (va_signals H) 0 (Device_shm (pd_handle (m_children m ! i)) (ucast (pd_id (m_children m ! i)))
            (ucast len) flags offset (Some (prio, ulong_cast p)) (pa H ptr)) \<in> set (m_io m')"
proof -
  have p: "ulong_cast p = p" using assms(6) by (simp only: ulong_cast_id)
  show ?thesis
    using assms VbusAllocD [OF assms(4)] p
    by (auto simp: VbusProxyDeviceShm_def pdo_get_def signal_init_def vbus_pci_buscall_def acquire_def Let_def
        shm_fail_def VbusFree_def event_dispatch_def event_shmsignal_def signal_op_def sig_deref_def)
qed

text \<open>Where everything else succeeds, the registration itself faults: the list head of the child was never
  initialised, so \<open>InsertTailList\<close> writes through a null pointer while the bridge lock is held.\<close>

theorem shm_success_faults:
  assumes "i < length (m_children m)" and "pd_handle (m_children m ! i) \<noteq> 0" and "pd_shms (m_children m ! i) = None"
    and "\<not> sdesc_bad ptr len sdesc" and "VbusAlloc m = (p, m1)" and "p \<noteq> 0"
    and "fastlock m \<noteq> 0" and "vp_lock (vbus m) \<noteq> 0"
    and "\<And>log port fp d. hc_port H log port fp d = (fp\<lparr>f_result := 0\<rparr>, d)" and "NT_SUCCESS (fst (wdf_interrupt H))"
  shows "VbusProxyDeviceShm H i prio ptr len sdesc sd True flags m = Inl NullDeref"
  using assms VbusAllocD [OF assms(5)]
  by (cases "wdf_interrupt H")
    (simp add: VbusProxyDeviceShm_def pdo_get_def signal_init_def vbus_pci_buscall_def acquire_def Let_def shms_insert_def)

section \<open>Witnesses\<close>

text \<open>A machine with one child that somehow has a handle, and hosts that answer every fast call.\<close>

definition demo_bus :: "UINT64 \<Rightarrow> machine" where
  "demo_bus handle = (demo_fresh [0x4000])\<lparr>m_children := [pdo_zero\<lparr>pd_handle := handle, pd_id := 3\<rparr>]\<rparr>"

definition demo_answering :: "NTSTATUS \<Rightarrow> host" where
  "demo_answering status = demo_host\<lparr>hc_port := (\<lambda>_ _ fp d. (fp\<lparr>f_result := 0\<rparr>, d)), wdf_interrupt := (status, 1)\<rparr>"

lemma demo_bus_simps [simp]:
  "m_children (demo_bus h) = [pdo_zero\<lparr>pd_handle := h, pd_id := 3\<rparr>]" "m_live (demo_bus h) = []"
  "fastlock (demo_bus h) = 2" "vp_lock (vbus (demo_bus h)) = 1" "m_pool (demo_bus h) = [0x4000]"
  by (simp_all add: demo_bus_def demo_fresh_def demo_machine_def vbus_pci_zero_def)

lemma demo_alloc: "VbusAlloc (demo_bus h) = (0x4000, (demo_bus h)\<lparr>m_pool := [], m_live := [0x4000]\<rparr>)"
  by (simp add: VbusAlloc_eq)

lemma proxies_never_reach_host_witness:
  "\<exists>m'. VbusDevicePdo (\<lambda>_. STATUS_SUCCESS) \<lparr>d_id = 3, d_type = [0x76, 0]\<rparr> ((demo_bus 0)\<lparr>m_children := []\<rparr>) =
       Inr (STATUS_SUCCESS, m')
     \<and> VbusProxyDeviceCall demo_host 0 1 0x5000 16 0 m' = Inr (STATUS_INVALID_HANDLE, m')"
proof -
  obtain m' where m': "VbusDevicePdo (\<lambda>_. STATUS_SUCCESS) \<lparr>d_id = 3, d_type = [0x76, 0]\<rparr>
      ((demo_bus 0)\<lparr>m_children := []\<rparr>) = Inr (STATUS_SUCCESS, m')" and len: "length (m_children m') = 1"
    by (simp add: VbusDevicePdo_def VbusCreatePdo_def type_string_def)
  have "(bus_step demo_host)\<^sup>*\<^sup>* ((demo_bus 0)\<lparr>m_children := []\<rparr>) m'"
    using bus_step.pdo_step [OF m'] by (rule r_into_rtranclp)
  then show ?thesis
    using proxies_never_reach_host [of demo_host _ m' 0] m' len by simp
qed

lemma sdesc_check_exact_witness: "\<not> sdesc_bad 0x1000 0x100 0x10F0 \<and> sdesc_bad 0x1000 0x100 0x10F4"
  using sdesc_check_exact [of "0x1000" "0x100" "0x10F0"] sdesc_check_exact [of "0x1000" "0x100" "0x10F4"] by simp

lemma open_handle_not_returned_witness:
  "\<exists>m'. VbusInterfaceOpen (demo_answering 0) 0 1 0 (demo_bus 0) = Inr (0, 0, m')
     \<and> VbusInterfaceClose (demo_answering 0) 0 m' = Inr m'"
proof -
  obtain m' where "VbusInterfaceOpen (demo_answering 0) 0 1 0 (demo_bus 0) = Inr (0, 0, m')"
    by (simp add: VbusInterfaceOpen_def pdo_get_def VbusBusCall_def vbus_pci_buscall_def acquire_def Let_def demo_answering_def)
  then show ?thesis using open_handle_not_returned by blast
qed

lemma shm_dead_cookie_witness:
  "\<exists>m'. VbusProxyDeviceShm (demo_answering STATUS_NO_MEMORY) 0 0 0x1000 0x100 0x1000 (demo_desc 0 0) True 0 (demo_bus 9)
       = Inr (STATUS_NO_MEMORY, None, m')
     \<and> event_dispatch (event_zero\<lparr>eventid := 2, ev_word := 0x4000\<rparr>) m' = Inl UseAfterFree"
  using shm_dead_cookie [OF _ _ _ demo_alloc, of 0 9 "0x1000" "0x100" "0x1000" "demo_answering STATUS_NO_MEMORY"
      STATUS_NO_MEMORY 1 "event_zero\<lparr>eventid := 2, ev_word := 0x4000\<rparr>" 0 "demo_desc 0 0" 0]
  by (fastforce simp: pdo_zero_def sdesc_bad_def sizeof_shm_signal_desc_def demo_answering_def ulong_cast_def)

lemma shm_success_faults_witness:
  "VbusProxyDeviceShm (demo_answering STATUS_SUCCESS) 0 0 0x1000 0x100 0x1000 (demo_desc 0 0) True 0 (demo_bus 9)
     = Inl NullDeref"
  by (rule shm_success_faults [OF _ _ _ _ demo_alloc])
    (simp_all add: pdo_zero_def sdesc_bad_def sizeof_shm_signal_desc_def demo_answering_def)

end
