(* ===== verification/Vbus_Driver.thy ===== *)
theory Vbus_Driver
  imports Vbus_Interface
begin

text \<open>
  The registration of the bus driver, \<open>DriverEntry\<close>, \<open>VbusAdd\<close> and the callbacks of \<open>windows/vbus/vbus.c\<close>:
  what the driver hands to the framework, with the callbacks as functions, so that a call of the framework is a
  call of the model's function. What the framework answers is a parameter. The lemmas show that over any
  sequence of calls through the registered callbacks, with the handlers of the host's events among them, the
  pool is accounted for, and what becomes of the host's removal events.
\<close>

section \<open>Callbacks\<close>

definition VbusPrepareHardware ::
  "host \<Rightarrow> nat \<Rightarrow> cm_resource_list \<Rightarrow> machine \<Rightarrow> (NTSTATUS \<times> machine) outcome option" where
  "VbusPrepareHardware H dev rt m = VbusPciPrepareHardware H dev rt m"

definition VbusReleaseHardware :: "machine \<Rightarrow> (NTSTATUS \<times> machine) outcome" where
  "VbusReleaseHardware m = VbusPciReleaseHardware m"

record child_list_config =
  cl_create :: "(pdo_call \<Rightarrow> NTSTATUS) \<Rightarrow> pdo_id_desc \<Rightarrow> machine \<Rightarrow> (NTSTATUS \<times> machine) outcome"
  cl_duplicate :: "pdo_id_desc \<Rightarrow> pdo_id_desc \<Rightarrow> NTSTATUS \<times> pdo_id_desc"
  cl_compare :: "pdo_id_desc \<Rightarrow> pdo_id_desc \<Rightarrow> bool"

record pnp_callbacks =
  pn_prepare :: "host \<Rightarrow> nat \<Rightarrow> cm_resource_list \<Rightarrow> machine \<Rightarrow> (NTSTATUS \<times> machine) outcome option"
  pn_release :: "machine \<Rightarrow> (NTSTATUS \<times> machine) outcome"
  pn_d0_entry :: "host \<Rightarrow> machine \<Rightarrow> (NTSTATUS \<times> machine) outcome option"
  pn_d0_exit :: "machine \<Rightarrow> (NTSTATUS \<times> machine) outcome"

record interrupt_config =
  ic_isr :: "machine \<Rightarrow> (bool \<times> machine) outcome"
  ic_dpc :: "host \<Rightarrow> machine \<Rightarrow> machine outcome option"
  ic_enable :: "host \<Rightarrow> machine \<Rightarrow> (NTSTATUS \<times> machine) outcome option"
  ic_disable :: "machine \<Rightarrow> (NTSTATUS \<times> machine) outcome"

definition vbus_child_list :: child_list_config where
  "vbus_child_list = \<lparr>cl_create = VbusDevicePdo, cl_duplicate = VbusIdDup, cl_compare = VbusIdCmp\<rparr>"

definition vbus_pnp :: pnp_callbacks where
  "vbus_pnp = \<lparr>pn_prepare = VbusPrepareHardware, pn_release = VbusReleaseHardware,
               pn_d0_entry = VbusPciD0Entry, pn_d0_exit = VbusPciD0Exit\<rparr>"

text \<open>What \<open>VbusPciCreateResources\<close> connects to the interrupt.\<close>

definition eventq_interrupt :: interrupt_config where
  "eventq_interrupt = \<lparr>ic_isr = eventq_intr_isr, ic_dpc = eventq_intr_dpc,
                       ic_enable = eventq_intr_enable, ic_disable = eventq_intr_disable\<rparr>"

section \<open>Adding the device\<close>

text \<open>What the framework was told about the device, as far as the driver got.\<close>

record bus_device =
  bd_io_direct :: bool
  bd_bus_extender :: bool
  bd_children :: child_list_config
  bd_pnp :: pnp_callbacks
  bd_created :: bool
  bd_interrupt :: "interrupt_config option"
  bd_interface :: bool
  bd_bus_number :: "ULONG option"

record add_env =
  wdf_device_create :: NTSTATUS
  wdf_device_interface :: NTSTATUS

definition VbusAdd :: "host \<Rightarrow> add_env \<Rightarrow> machine \<Rightarrow> NTSTATUS \<times> bus_device \<times> machine" where
  "VbusAdd H E m =
     (let dev = \<lparr>bd_io_direct = True, bd_bus_extender = True, bd_children = vbus_child_list, bd_pnp = vbus_pnp,
                 bd_created = False, bd_interrupt = None, bd_interface = False, bd_bus_number = None\<rparr>;
          rc = wdf_device_create E
      in if \<not> NT_SUCCESS rc then (rc, dev, m)
         else
           let dev1 = dev\<lparr>bd_created := True\<rparr>;
               (rc, m1) = VbusPciCreateResources H m
           in if \<not> NT_SUCCESS rc then (rc, dev1, m1)
              else
                let dev2 = dev1\<lparr>bd_interrupt := Some eventq_interrupt\<rparr>;
                    rc = wdf_device_interface E
                in if \<not> NT_SUCCESS rc then (rc, dev2, m1)
                   else (rc, dev2\<lparr>bd_interface := True, bd_bus_number := Some 0\<rparr>, m1))"

section \<open>The driver\<close>

definition VbusUnload :: "machine \<Rightarrow> machine" where
  "VbusUnload m = m"

record wdf_driver_config =
  dc_device_add :: "host \<Rightarrow> add_env \<Rightarrow> machine \<Rightarrow> NTSTATUS \<times> bus_device \<times> machine"
  dc_unload :: "machine \<Rightarrow> machine"

text \<open>The argument is the framework's answer to the creation of a driver with a configuration.\<close>

definition VbusDriverEntry :: "(wdf_driver_config \<Rightarrow> NTSTATUS) \<Rightarrow> NTSTATUS \<times> wdf_driver_config" where
  "VbusDriverEntry wdf_create =
     (let c = \<lparr>dc_device_add = VbusAdd, dc_unload = VbusUnload\<rparr> in (wdf_create c, c))"

section \<open>Calls of the framework\<close>

text \<open>
  The callbacks of a device that was added, in any order. A preparation has a memory resource; a call that does
  not return or faults is not a step.
\<close>

inductive bus_call :: "bus_device \<Rightarrow> host \<Rightarrow> machine \<Rightarrow> machine \<Rightarrow> bool" for dev H where
  prepare: "Some (CmResourceTypeMemory a l) \<in> set rt \<Longrightarrow>
    pn_prepare (bd_pnp dev) H n rt m = Some (Inr (rc, m')) \<Longrightarrow> bus_call dev H m m'"
| release: "pn_release (bd_pnp dev) m = Inr (rc, m') \<Longrightarrow> bus_call dev H m m'"
| d0_entry: "pn_d0_entry (bd_pnp dev) H m = Some (Inr (rc, m')) \<Longrightarrow> bus_call dev H m m'"
| d0_exit: "pn_d0_exit (bd_pnp dev) m = Inr (rc, m') \<Longrightarrow> bus_call dev H m m'"
| isr: "bd_interrupt dev = Some ic \<Longrightarrow> ic_isr ic m = Inr (b, m') \<Longrightarrow> bus_call dev H m m'"
| dpc: "bd_interrupt dev = Some ic \<Longrightarrow> ic_dpc ic H m = Some (Inr m') \<Longrightarrow> bus_call dev H m m'"
| enable: "bd_interrupt dev = Some ic \<Longrightarrow> ic_enable ic H m = Some (Inr (rc, m')) \<Longrightarrow> bus_call dev H m m'"
| disable: "bd_interrupt dev = Some ic \<Longrightarrow> ic_disable ic m = Inr (rc, m') \<Longrightarrow> bus_call dev H m m'"

text \<open>The signal at \<open>p\<close> was freed on the way from \<open>m\<close> to \<open>m'\<close>.\<close>

definition signal_freed :: "machine \<Rightarrow> machine \<Rightarrow> UINT64 \<Rightarrow> bool" where
  "signal_freed m m' p \<longleftrightarrow> m_sigs m p \<noteq> None \<and> m_sigs m' p = None"

section \<open>Ownership across the handlers\<close>

text \<open>The blocks of others are those of the start without the signals that were freed since.\<close>

definition others :: "machine \<Rightarrow> machine \<Rightarrow> UINT64 multiset \<Rightarrow> bool" where
  "others m0 m L \<longleftrightarrow> (\<forall>p. m_sigs m0 p = None \<longrightarrow> m_sigs m p = None)
     \<and> (\<forall>p. count L p + (if signal_freed m0 m p then 1 else 0) = count (mset (m_live m0)) p)"

definition bus_inv :: "machine \<Rightarrow> machine \<Rightarrow> bool" where
  "bus_inv m0 m \<longleftrightarrow> (\<forall>p. m_sigs m0 p \<noteq> None \<longrightarrow> p \<in> set (m_live m0)) \<and> (\<exists>L. pnp_inv L m \<and> others m0 m L)"

lemma bus_inv_cong:
  assumes "vbus m' = vbus m" and "m_live m' = m_live m" and "\<And>p. m_sigs m' p = None \<longleftrightarrow> m_sigs m p = None"
  shows "bus_inv m0 m' = bus_inv m0 m"
  using assms by (simp add: bus_inv_def pnp_inv_def blocks_ok_def others_def signal_freed_def)

lemma ops_inject_keeps: "ops_inject ops p m = Inr m1 \<Longrightarrow> vbus m1 = vbus m \<and> m_live m1 = m_live m \<and> m_sigs m1 = m_sigs m"
  by (cases ops) (auto simp: signal_inject_def eventq_signal_inject_def)

lemma signal_op_keeps:
  assumes "signal_op f p m = Inr m1"
  shows "vbus m1 = vbus m \<and> m_live m1 = m_live m \<and> (\<forall>x. m_sigs m1 x = None \<longleftrightarrow> m_sigs m x = None)"
proof -
  obtain s where s: "sig_deref p m = Inr s" using assms by (auto simp: signal_op_def)
  then have p: "m_sigs m p = Some s" by (auto simp: sig_deref_def split: if_splits option.splits)
  obtain d c where "f (sg_signal s) (sg_desc s) = (d, c)" by fastforce
  then show ?thesis
    using assms s p by (cases c) (auto simp: signal_op_def Let_def split: if_splits dest!: ops_inject_keeps)
qed

lemma signal_put_inv:
  assumes "signal_put p m = Inr m1" and "bus_inv m0 m"
  shows "bus_inv m0 m1"
proof -
  obtain s where s: "sig_deref p m = Inr s" using assms(1) by (auto simp: signal_put_def)
  then have p: "m_sigs m p = Some s" "p \<noteq> 0" by (auto simp: sig_deref_def split: if_splits option.splits)
  show ?thesis
  proof (cases "sg_refCount s - 1 = 0")
    case False
    then have "m1 = sig_write p (s\<lparr>sg_refCount := sg_refCount s - 1\<rparr>) m"
      using assms(1) s by (simp add: signal_put_def Let_def)
    then show ?thesis using assms(2) bus_inv_cong [of m1 m] p by simp
  next
    case True
    then have live: "p \<in> set (m_live m)" and m1: "m_live m1 = remove1 p (m_live m)" "vbus m1 = vbus m" "m_sigs m1 = (m_sigs m)(p := None)"
      using assms(1) s p(2) by (auto simp: signal_put_def Let_def VbusFree_def split: if_splits)
    obtain L where L: "pnp_inv L m" "others m0 m L" and sigs: "\<forall>p. m_sigs m0 p \<noteq> None \<longrightarrow> p \<in> set (m_live m0)"
      using assms(2) by (auto simp: bus_inv_def)
    have p0: "m_sigs m0 p \<noteq> None" using L(2) p(1) by (auto simp: others_def)
    then have "0 < count (mset (m_live m0)) p" using sigs by (simp add: count_greater_zero_iff)
    moreover have "count L p = count (mset (m_live m0)) p"
      using L(2) p(1) by (auto simp: others_def signal_freed_def dest: spec [where x = p])
    ultimately have pL: "p \<in># L" by (metis count_greater_zero_iff)
    have "pnp_inv (L - {#p#}) m1"
      using L(1) m1(1,2) pL by (simp add: pnp_inv_def blocks_ok_def)
    moreover have "count (L - {#p#}) q + (if signal_freed m0 m1 q then 1 else 0) = count (mset (m_live m0)) q" for q
    proof -
      have "count L q + (if signal_freed m0 m q then 1 else 0) = count (mset (m_live m0)) q"
        using L(2) unfolding others_def by blast
      moreover have "0 < count L p" using pL by simp
      ultimately show ?thesis
        using p(1) p0 m1(3) by (cases "q = p") (simp_all add: signal_freed_def)
    qed
    then have "others m0 m1 (L - {#p#})"
      using L(2) m1(3) by (simp add: others_def)
    ultimately show ?thesis using sigs by (auto simp: bus_inv_def)
  qed
qed

lemma event_dispatch_inv:
  assumes "event_dispatch e m = Inr m1" and "bus_inv m0 m"
  shows "bus_inv m0 m1"
proof -
  have op: "signal_op f p m = Inr m1 \<Longrightarrow> bus_inv m0 m1" for f p
    using signal_op_keeps bus_inv_cong [of m1 m] assms(2) by blast
  have io: "bus_inv m0 (io x m)" for x using assms(2) bus_inv_cong [of "io x m" m] by simp
  show ?thesis
    using assms op io signal_put_inv [OF _ assms(2)]
    by (auto simp: event_dispatch_def event_devadd_def event_devdrop_def event_shmsignal_def event_shmclose_def
        split: if_splits option.splits)
qed

section \<open>Ownership across the callbacks\<close>

text \<open>The host changes shared memory only.\<close>

definition bus_host :: "host \<Rightarrow> bool" where
  "bus_host H \<longleftrightarrow> host_ok H
     \<and> (\<forall>m. vbus (hc_step H m) = vbus m \<and> m_live (hc_step H m) = m_live m \<and> m_sigs (hc_step H m) = m_sigs m)"

lemma run_inject_inv:
  assumes "run_inject c m = Inr m1" and "bus_inv m0 m"
  shows "bus_inv m0 m1"
proof (cases c)
  case (CallInject ops)
  then have "vbus m1 = vbus m" "m_live m1 = m_live m" "m_sigs m1 = m_sigs m"
    using ops_inject_keeps assms(1) by (simp_all add: run_inject_def)
  then show ?thesis using bus_inv_cong [of m1 m m0] assms(2) by simp
qed (use assms in \<open>simp_all add: run_inject_def\<close>)

lemma bus_inv_shared [simp]:
  "bus_inv m0 (m\<lparr>m_head := h\<rparr>) = bus_inv m0 m" "bus_inv m0 (m\<lparr>m_events := evs\<rparr>) = bus_inv m0 m" "bus_inv m0 (io x m) = bus_inv m0 m"
  by (rule bus_inv_cong; simp)+

lemma eventq_body_inv:
  assumes "eventq_body it m = Inr (Some (it', m'))" and "bus_inv m0 m"
  shows "bus_inv m0 m'"
proof -
  have ex: "\<exists>z. x = Inr z" if "bind_ok x f = Inr y" for x :: "'x outcome" and f :: "'x \<Rightarrow> 'y outcome" and y
    using that by (cases x) simp_all
  note body = assms(1) [unfolded eventq_body_def]
  obtain d where d: "desc_read (m_head m) it = Inr d" using ex [OF body] by blast
  note body = body [unfolded d bind_ok.simps]
  have own: "\<not> sown d \<noteq> 0" using body by (rule contrapos_pp) simp
  note body = body [unfolded if_not_P [OF own]]
  obtain i where i: "event_index (vp_ring (vbus m)) (length (m_events m)) (ulong_cast (cookie d)) = Inr i"
    using ex [OF body] by blast
  note body = body [unfolded i bind_ok.simps]
  obtain m1 where m1: "event_dispatch (m_events m ! i) m = Inr m1" using ex [OF body] by blast
  note body = body [unfolded m1 bind_ok.simps Let_def]
  let ?m2 = "m1\<lparr>m_events := (m_events m1)[i := event_zero]\<rparr>"
  obtain r h it1 c where pop: "ioq_iter_pop (vp_eventq (vbus ?m2)) (m_head ?m2) it = Inr (r, h, it1, c)"
    using ex [OF body] by (metis prod_cases4)
  have "run_inject c (?m2\<lparr>m_head := h\<rparr>) = Inr m'"
    using body [unfolded pop bind_ok.simps prod.case] by simp
  then show ?thesis
    using event_dispatch_inv [OF m1 assms(2)] run_inject_inv by fastforce
qed

lemma eventq_loop_inv:
  assumes "eventq_loop H it m = Some r" and "bus_host H" and "r = Inr m'" and "bus_inv m0 m"
  shows "bus_inv m0 m'"
  using assms
proof (induction rule: eventq_loop.raw_induct [rotated, consumes 1])
  case (1 loop H it m r)
  show ?case
  proof (cases "eventq_body it m")
    case (Inr p)
    show ?thesis
    proof (cases p)
      case None
      then show ?thesis using 1(2,4,5) Inr by simp
    next
      case (Some q)
      obtain it1 m1 where q: "q = (it1, m1)" by fastforce
      have "bus_inv m0 m1" using eventq_body_inv Inr Some q 1(5) by blast
      then have "bus_inv m0 (hc_step H m1)"
        using bus_inv_cong [of "hc_step H m1" m1] 1(3) by (simp add: bus_host_def)
      moreover have "loop H it1 (hc_step H m1) = Some r" using 1(2) Inr Some q by simp
      ultimately show ?thesis using 1(1) 1(3,4) by blast
    qed
  qed (use 1(2,4) in simp)
qed

lemma eventq_kick_inv: "eventq_kick m = Inr m' \<Longrightarrow> bus_inv m0 m \<Longrightarrow> bus_inv m0 m'"
  using run_inject_inv by (fastforce simp: eventq_kick_def split: if_splits prod.splits)

lemma eventq_wakeup_inv:
  assumes "eventq_wakeup H m = Some (Inr m')" and "bus_host H" and "bus_inv m0 m"
  shows "bus_inv m0 m'"
  using assms eventq_loop_inv [OF _ assms(2) refl assms(3)] eventq_kick_inv
  by (auto simp: eventq_wakeup_def Let_def ret_bind_eq_Inr split: if_splits sum.splits)

lemma eventq_shm_inv:
  assumes "eventq_shm H f m = Some (Inr m')" and "bus_host H" and "bus_inv m0 m"
  shows "bus_inv m0 m'"
proof -
  obtain d c where f: "f (q_signal (vp_eventq (vbus m))) (h_signal (m_head m)) = (d, c)" by fastforce
  let ?m = "m\<lparr>m_head := (m_head m)\<lparr>h_signal := d\<rparr>\<rparr>"
  have "eventq_wakeup H ?m = Some (Inr m') \<or> (\<exists>c. run_inject c ?m = Inr m')"
    using assms(1) f by (auto simp: eventq_shm_def Let_def split: if_splits sig_call.splits pci_notifier.splits)
  then show ?thesis
    using eventq_wakeup_inv [OF _ assms(2)] run_inject_inv assms(3) by fastforce
qed

text \<open>Preparing leaves the children's signals alone.\<close>

lemma map_resources_sigs: "map_resources_from H rc ds m = (rc', m') \<Longrightarrow> m_sigs m' = m_sigs m"
  by (induction ds arbitrary: rc m)
    (auto simp: vbus_pci_parse_resource_def set_vbus_def split: prod.splits if_splits option.splits cm_resource.splits)

lemma bridgecall_sigs: "vbus_pci_bridgecall H nr p data len m = Inr (r, m') \<Longrightarrow> m_sigs m' = m_sigs m"
  by (auto dest: bridgecall_frame)

lemma out_fail_sigs: "out_fail rc m = Inr (rc', m') \<Longrightarrow> m_sigs m' = m_sigs m"
  by (auto simp: out_fail_def vbus_pci_cleanup_def VbusFree_def Let_def split: if_splits)

lemma ioq_init_sigs: "eventq_ioq_init n m = (rc, m') \<Longrightarrow> m_sigs m' = m_sigs m"
  by (auto simp: eventq_ioq_init_def signal_init_def Let_def dest!: VbusAllocD split: prod.splits if_splits)

lemma eventq_init_sigs:
  assumes init: "eventq_ioq_init QLEN m = (rc, m1)" "NT_SUCCESS rc" and run: "eventq_init H QLEN m1 = Some (Inr (rc', m2))"
  shows "m_sigs m2 = m_sigs m1"
proof -
  obtain p m3 where alloc: "VbusAlloc m1 = (p, m3)" by fastforce
  have rc: "rc = STATUS_SUCCESS"
    using init by (auto simp: eventq_ioq_init_def Let_def split: prod.splits if_splits)
  show ?thesis
  proof (cases "p = 0")
    case True
    then show ?thesis using run alloc VbusAllocD [OF alloc] by (auto simp: eventq_init_def)
  next
    case False
    then show ?thesis
      using setup_state [OF init(1) [unfolded rc] alloc False qlen_small, of H] run VbusAllocD [OF alloc] unfolding Let_def by auto
  qed
qed

lemma queue_sigs:
  assumes "(let (rc, m4) = eventq_ioq_init QLEN m
               in if \<not> NT_SUCCESS rc then Some (out_fail rc m4)
                  else ret_bind (eventq_init H QLEN m4) (\<lambda>(rc, m5).
                    if \<not> NT_SUCCESS rc then Some (out_fail rc m5)
                    else ret_bind (Some (vbus_pci_eventq_register H m5)) (\<lambda>(r, m6).
                      if r < 0 then Some (out_fail STATUS_DEVICE_PROTOCOL_ERROR m6)
                      else Some (Inr (STATUS_SUCCESS, set_vbus (\<lambda>V. V\<lparr>vp_enabled := 1\<rparr>) m6))))) = Some (Inr (rc, m'))"
  shows "m_sigs m' = m_sigs m"
proof -
  obtain rc1 m1 where init: "eventq_ioq_init QLEN m = (rc1, m1)" by fastforce
  note s1 = ioq_init_sigs [OF init]
  show ?thesis
  proof (cases "NT_SUCCESS rc1")
    case True
    then obtain rc2 m2 where q: "eventq_init H QLEN m1 = Some (Inr (rc2, m2))"
      and rest: "(if \<not> NT_SUCCESS rc2 then Some (out_fail rc2 m2)
                    else ret_bind (Some (vbus_pci_eventq_register H m2)) (\<lambda>(r, m6).
                      if r < 0 then Some (out_fail STATUS_DEVICE_PROTOCOL_ERROR m6)
                      else Some (Inr (STATUS_SUCCESS, set_vbus (\<lambda>V. V\<lparr>vp_enabled := 1\<rparr>) m6)))) = Some (Inr (rc, m'))"
      using assms init by (auto simp del: ret_bind_Some simp: ret_bind_eq_Inr)
    note s2 = eventq_init_sigs [OF init True q]
    show ?thesis
      using rest s1 s2 unfolding slow_call_defs
      by (auto simp del: ret_bind_Some simp: ret_bind_eq_Inr set_vbus_def split: if_splits dest!: bridgecall_sigs out_fail_sigs)
  qed (use assms init s1 out_fail_sigs in auto)
qed

lemma prepare_device_sigs:
  assumes "prepare_device H rt m = Some (Inr (rc, m'))"
  shows "m_sigs m' = m_sigs m"
proof -
  obtain rc1 m1 where res: "vbus_pci_map_resources H rt m = (rc1, m1)" by fastforce
  then have s1: "m_sigs m1 = m_sigs m" using map_resources_sigs by (auto simp: vbus_pci_map_resources_def)
  show ?thesis
  proof (cases "NT_SUCCESS rc1")
    case False
    then show ?thesis using assms res s1 out_fail_sigs by (simp add: prepare_device_def)
  next
    case True
    obtain r2 m2 where o: "vbus_pci_open H m1 = Inr (r2, m2)"
      using assms True res by (cases "vbus_pci_open H m1") (auto simp: prepare_device_def)
    have s2: "m_sigs m2 = m_sigs m1" using o bridgecall_sigs unfolding slow_call_defs by blast
    show ?thesis
    proof (cases "r2 < 0")
      case True
      then show ?thesis using assms \<open>NT_SUCCESS rc1\<close> res o s1 s2 out_fail_sigs by (simp add: prepare_device_def)
    next
      case False
      obtain r3 m3 where f: "vbus_pci_setup_fastcall H m2 = Inr (r3, m3)"
        using assms True False res o by (cases "vbus_pci_setup_fastcall H m2") (auto simp: prepare_device_def)
      have s3: "m_sigs m3 = m_sigs m2" using f bridgecall_sigs unfolding slow_call_defs by blast
      show ?thesis
        using assms True False res o f s1 s2 s3 out_fail_sigs queue_sigs [of m3 H rc m']
        by (cases "r3 = 0") (simp_all add: prepare_device_def)
    qed
  qed
qed

lemma prepare_sigs:
  assumes "VbusPciPrepareHardware H dev rt m = Some (Inr (rc, m'))"
  shows "m_sigs m' = m_sigs m"
  using assms by (auto simp: VbusPciPrepareHardware_def set_vbus_def Let_def split: prod.splits if_splits dest!: prepare_device_sigs)

lemma cleanup_sigs: "vbus_pci_cleanup m = Inr m' \<Longrightarrow> m_sigs m' = m_sigs m"
  by (auto simp: vbus_pci_cleanup_def VbusFree_def Let_def split: if_splits)

lemma release_ok:
  assumes "pnp_inv L m"
  shows "\<exists>m'. VbusReleaseHardware m = Inr (STATUS_SUCCESS, m') \<and> vbus m' = vbus_pci_zero \<and> mset (m_live m') = L \<and> m_sigs m' = m_sigs m"
  using cleanup_ok [of L m] cleanup_sigs assms
  by (auto simp: VbusReleaseHardware_def VbusPciReleaseHardware_def pnp_inv_def)

lemma bus_inv_pnp:
  assumes "bus_inv m0 m" and "\<And>L. pnp_inv L m \<Longrightarrow> pnp_inv L m'" and "m_sigs m' = m_sigs m"
  shows "bus_inv m0 m'"
proof -
  obtain L where "pnp_inv L m" "others m0 m L" using assms(1) by (auto simp: bus_inv_def)
  moreover from this have "others m0 m' L" using assms(3) by (simp add: others_def signal_freed_def)
  ultimately show ?thesis using assms(1,2) by (auto simp: bus_inv_def)
qed

lemma eventq_disable_inv: "eventq_disable m = Inr m' \<Longrightarrow> bus_inv m0 m \<Longrightarrow> bus_inv m0 m'"
  by (auto simp: eventq_disable_def split: if_splits)

lemma bus_call_inv:
  assumes "bus_call dev H m m'" and "bd_pnp dev = vbus_pnp" and "bd_interrupt dev = Some eventq_interrupt"
    and H: "bus_host H" and inv: "bus_inv m0 m"
  shows "bus_inv m0 m'"
  using assms(1)
proof (cases rule: bus_call.cases)
  case (prepare a l rt n rc)
  then have run: "VbusPciPrepareHardware H n rt m = Some (Inr (rc, m'))"
    by (simp add: assms(2) vbus_pnp_def VbusPrepareHardware_def)
  have "host_ok H" using H by (simp add: bus_host_def)
  then show ?thesis
    using bus_inv_pnp [OF inv prepare_inv [OF _ _ prepare(1) run] prepare_sigs [OF run]] by blast
next
  case (release rc)
  then have run: "VbusReleaseHardware m = Inr (rc, m')" by (simp add: assms(2) vbus_pnp_def)
  have "pnp_inv L m \<Longrightarrow> pnp_inv L m'" for L
    using release_ok [of L m] run by (auto simp: pnp_inv_def blocks_ok_def)
  moreover have "m_sigs m' = m_sigs m"
    using run cleanup_sigs by (auto simp: VbusReleaseHardware_def VbusPciReleaseHardware_def)
  ultimately show ?thesis by (rule bus_inv_pnp [OF inv])
next
  case (d0_entry rc)
  then show ?thesis
    using eventq_shm_inv [OF _ H inv] by (auto simp: assms(2) vbus_pnp_def VbusPciD0Entry_def ret_bind_eq_Inr)
next
  case (d0_exit rc)
  then show ?thesis
    using eventq_disable_inv inv by (auto simp: assms(2) vbus_pnp_def VbusPciD0Exit_def)
next
  case (isr ic b)
  then show ?thesis
    using eventq_disable_inv inv by (auto simp: assms(3) eventq_interrupt_def eventq_intr_isr_def split: if_splits)
next
  case (dpc ic)
  then obtain m2 where "eventq_shm H ShmSignalWakeup m = Some (Inr m2)" "eventq_shm H ShmSignalEnable m2 = Some (Inr m')"
    by (auto simp: assms(3) eventq_interrupt_def eventq_intr_dpc_def ret_bind_eq_Inr)
  then show ?thesis using eventq_shm_inv [OF _ H] inv by blast
next
  case (enable ic rc)
  then show ?thesis
    using eventq_shm_inv [OF _ H inv] by (auto simp: assms(3) eventq_interrupt_def eventq_intr_enable_def ret_bind_eq_Inr)
next
  case (disable ic rc)
  then show ?thesis
    using eventq_disable_inv inv by (auto simp: assms(3) eventq_interrupt_def eventq_intr_disable_def)
qed

lemma bus_run_inv:
  assumes "(bus_call dev H)\<^sup>*\<^sup>* m m'" and "bd_pnp dev = vbus_pnp" and "bd_interrupt dev = Some eventq_interrupt"
    and "bus_host H" and "bus_inv m0 m"
  shows "bus_inv m0 m'"
  using assms by (induction rule: rtranclp_induct) (blast intro: bus_call_inv)+

section \<open>Properties\<close>


text \<open>Claim C33. The host's removal of a device never reaches the framework for that device: \<open>event_devdrop\<close> looks for a child whose handle is
  the one in the event, but no operation of the driver ever sets a child's handle; an event with a handle other than zero changes nothing, and one with the handle zero reports
  the first child missing, whichever that is.\<close>

theorem removal_events_ignored:
  assumes "pdo_bare m" and "(bus_step H)\<^sup>*\<^sup>* m m'"
  shows "event_devdrop e m' =
     (if ev_word e = 0 \<and> m_children m' \<noteq> [] then io (Child_missing (pd_id (hd (m_children m')))) m' else m')"
proof -
  have "pdo_bare m'" using assms(2,1) by (induction rule: rtranclp_induct) (auto intro: bus_step_bare)
  then have bare: "\<forall>pd\<in>set (m_children m'). pd_handle pd = 0" by (simp add: pdo_bare_def)
  have "devdrop_find h pds = (if h = 0 \<and> pds \<noteq> [] then Some (hd pds) else None)" if "\<forall>pd\<in>set pds. pd_handle pd = 0" for h pds
    using that by (induction pds) auto
  then show ?thesis using bare by (simp add: event_devdrop_def)
qed

section \<open>Witnesses\<close>


lemma removal_events_ignored_witness:
  "event_devdrop (event_zero\<lparr>eventid := 1, ev_word := 5\<rparr>) (demo_bus 0) = demo_bus 0"
  using removal_events_ignored [of "demo_bus 0" demo_host "demo_bus 0" "event_zero\<lparr>eventid := 1, ev_word := 5\<rparr>"]
  by (simp add: pdo_bare_def demo_bus_def pdo_zero_def)

end
