(* ===== verification/Venet_State.thy ===== *)
theory Venet_State
  imports Vbus_Prelude
begin

text \<open>
  The state of the virtual ethernet miniport, \<open>windows/venet/venet.h\<close>: the adapter with its state
  flags and counters, the transfer control blocks, the lists of net buffers that NDIS hands over, and
  the log of what the driver reports to NDIS. A pointer is an address, 0 is null. The first field of a
  net buffer list is its link, which the driver also uses as the link of its own queue
  (\<open>QUEUE_ENTRY\<close>). Doubly linked lists of the kernel (\<open>LIST_ENTRY\<close>) are lists of addresses.
\<close>

section \<open>NDIS status codes\<close>

type_synonym NDIS_STATUS = "32 word"

abbreviation (input) NDIS_STATUS_SUCCESS :: NDIS_STATUS where "NDIS_STATUS_SUCCESS \<equiv> 0"
abbreviation (input) NDIS_STATUS_FAILURE :: NDIS_STATUS where "NDIS_STATUS_FAILURE \<equiv> 0xC0000001"
abbreviation (input) NDIS_STATUS_RESOURCES :: NDIS_STATUS where "NDIS_STATUS_RESOURCES \<equiv> 0xC000009A"
abbreviation (input) NDIS_STATUS_CLOSING :: NDIS_STATUS where "NDIS_STATUS_CLOSING \<equiv> 0xC0010002"
abbreviation (input) NDIS_STATUS_DEVICE_FAILED :: NDIS_STATUS where "NDIS_STATUS_DEVICE_FAILED \<equiv> 0xC0010008"
abbreviation (input) NDIS_STATUS_MULTICAST_FULL :: NDIS_STATUS where "NDIS_STATUS_MULTICAST_FULL \<equiv> 0xC0010009"
abbreviation (input) NDIS_STATUS_REQUEST_ABORTED :: NDIS_STATUS where "NDIS_STATUS_REQUEST_ABORTED \<equiv> 0xC001000C"
abbreviation (input) NDIS_STATUS_RESET_IN_PROGRESS :: NDIS_STATUS where "NDIS_STATUS_RESET_IN_PROGRESS \<equiv> 0xC001000D"
abbreviation (input) NDIS_STATUS_INVALID_LENGTH :: NDIS_STATUS where "NDIS_STATUS_INVALID_LENGTH \<equiv> 0xC0010014"
abbreviation (input) NDIS_STATUS_INVALID_DATA :: NDIS_STATUS where "NDIS_STATUS_INVALID_DATA \<equiv> 0xC0010015"
abbreviation (input) NDIS_STATUS_INVALID_OID :: NDIS_STATUS where "NDIS_STATUS_INVALID_OID \<equiv> 0xC0010017"
abbreviation (input) NDIS_STATUS_NOT_SUPPORTED :: NDIS_STATUS where "NDIS_STATUS_NOT_SUPPORTED \<equiv> 0xC00000BB"
abbreviation (input) NDIS_STATUS_BUFFER_OVERFLOW :: NDIS_STATUS where "NDIS_STATUS_BUFFER_OVERFLOW \<equiv> 0x80000005"
abbreviation (input) NDIS_STATUS_PAUSED :: NDIS_STATUS where "NDIS_STATUS_PAUSED \<equiv> 0xC023002A"
abbreviation (input) NDIS_STATUS_SOFT_ERRORS :: NDIS_STATUS where "NDIS_STATUS_SOFT_ERRORS \<equiv> 0x80010003"

section \<open>Constants\<close>

definition ETH_HEADER_SIZE :: nat where "ETH_HEADER_SIZE = 14"
definition ETH_MAX_DATA_SIZE :: nat where "ETH_MAX_DATA_SIZE = 1500"
definition ETH_MIN_PACKET_SIZE :: nat where "ETH_MIN_PACKET_SIZE = 60"
definition ETH_LENGTH_OF_ADDRESS :: nat where "ETH_LENGTH_OF_ADDRESS = 6"
definition NIC_MAX_MCAST_LIST :: nat where "NIC_MAX_MCAST_LIST = 32"
definition NIC_MAX_BUSY_SENDS :: nat where "NIC_MAX_BUSY_SENDS = 20"
definition NIC_BUFFER_SIZE :: nat where "NIC_BUFFER_SIZE = ETH_HEADER_SIZE + ETH_MAX_DATA_SIZE"

definition NIC_MEDIA_MAX_SPEED :: UINT64 where "NIC_MEDIA_MAX_SPEED = 10000000"

definition P8021_MAC_LEN :: nat where "P8021_MAC_LEN = 12"
definition P8021_BYTE_LEN :: nat where "P8021_BYTE_LEN = 4"
definition P8021_HOST_MASK :: UINT32 where "P8021_HOST_MASK = 0xfff8"

text \<open>The 16-bit store of \<open>P8021_TPID_TYPE\<close>, little endian.\<close>

definition P8021_TPID_BYTES :: "UINT8 list" where "P8021_TPID_BYTES = [0x81, 0x00]"

definition VNET_ADAPTER_RESET :: ULONG where "VNET_ADAPTER_RESET = 0x1"
definition VNET_DISCONNECTED :: ULONG where "VNET_DISCONNECTED = 0x2"
definition VNET_ADAPTER_HALT_IN_PROGRESS :: ULONG where "VNET_ADAPTER_HALT_IN_PROGRESS = 0x4"
definition VNET_ADAPTER_SURPRISE_REMOVED :: ULONG where "VNET_ADAPTER_SURPRISE_REMOVED = 0x8"
definition VNET_ADAPTER_SHUTDOWN :: ULONG where "VNET_ADAPTER_SHUTDOWN = 0x20"
definition VNET_ADAPTER_NO_LINK :: ULONG where "VNET_ADAPTER_NO_LINK = 0x40"
definition VNET_ADAPTER_SUSPENDING :: ULONG where "VNET_ADAPTER_SUSPENDING = 0x80"
definition VNET_ADAPTER_PAUSED :: ULONG where "VNET_ADAPTER_PAUSED = 0x200"

definition VNET_IS_NOT_READY_MASK :: ULONG where
  "VNET_IS_NOT_READY_MASK =
     (VNET_DISCONNECTED OR VNET_ADAPTER_RESET OR VNET_ADAPTER_HALT_IN_PROGRESS OR VNET_ADAPTER_NO_LINK
      OR VNET_ADAPTER_SUSPENDING OR VNET_ADAPTER_SHUTDOWN OR VNET_ADAPTER_PAUSED)"

lemmas vnet_flag_defs =
  VNET_ADAPTER_RESET_def VNET_DISCONNECTED_def VNET_ADAPTER_HALT_IN_PROGRESS_def
  VNET_ADAPTER_SURPRISE_REMOVED_def VNET_ADAPTER_SHUTDOWN_def VNET_ADAPTER_NO_LINK_def
  VNET_ADAPTER_SUSPENDING_def VNET_ADAPTER_PAUSED_def

section \<open>Data\<close>

text \<open>
  A memory descriptor of a frame: the mapped bytes, or nothing if NDIS cannot map them. A net buffer
  is a chain of them with the offset and length of its data.
\<close>

type_synonym mdl = "UINT8 list option"

record net_buffer =
  nb_mdls :: "mdl list"
  nb_offset :: nat
  nb_length :: nat

record nbl =
  nbl_next :: UINT64
  nbl_nbs :: "net_buffer list"
  nbl_cancel_id :: UINT64
  nbl_8021q :: UINT32
  nbl_status :: NDIS_STATUS
  nbl_count :: ULONG

record queue_header =
  q_head :: UINT64
  q_tail :: UINT64

record tcb =
  t_isCancelled :: bool
  t_nbl :: UINT64
  t_status :: NDIS_STATUS
  t_nb_count :: ULONG
  t_data :: "UINT8 list"

record adapter =
  a_adapterHandle :: UINT64
  a_state :: ULONG
  a_refCount :: LONG
  a_vif :: bool
  a_bus_handle :: UINT64
  a_resetTimer :: UINT64
  a_recvTimer :: UINT64
  a_resetCount :: LONG
  a_removeEvent :: bool
  a_permAddress :: "UINT8 list"
  a_currAddress :: "UINT8 list"
  a_mc_size :: ULONG
  a_mc_array :: "UINT8 list"
  a_packetFilter :: ULONG
  a_lookAhead :: ULONG
  a_linkSpeed :: ULONG
  a_maxBusySends :: ULONG
  a_maxBusyRecvs :: ULONG
  a_txCount :: UINT64
  a_rxCount :: UINT64
  a_nBusyRecv :: ULONG
  a_rxHandle :: UINT64
  a_txHandle :: UINT64
  a_numTcbs :: ULONG
  a_numTCBsFree :: ULONG
  a_sendQueue :: queue_header
  a_sendEvent :: bool
  a_sendingNBL :: UINT64
  a_dmaHandle :: UINT64
  a_tcbFree :: "UINT64 list"
  a_tcbBusy :: "UINT64 list"

text \<open>Constants of NDIS that the driver only passes on.\<close>

datatype ndis_const =
    NdisInterfaceInternal | NO_HALT_ON_SUSPEND | NOT_CO_NDIS | BUS_MASTER
  | NdisMedium802_3 | NdisPhysicalMedium802_3 | NET_IF_ACCESS_BROADCAST | NET_IF_DIRECTION_SENDRECEIVE
  | NET_IF_CONNECTION_DEDICATED | IF_TYPE_ETHERNET_CSMACD
  | MediaConnectStateConnected | MediaConnectStateDisconnected | MediaConnectStateUnknown
  | MediaDuplexStateFull | MediaDuplexStateUnknown
  | MAC_OPTION_COPY_LOOKAHEAD_DATA | MAC_OPTION_TRANSFERS_NOT_PEND | MAC_OPTION_8021P_PRIORITY | MAC_OPTION_NO_LOOPBACK
  | DIRECTED_FRAMES_RCV | MULTICAST_FRAMES_RCV | BROADCAST_FRAMES_RCV | BYTES_RCV | RCV_DISCARDS | RCV_ERROR
  | DIRECTED_FRAMES_XMIT | MULTICAST_FRAMES_XMIT | BROADCAST_FRAMES_XMIT | BYTES_XMIT | XMIT_ERROR | XMIT_DISCARDS
  | DIRECTED_BYTES_RCV | MULTICAST_BYTES_RCV | BROADCAST_BYTES_RCV
  | DIRECTED_BYTES_XMIT | MULTICAST_BYTES_XMIT | BROADCAST_BYTES_XMIT

text \<open>\<open>NDIS_LINK_SPEED_UNKNOWN\<close>.\<close>

abbreviation (input) LINK_SPEED_UNKNOWN :: UINT64 where "LINK_SPEED_UNKNOWN \<equiv> 0xFFFFFFFFFFFFFFFF"

text \<open>What the driver declares about the adapter; a set of flags is the list of them.\<close>

record registration_attributes =
  ra_context :: UINT64
  ra_flags :: "ndis_const list"
  ra_hang_seconds :: ULONG
  ra_interface_type :: ndis_const

record general_attributes =
  ga_media :: ndis_const
  ga_mtu :: ULONG
  ga_max_xmit_speed :: UINT64
  ga_max_rcv_speed :: UINT64
  ga_xmit_speed :: UINT64
  ga_rcv_speed :: UINT64
  ga_connect :: ndis_const
  ga_duplex :: ndis_const
  ga_lookahead :: ULONG
  ga_mac_options :: "ndis_const list"
  ga_filters :: ULONG
  ga_max_multicast :: ULONG
  ga_address_length :: ULONG
  ga_permanent :: "UINT8 list"
  ga_current :: "UINT8 list"
  ga_interface :: "ndis_const list"
  ga_connector :: bool
  ga_statistics :: "ndis_const list"
  ga_oids_length :: ULONG

text \<open>
  What the driver tells NDIS, in order. A link indication has the connect state, the duplex state and
  the transmit speed.
\<close>

datatype ndis_io =
    Send_complete UINT64 bool
  | Reset_complete NDIS_STATUS
  | Set_timer UINT64
  | Free_timer UINT64
  | Deregister_dma UINT64
  | Wait_remove_event
  | Wait_send_event
  | Indicate_link ndis_const ndis_const UINT64
  | Set_registration registration_attributes
  | Set_general general_attributes

text \<open>
  The driver's memory. \<open>v_list\<close> is the global list of adapters, \<open>v_live\<close> the allocated blocks,
  \<open>v_pool\<close> what the allocator of NDIS will answer, 0 for failure.
\<close>

record venet =
  v_adapter :: adapter
  v_nbls :: "UINT64 \<Rightarrow> nbl"
  v_tcbs :: "UINT64 \<Rightarrow> tcb"
  v_list :: "UINT64 list"
  v_live :: "UINT64 list"
  v_pool :: "UINT64 list"
  v_io :: "ndis_io list"

abbreviation upd_adapter :: "(adapter \<Rightarrow> adapter) \<Rightarrow> venet \<Rightarrow> venet" where
  "upd_adapter f v \<equiv> v\<lparr>v_adapter := f (v_adapter v)\<rparr>"

abbreviation nio :: "ndis_io \<Rightarrow> venet \<Rightarrow> venet" where
  "nio e v \<equiv> v\<lparr>v_io := v_io v @ [e]\<rparr>"

section \<open>State flags\<close>

definition VENET_SET_FLAG :: "adapter \<Rightarrow> ULONG \<Rightarrow> adapter" where
  "VENET_SET_FLAG a f = a\<lparr>a_state := a_state a OR f\<rparr>"

definition VENET_CLEAR_FLAG :: "adapter \<Rightarrow> ULONG \<Rightarrow> adapter" where
  "VENET_CLEAR_FLAG a f = a\<lparr>a_state := a_state a AND NOT f\<rparr>"

definition VENET_TEST_FLAG :: "adapter \<Rightarrow> ULONG \<Rightarrow> bool" where
  "VENET_TEST_FLAG a f \<longleftrightarrow> a_state a AND f \<noteq> 0"

definition VENET_IS_NOT_READY :: "adapter \<Rightarrow> bool" where
  "VENET_IS_NOT_READY a \<longleftrightarrow> a_state a AND VNET_IS_NOT_READY_MASK \<noteq> 0"

definition VENET_IS_PAUSED :: "adapter \<Rightarrow> bool" where
  "VENET_IS_PAUSED a \<longleftrightarrow> a_state a AND VNET_ADAPTER_PAUSED \<noteq> 0"

definition VENET_NO_LINK :: "adapter \<Rightarrow> bool" where
  "VENET_NO_LINK a \<longleftrightarrow> a_state a AND VNET_ADAPTER_NO_LINK \<noteq> 0"

definition VENET_IS_BUSY :: "adapter \<Rightarrow> bool" where
  "VENET_IS_BUSY a \<longleftrightarrow> a_tcbBusy a \<noteq> [] \<or> a_nBusyRecv a \<noteq> 0"

definition VENET_ADAPTER_GET :: "adapter \<Rightarrow> adapter" where
  "VENET_ADAPTER_GET a = a\<lparr>a_refCount := a_refCount a + 1\<rparr>"

definition VENET_ADAPTER_PUT :: "adapter \<Rightarrow> adapter" where
  "VENET_ADAPTER_PUT a =
     (let r = a_refCount a - 1
      in if r = 0 then a\<lparr>a_refCount := r, a_removeEvent := True\<rparr> else a\<lparr>a_refCount := r\<rparr>)"

section \<open>The pool\<close>

definition VenetAlloc :: "venet \<Rightarrow> UINT64 \<times> venet" where
  "VenetAlloc v = (case v_pool v of
     [] \<Rightarrow> (0, v)
   | p # ps \<Rightarrow> (p, v\<lparr>v_pool := ps, v_live := if p = 0 then v_live v else p # v_live v\<rparr>))"

definition VenetFree :: "UINT64 \<Rightarrow> venet \<Rightarrow> venet outcome" where
  "VenetFree p v =
     (if p = 0 then Inr v
      else if p \<in> set (v_live v) then Inr (v\<lparr>v_live := remove1 p (v_live v)\<rparr>)
      else Inl UseAfterFree)"

interpretation venetpool: allocator v_live "\<lambda>l v. v\<lparr>v_live := l\<rparr>" 0 VenetAlloc VenetFree
  by unfold_locales (auto simp: VenetAlloc_def VenetFree_def split: list.splits)

end
