(* ===== verification/Venet_Queue.thy ===== *)
theory Venet_Queue
  imports Venet_State
begin

text \<open>
  The send queue of the miniport (\<open>QUEUE_HEADER\<close> in \<open>windows/venet/venet.h\<close>): a singly linked list
  through the first field of the net buffer lists, with head and tail pointers, and the search of
  \<open>SrCancelQueued\<close> in \<open>windows/venet/sendrcv.c\<close> that unlinks entries while it walks. The locale
  \<open>deque\<close> states what the senders rely on; its interpretation on the pointer operations discharges
  every law.
\<close>

section \<open>Operations\<close>

type_synonym nbl_mem = "UINT64 \<Rightarrow> nbl"

definition set_next :: "UINT64 \<Rightarrow> UINT64 \<Rightarrow> nbl_mem \<Rightarrow> nbl_mem" where
  "set_next p n M = M(p := (M p)\<lparr>nbl_next := n\<rparr>)"

definition QueueInit :: queue_header where
  "QueueInit = \<lparr>q_head = 0, q_tail = 0\<rparr>"

definition QueueEmpty :: "queue_header \<Rightarrow> bool" where
  "QueueEmpty q \<longleftrightarrow> q_head q = 0"

definition QueueDeque :: "queue_header \<times> nbl_mem \<Rightarrow> (UINT64 \<times> queue_header \<times> nbl_mem) outcome" where
  "QueueDeque = (\<lambda>(q, M).
     let curr = q_head q
     in if curr = 0 then Inl NullDeref
        else
          let q1 = q\<lparr>q_head := nbl_next (M curr)\<rparr>;
              q2 = (if q_head q1 = 0 then q1\<lparr>q_tail := 0\<rparr> else q1)
          in Inr (curr, q2, set_next curr 0 M))"

definition QueueEnqueTail :: "UINT64 \<Rightarrow> queue_header \<times> nbl_mem \<Rightarrow> queue_header \<times> nbl_mem" where
  "QueueEnqueTail e = (\<lambda>(q, M).
     let M1 = set_next e 0 M
     in if QueueEmpty q then (q\<lparr>q_head := e, q_tail := e\<rparr>, M1)
        else (q\<lparr>q_tail := e\<rparr>, set_next (q_tail q) e M1))"

definition QueueEnqueHead :: "UINT64 \<Rightarrow> queue_header \<times> nbl_mem \<Rightarrow> queue_header \<times> nbl_mem" where
  "QueueEnqueHead e = (\<lambda>(q, M).
     let M1 = set_next e (q_head q) M;
         q1 = q\<lparr>q_head := e\<rparr>
     in (if q_tail q1 = 0 then q1\<lparr>q_tail := e\<rparr> else q1, M1))"

section \<open>What a queue holds\<close>

text \<open>The entries of a chain from \<open>p\<close> to \<open>e\<close>.\<close>

fun chain :: "nbl_mem \<Rightarrow> UINT64 \<Rightarrow> UINT64 list \<Rightarrow> UINT64 \<Rightarrow> bool" where
  "chain M p [] e \<longleftrightarrow> p = e"
| "chain M p (x # xs) e \<longleftrightarrow> p = x \<and> x \<noteq> 0 \<and> chain M (nbl_next (M x)) xs e"

definition queue_rep :: "queue_header \<times> nbl_mem \<Rightarrow> UINT64 list \<Rightarrow> bool" where
  "queue_rep s xs \<longleftrightarrow>
     chain (snd s) (q_head (fst s)) xs 0 \<and> distinct xs
   \<and> q_tail (fst s) = (if xs = [] then 0 else last xs)"

lemma chain_append [simp]: "chain M p (xs @ ys) e \<longleftrightarrow> (\<exists>r. chain M p xs r \<and> chain M r ys e)"
  by (induction xs arbitrary: p) auto

lemma chain_nonzero: "chain M p xs e \<Longrightarrow> 0 \<notin> set xs"
  by (induction xs arbitrary: p) auto

lemma chain_cong: "(\<And>x. x \<in> set xs \<Longrightarrow> nbl_next (M x) = nbl_next (N x)) \<Longrightarrow> chain M p xs e = chain N p xs e"
  by (induction xs arbitrary: p) auto

lemma chain_start: "chain M p xs 0 \<Longrightarrow> p = 0 \<longleftrightarrow> xs = []"
  by (cases xs) auto

lemma chain_hd: "chain M p (x # xs) e \<Longrightarrow> p = x"
  by simp

lemma set_next_simps [simp]:
  "nbl_next (set_next p n M x) = (if x = p then n else nbl_next (M x))"
  "nbl_nbs (set_next p n M x) = nbl_nbs (M x)" "nbl_cancel_id (set_next p n M x) = nbl_cancel_id (M x)"
  "nbl_8021q (set_next p n M x) = nbl_8021q (M x)" "nbl_status (set_next p n M x) = nbl_status (M x)"
  "nbl_count (set_next p n M x) = nbl_count (M x)"
  by (simp_all add: set_next_def)

lemma chain_set_next [simp]: "p \<notin> set xs \<Longrightarrow> chain (set_next p n M) q xs e = chain M q xs e"
  by (rule chain_cong) auto

lemma chain_set_last:
  assumes "chain M p xs r" and "xs \<noteq> []" and "distinct xs"
  shows "chain (set_next (last xs) e M) p xs e"
proof -
  obtain ys y where xs: "xs = ys @ [y]" using assms(2) by (cases xs rule: rev_cases) auto
  then show ?thesis using assms by auto
qed

lemma queue_rep_empty: "queue_rep (QueueInit, M) []"
  by (simp add: queue_rep_def QueueInit_def)

lemma queue_rep_QueueEmpty: "queue_rep (q, M) xs \<Longrightarrow> QueueEmpty q \<longleftrightarrow> xs = []"
  using chain_start by (auto simp: queue_rep_def QueueEmpty_def)

lemma enque_tail_rep:
  assumes "queue_rep s xs" and "x \<noteq> 0" and "x \<notin> set xs"
  shows "queue_rep (QueueEnqueTail x s) (xs @ [x])"
proof -
  obtain q M where s: "s = (q, M)" by fastforce
  have rep: "chain M (q_head q) xs 0" "distinct xs" "q_tail q = (if xs = [] then 0 else last xs)"
    using assms(1) by (simp_all add: s queue_rep_def)
  show ?thesis
  proof (cases "xs = []")
    case True
    then show ?thesis
      using rep assms(2) by (simp add: s QueueEnqueTail_def QueueEmpty_def queue_rep_def)
  next
    case False
    have "chain (set_next (last xs) x (set_next x 0 M)) (q_head q) xs x"
      by (rule chain_set_last) (use rep assms(3) False in auto)
    moreover have "last xs \<noteq> x" using assms(3) False by (metis last_in_set)
    ultimately show ?thesis
      using rep assms(2,3) False chain_start [OF rep(1)]
      by (auto simp: s QueueEnqueTail_def QueueEmpty_def queue_rep_def Let_def)
  qed
qed

lemma enque_head_rep:
  assumes "queue_rep s xs" and "x \<noteq> 0" and "x \<notin> set xs"
  shows "queue_rep (QueueEnqueHead x s) (x # xs)"
proof -
  obtain q M where s: "s = (q, M)" by fastforce
  have "0 \<notin> set xs" using assms(1) chain_nonzero by (auto simp: s queue_rep_def)
  then have "xs \<noteq> [] \<Longrightarrow> last xs \<noteq> 0" by (metis last_in_set)
  then show ?thesis
    using assms by (auto simp: s QueueEnqueHead_def queue_rep_def Let_def)
qed

lemma deque_rep:
  assumes "queue_rep s (x # xs)"
  shows "\<exists>s'. QueueDeque s = Inr (x, s') \<and> queue_rep s' xs"
proof -
  obtain q M where s: "s = (q, M)" by fastforce
  have rep: "q_head q = x" "x \<noteq> 0" "chain M (nbl_next (M x)) xs 0" "distinct (x # xs)"
    "q_tail q = last (x # xs)"
    using assms by (auto simp: s queue_rep_def)
  then show ?thesis
    using chain_start [OF rep(3)] by (auto simp: s QueueDeque_def queue_rep_def Let_def)
qed

lemma deque_empty_faults: "queue_rep s [] \<Longrightarrow> QueueDeque s = Inl NullDeref"
  by (cases s) (simp add: queue_rep_def QueueDeque_def)

section \<open>The interface\<close>

locale deque =
  fixes rep :: "'s \<Rightarrow> 'e list \<Rightarrow> bool"
    and null :: 'e
    and enq_tail enq_head :: "'e \<Rightarrow> 's \<Rightarrow> 's"
    and deq :: "'s \<Rightarrow> ('e \<times> 's) outcome"
  assumes enq_tail_law: "rep s xs \<Longrightarrow> x \<noteq> null \<Longrightarrow> x \<notin> set xs \<Longrightarrow> rep (enq_tail x s) (xs @ [x])"
    and enq_head_law: "rep s xs \<Longrightarrow> x \<noteq> null \<Longrightarrow> x \<notin> set xs \<Longrightarrow> rep (enq_head x s) (x # xs)"
    and deq_law: "rep s (x # xs) \<Longrightarrow> \<exists>s'. deq s = Inr (x, s') \<and> rep s' xs"
    and rep_distinct: "rep s xs \<Longrightarrow> distinct xs \<and> null \<notin> set xs"
begin

lemma enq_all:
  assumes "rep s xs" and "distinct ys" and "set xs \<inter> set ys = {}" and "null \<notin> set ys"
  shows "rep (fold enq_tail ys s) (xs @ ys)"
  using assms
proof (induction ys arbitrary: s xs)
  case (Cons y ys)
  then have "rep (enq_tail y s) (xs @ [y])" by (intro enq_tail_law) auto
  from Cons.IH [OF this] Cons.prems show ?case by auto
qed simp

text \<open>Taking the first entry out and putting it back leaves the queue as it was.\<close>

lemma deq_requeue:
  assumes "rep s (x # xs)"
  shows "\<exists>s'. deq s = Inr (x, s') \<and> rep s' xs \<and> rep (enq_head x s') (x # xs)"
proof -
  obtain s' where s': "deq s = Inr (x, s')" "rep s' xs" using deq_law [OF assms] by blast
  have "x \<noteq> null" "x \<notin> set xs" using rep_distinct [OF assms] by auto
  then show ?thesis using s' enq_head_law by blast
qed

end

lemma queue_rep_distinct: "queue_rep s xs \<Longrightarrow> distinct xs \<and> 0 \<notin> set xs"
  using chain_nonzero by (auto simp: queue_rep_def)

interpretation sendq: deque queue_rep 0 QueueEnqueTail QueueEnqueHead QueueDeque
  by unfold_locales (rule enque_tail_rep enque_head_rep deque_rep queue_rep_distinct; assumption)+

section \<open>Cancelling queued sends\<close>

text \<open>
  The loop of \<open>SrCancelQueued\<close>: \<open>cur\<close> walks the send queue with \<open>prev\<close> behind it and puts the
  matches on the local queue. It follows the links of the entries as they are after a match was moved.
\<close>

partial_function (option) cancel_loop ::
  "UINT64 \<Rightarrow> UINT64 \<Rightarrow> UINT64 \<Rightarrow> queue_header \<Rightarrow> queue_header \<Rightarrow> nbl_mem
   \<Rightarrow> (queue_header \<times> queue_header \<times> nbl_mem) option" where
  "cancel_loop cancelId cur prev sq cq M =
     (if cur = 0 then Some (sq, cq, M)
      else if cancelId = 0 \<or> nbl_cancel_id (M cur) = cancelId then
        let next = nbl_next (M cur);
            (sq1, M1) =
              (if cur = q_head sq
               then (if next = 0 then sq\<lparr>q_head := next, q_tail := 0\<rparr> else sq\<lparr>q_head := next\<rparr>, M)
               else (if next = 0 then sq\<lparr>q_tail := prev\<rparr> else sq, set_next prev next M));
            (cq1, M2) = QueueEnqueHead cur (cq, M1)
        in cancel_loop cancelId (nbl_next (M2 cur)) cur sq1 cq1 M2
      else cancel_loop cancelId (nbl_next (M cur)) cur sq cq M)"

text \<open>The loop that completes the entries found, each on its own.\<close>

definition complete_one :: "NDIS_STATUS \<Rightarrow> bool \<Rightarrow> UINT64 \<Rightarrow> nbl_mem \<Rightarrow> nbl_mem \<times> ndis_io" where
  "complete_one reason dl p M = (M(p := (M p)\<lparr>nbl_status := reason\<rparr>), Send_complete p dl)"

partial_function (option) complete_loop ::
  "NDIS_STATUS \<Rightarrow> queue_header \<Rightarrow> nbl_mem \<Rightarrow> ndis_io list \<Rightarrow> (nbl_mem \<times> ndis_io list) outcome option" where
  "complete_loop reason cq M out =
     (if QueueEmpty cq then Some (Inr (M, out))
      else case QueueDeque (cq, M) of
             Inl e \<Rightarrow> Some (Inl e)
           | Inr (p, cq1, M1) \<Rightarrow>
               (case complete_one reason False p M1 of (M2, e) \<Rightarrow> complete_loop reason cq1 M2 (out @ [e])))"

definition SrCancelQueued :: "UINT64 \<Rightarrow> NDIS_STATUS \<Rightarrow> venet \<Rightarrow> venet outcome option" where
  "SrCancelQueued cancelId reason v =
     (let sq = a_sendQueue (v_adapter v)
      in case cancel_loop cancelId (q_head sq) (q_head sq) sq QueueInit (v_nbls v) of
           None \<Rightarrow> None
         | Some (sq1, cq, M) \<Rightarrow>
             (case complete_loop reason cq M [] of
                None \<Rightarrow> None
              | Some (Inl e) \<Rightarrow> Some (Inl e)
              | Some (Inr (M1, out)) \<Rightarrow>
                  Some (Inr (v\<lparr>v_adapter := (v_adapter v)\<lparr>a_sendQueue := sq1\<rparr>, v_nbls := M1,
                               v_io := v_io v @ out\<rparr>))))"

definition VenetCancelSend :: "UINT64 \<Rightarrow> venet \<Rightarrow> venet outcome option" where
  "VenetCancelSend i v = SrCancelQueued i NDIS_STATUS_REQUEST_ABORTED v"

definition VenetFreeQueuedSend :: "NDIS_STATUS \<Rightarrow> venet \<Rightarrow> venet outcome option" where
  "VenetFreeQueuedSend status v = SrCancelQueued 0 status v"

definition matches :: "UINT64 \<Rightarrow> nbl_mem \<Rightarrow> UINT64 \<Rightarrow> bool" where
  "matches i M p \<longleftrightarrow> i = 0 \<or> nbl_cancel_id (M p) = i"

lemma cancel_loop_0 [simp]: "cancel_loop i 0 prev sq cq M = Some (sq, cq, M)"
  by (subst cancel_loop.simps) simp

lemma complete_loop_empty [simp]: "QueueEmpty cq \<Longrightarrow> complete_loop reason cq M out = Some (Inr (M, out))"
  by (subst complete_loop.simps) simp

text \<open>Over entries that do not match, the loop only walks.\<close>

lemma cancel_loop_skip:
  assumes "chain M cur xs r" and "\<forall>x\<in>set xs. \<not> matches i M x"
  shows "cancel_loop i cur prev sq cq M = cancel_loop i r (if xs = [] then prev else last xs) sq cq M"
  using assms
proof (induction xs arbitrary: cur prev)
  case (Cons x xs)
  then have x: "cur = x" "x \<noteq> 0" "chain M (nbl_next (M x)) xs r" "i \<noteq> 0" "nbl_cancel_id (M x) \<noteq> i"
    by (auto simp: matches_def)
  have "cancel_loop i cur prev sq cq M = cancel_loop i (nbl_next (M x)) x sq cq M"
    using x by (subst cancel_loop.simps) simp
  also have "\<dots> = cancel_loop i r (if xs = [] then x else last xs) sq cq M"
    by (rule Cons.IH) (use x Cons.prems in auto)
  finally show ?case by simp
qed simp

text \<open>What a list sends, apart from its link, its status and its cancel id.\<close>

abbreviation nbl_frames :: "nbl \<Rightarrow> net_buffer list \<times> UINT32 \<times> ULONG" where
  "nbl_frames n \<equiv> (nbl_nbs n, nbl_8021q n, nbl_count n)"

text \<open>The first match ends the search: its link is overwritten with the empty local queue.\<close>

lemma cancel_loop_match:
  assumes rep: "queue_rep (sq, M) (xs @ x # ys)" and no: "\<forall>y\<in>set xs. \<not> matches i M y" and yes: "matches i M x"
  shows "\<exists>sq1 M1. cancel_loop i (q_head sq) (q_head sq) sq QueueInit M = Some (sq1, \<lparr>q_head = x, q_tail = x\<rparr>, M1)
           \<and> queue_rep (sq1, M1) (xs @ ys) \<and> nbl_next (M1 x) = 0
           \<and> (\<forall>p. nbl_status (M1 p) = nbl_status (M p) \<and> nbl_cancel_id (M1 p) = nbl_cancel_id (M p)
                \<and> nbl_frames (M1 p) = nbl_frames (M p))"
proof -
  have R: "chain M (q_head sq) xs x" "x \<noteq> 0" "chain M (nbl_next (M x)) ys 0" "distinct (xs @ x # ys)"
    "q_tail sq = last (x # ys)"
    using rep by (auto simp: queue_rep_def)
  let ?prev = "if xs = [] then q_head sq else last xs" and ?n = "nbl_next (M x)"
  have walk: "cancel_loop i (q_head sq) (q_head sq) sq QueueInit M = cancel_loop i x ?prev sq QueueInit M"
    by (rule cancel_loop_skip [OF R(1) no])
  have n0: "?n = 0 \<longleftrightarrow> ys = []" using chain_start [OF R(3)] .
  have hd: "q_head sq = x \<longleftrightarrow> xs = []" using R(1,4) by (cases xs) auto
  show ?thesis
  proof (cases "xs = []")
    case True
    let ?sq1 = "if ?n = 0 then sq\<lparr>q_head := ?n, q_tail := 0\<rparr> else sq\<lparr>q_head := ?n\<rparr>"
    have "cancel_loop i x ?prev sq QueueInit M = Some (?sq1, \<lparr>q_head = x, q_tail = x\<rparr>, set_next x 0 M)"
      using R(2) yes hd True
      by (subst cancel_loop.simps) (simp add: matches_def QueueEnqueHead_def QueueInit_def Let_def)
    moreover have "queue_rep (?sq1, set_next x 0 M) (xs @ ys)"
      using R(3-5) True n0 by (simp add: queue_rep_def)
    ultimately show ?thesis using walk by auto
  next
    case False
    let ?sq1 = "if ?n = 0 then sq\<lparr>q_tail := last xs\<rparr> else sq"
    let ?M1 = "set_next x 0 (set_next (last xs) ?n M)"
    have l: "last xs \<in> set xs" "last xs \<noteq> x" "last xs \<notin> set ys"
      using last_in_set [OF False] R(4) by auto
    have "cancel_loop i x ?prev sq QueueInit M = Some (?sq1, \<lparr>q_head = x, q_tail = x\<rparr>, ?M1)"
      using R(2) yes hd False
      by (subst cancel_loop.simps) (simp add: matches_def QueueEnqueHead_def QueueInit_def Let_def)
    moreover have "chain (set_next (last xs) ?n M) (q_head sq) xs ?n"
      using chain_set_last [OF R(1) False] R(4) by simp
    then have "queue_rep (?sq1, ?M1) (xs @ ys)"
      using R(3-5) False l n0 by (auto simp: queue_rep_def)
    ultimately show ?thesis using walk by auto
  qed
qed

lemma complete_loop_one:
  assumes "nbl_next (M x) = 0" and "x \<noteq> 0"
  shows "complete_loop reason \<lparr>q_head = x, q_tail = x\<rparr> M [] =
           Some (Inr ((set_next x 0 M)(x := (set_next x 0 M x)\<lparr>nbl_status := reason\<rparr>), [Send_complete x False]))"
  using assms
  by (subst complete_loop.simps) (simp add: QueueEmpty_def QueueDeque_def complete_one_def)

lemma queue_rep_status [simp]:
  "queue_rep (q, M(p := (M p)\<lparr>nbl_status := s\<rparr>)) xs = queue_rep (q, M) xs"
proof -
  have "chain (M(p := (M p)\<lparr>nbl_status := s\<rparr>)) h xs 0 = chain M h xs 0" for h
    by (rule chain_cong) simp
  then show ?thesis by (simp add: queue_rep_def)
qed

lemma set_next_same: "nbl_next (M p) = n \<Longrightarrow> set_next p n M = M"
  by (auto simp: set_next_def)

lemma cancel_queued_first:
  assumes rep: "queue_rep (a_sendQueue (v_adapter v), v_nbls v) (xs @ x # ys)"
    and no: "\<forall>y\<in>set xs. \<not> matches i (v_nbls v) y" and yes: "matches i (v_nbls v) x"
  shows "\<exists>v'. SrCancelQueued i reason v = Some (Inr v')
           \<and> queue_rep (a_sendQueue (v_adapter v'), v_nbls v') (xs @ ys)
           \<and> v_io v' = v_io v @ [Send_complete x False] \<and> nbl_status (v_nbls v' x) = reason
           \<and> (\<forall>p. p \<noteq> x \<longrightarrow> nbl_status (v_nbls v' p) = nbl_status (v_nbls v p))
           \<and> (\<forall>p. nbl_cancel_id (v_nbls v' p) = nbl_cancel_id (v_nbls v p))
           \<and> v_adapter v' = (v_adapter v)\<lparr>a_sendQueue := a_sendQueue (v_adapter v')\<rparr>
           \<and> v_tcbs v' = v_tcbs v \<and> v_list v' = v_list v \<and> v_live v' = v_live v \<and> v_pool v' = v_pool v
           \<and> (\<forall>p. nbl_frames (v_nbls v' p) = nbl_frames (v_nbls v p))"
proof -
  obtain sq1 M1 where loop: "cancel_loop i (q_head (a_sendQueue (v_adapter v))) (q_head (a_sendQueue (v_adapter v)))
      (a_sendQueue (v_adapter v)) QueueInit (v_nbls v) = Some (sq1, \<lparr>q_head = x, q_tail = x\<rparr>, M1)"
    and rep1: "queue_rep (sq1, M1) (xs @ ys)" and n: "nbl_next (M1 x) = 0"
    and same: "\<forall>p. nbl_status (M1 p) = nbl_status (v_nbls v p) \<and> nbl_cancel_id (M1 p) = nbl_cancel_id (v_nbls v p)
      \<and> nbl_frames (M1 p) = nbl_frames (v_nbls v p)"
    using cancel_loop_match [OF rep no yes] by blast
  have "x \<noteq> 0" using rep by (auto simp: queue_rep_def)
  then show ?thesis
    using loop rep1 n same complete_loop_one [of M1 x reason]
    by (simp add: SrCancelQueued_def set_next_same)
qed

lemma cancel_queued_none:
  assumes rep: "queue_rep (a_sendQueue (v_adapter v), v_nbls v) xs"
    and no: "\<forall>y\<in>set xs. \<not> matches i (v_nbls v) y"
  shows "SrCancelQueued i reason v = Some (Inr v)"
proof -
  have "cancel_loop i (q_head (a_sendQueue (v_adapter v))) (q_head (a_sendQueue (v_adapter v)))
      (a_sendQueue (v_adapter v)) QueueInit (v_nbls v) = Some (a_sendQueue (v_adapter v), QueueInit, v_nbls v)"
    using rep by (subst cancel_loop_skip [OF _ no]) (auto simp: queue_rep_def)
  then show ?thesis
    by (simp add: SrCancelQueued_def) (simp add: QueueEmpty_def QueueInit_def)
qed

text \<open>Freeing all queued sends frees the first one.\<close>

lemma free_queued_once:
  assumes rep: "queue_rep (a_sendQueue (v_adapter v), v_nbls v) q"
  shows "\<exists>v'. VenetFreeQueuedSend st v = Some (Inr v')
           \<and> queue_rep (a_sendQueue (v_adapter v'), v_nbls v') (tl q)
           \<and> v_io v' = v_io v @ (if q = [] then [] else [Send_complete (hd q) False])
           \<and> v_adapter v' = (v_adapter v)\<lparr>a_sendQueue := a_sendQueue (v_adapter v')\<rparr>
           \<and> v_tcbs v' = v_tcbs v \<and> v_list v' = v_list v \<and> v_live v' = v_live v \<and> v_pool v' = v_pool v
           \<and> (q \<noteq> [] \<longrightarrow> nbl_status (v_nbls v' (hd q)) = st)
           \<and> (\<forall>p. p \<noteq> q_head (a_sendQueue (v_adapter v)) \<longrightarrow> nbl_status (v_nbls v' p) = nbl_status (v_nbls v p))"
proof (cases q)
  case Nil
  then show ?thesis
    using cancel_queued_none [of v q 0 st] rep by (auto simp: VenetFreeQueuedSend_def)
next
  case (Cons x xs)
  then have "q_head (a_sendQueue (v_adapter v)) = x" using rep by (simp add: queue_rep_def)
  then show ?thesis
    using cancel_queued_first [of v "[]" x xs 0 st] rep Cons by (auto simp: VenetFreeQueuedSend_def matches_def)
qed

section \<open>Properties\<close>

text \<open>Claim C17. \<open>SrCancelQueued\<close> returns and keeps the queue in order, but it cancels one entry at most: moving a match to
  the local queue overwrites the link the walk continues from, so the first entry with the cancel id is completed with the given
  status and every later one, with the same id or under the null id that means all, stays queued with its status untouched; without a match nothing changes.\<close>

theorem cancel_stops_at_first_match:
  assumes "queue_rep (a_sendQueue (v_adapter v), v_nbls v) q"
  shows "((\<forall>y\<in>set q. \<not> matches i (v_nbls v) y) \<longrightarrow> SrCancelQueued i reason v = Some (Inr v))
       \<and> (\<forall>xs x ys. q = xs @ x # ys \<and> (\<forall>y\<in>set xs. \<not> matches i (v_nbls v) y) \<and> matches i (v_nbls v) x \<longrightarrow>
            (\<exists>v'. SrCancelQueued i reason v = Some (Inr v')
               \<and> queue_rep (a_sendQueue (v_adapter v'), v_nbls v') (xs @ ys)
               \<and> v_io v' = v_io v @ [Send_complete x False] \<and> nbl_status (v_nbls v' x) = reason
               \<and> (\<forall>y\<in>set ys. nbl_status (v_nbls v' y) = nbl_status (v_nbls v y)
                    \<and> matches i (v_nbls v') y = matches i (v_nbls v) y)))"
proof (intro conjI impI allI)
  assume "\<forall>y\<in>set q. \<not> matches i (v_nbls v) y"
  then show "SrCancelQueued i reason v = Some (Inr v)" by (rule cancel_queued_none [OF assms])
next
  fix xs x ys
  assume A: "q = xs @ x # ys \<and> (\<forall>y\<in>set xs. \<not> matches i (v_nbls v) y) \<and> matches i (v_nbls v) x"
  then have "x \<notin> set ys" using assms by (auto simp: queue_rep_def)
  then show "\<exists>v'. SrCancelQueued i reason v = Some (Inr v')
      \<and> queue_rep (a_sendQueue (v_adapter v'), v_nbls v') (xs @ ys)
      \<and> v_io v' = v_io v @ [Send_complete x False] \<and> nbl_status (v_nbls v' x) = reason
      \<and> (\<forall>y\<in>set ys. nbl_status (v_nbls v' y) = nbl_status (v_nbls v y)
           \<and> matches i (v_nbls v') y = matches i (v_nbls v) y)"
    using cancel_queued_first [of v xs x ys i reason] assms A by (fastforce simp: matches_def)
qed

section \<open>Witnesses\<close>

definition demo_adapter :: adapter where
  "demo_adapter = \<lparr>a_adapterHandle = 1, a_state = 0, a_refCount = 1, a_vif = True, a_bus_handle = 0, a_resetTimer = 0,
     a_recvTimer = 0, a_resetCount = 0, a_removeEvent = False, a_permAddress = replicate 6 0,
     a_currAddress = replicate 6 0, a_mc_size = 0, a_mc_array = replicate 192 0, a_packetFilter = 0, a_lookAhead = 1500,
     a_linkSpeed = 0, a_maxBusySends = 0, a_maxBusyRecvs = 0, a_txCount = 0, a_rxCount = 0, a_nBusyRecv = 0,
     a_rxHandle = 0x900, a_txHandle = 0xA00, a_numTcbs = 2, a_numTCBsFree = 2, a_sendQueue = QueueInit,
     a_sendEvent = True, a_sendingNBL = 0, a_dmaHandle = 0, a_tcbFree = [0x100, 0x200], a_tcbBusy = []\<rparr>"

text \<open>A frame of \<open>n\<close> bytes in one memory descriptor, and a list of net buffers with one frame.\<close>

definition demo_nb :: "nat \<Rightarrow> net_buffer" where
  "demo_nb n = \<lparr>nb_mdls = [Some (replicate n 7)], nb_offset = 0, nb_length = n\<rparr>"

definition demo_nbl :: "UINT64 \<Rightarrow> nbl" where
  "demo_nbl nx = \<lparr>nbl_next = nx, nbl_nbs = [demo_nb 100], nbl_cancel_id = 5, nbl_8021q = 0, nbl_status = 1, nbl_count = 1\<rparr>"

definition demo_venet :: venet where
  "demo_venet = \<lparr>v_adapter = demo_adapter,
     v_nbls = (\<lambda>p. demo_nbl (if p = 0x10 then 0x20 else if p = 0x20 then 0x30 else 0)),
     v_tcbs = (\<lambda>_. \<lparr>t_isCancelled = False, t_nbl = 0, t_status = 0, t_nb_count = 0, t_data = []\<rparr>),
     v_list = [0x50], v_live = [0x50, 0x100, 0x200], v_pool = [], v_io = []\<rparr>"

definition demo_queued :: venet where
  "demo_queued = upd_adapter (\<lambda>a. a\<lparr>a_sendQueue := \<lparr>q_head = 0x10, q_tail = 0x30\<rparr>\<rparr>) demo_venet"

lemma demo_queued_rep:
  "queue_rep (a_sendQueue (v_adapter demo_queued), v_nbls demo_queued) [0x10, 0x20, 0x30]"
  by (simp add: queue_rep_def demo_queued_def demo_venet_def demo_nbl_def)

lemma cancel_stops_at_first_match_witness:
  "\<exists>v'. SrCancelQueued 0 NDIS_STATUS_FAILURE demo_queued = Some (Inr v')
     \<and> queue_rep (a_sendQueue (v_adapter v'), v_nbls v') [0x20, 0x30]
     \<and> v_io v' = [Send_complete 0x10 False]"
proof -
  note T = cancel_stops_at_first_match [OF demo_queued_rep, of 0 NDIS_STATUS_FAILURE, THEN conjunct2,
      THEN spec, THEN spec, THEN spec, of "[]" "0x10" "[0x20, 0x30]"]
  have "v_io demo_queued = []" by (simp add: demo_queued_def demo_venet_def)
  with T show ?thesis by (auto simp: matches_def)
qed

end
