(* ===== verification/Venet_Send.thy ===== *)
theory Venet_Send
  imports Venet_Queue
begin

text \<open>
  The send path of the miniport, \<open>windows/venet/sendrcv.c\<close>, with the transfer control blocks of
  \<open>windows/venet/venet.c\<close>: accepting or rejecting the lists NDIS hands over, copying a frame with the
  802.1p tag and the padding, taking and returning control blocks, and the loop that works off the
  queue. Lengths are natural numbers: the code's 32-bit sums stay below the size of a frame, since
  a copy beyond the frame buffer is a fault. The lemmas give the contents of a copied frame, account
  for the control blocks, and show that the loop never gets past the first list with a frame in it.
\<close>

section \<open>Transfer control blocks\<close>

definition VenetAllocTCB :: "UINT64 \<Rightarrow> venet \<Rightarrow> UINT64 \<times> venet" where
  "VenetAllocTCB nbl v =
     (case a_tcbFree (v_adapter v) of
        [] \<Rightarrow> (0, v)
      | t # ts \<Rightarrow>
          (t, upd_adapter (\<lambda>a. a\<lparr>a_tcbFree := ts, a_tcbBusy := t # a_tcbBusy a, a_sendEvent := False,
                                 a_numTCBsFree := a_numTCBsFree a - 1\<rparr>)
                (v\<lparr>v_tcbs := (v_tcbs v)(t := (v_tcbs v t)
                     \<lparr>t_status := NDIS_STATUS_SUCCESS, t_nb_count := 0, t_nbl := nbl\<rparr>)\<rparr>)))"

text \<open>\<open>RemoveEntryList\<close> takes the block out of the list it is in.\<close>

definition VenetReleaseTCB :: "UINT64 \<Rightarrow> venet \<Rightarrow> venet outcome" where
  "VenetReleaseTCB t v =
     (if t = 0 then Inl NullDeref
      else
        Inr (upd_adapter (\<lambda>a.
          let free = t # remove1 t (a_tcbFree a);
              busy = remove1 t (a_tcbBusy a);
              a1 = a\<lparr>a_tcbFree := free, a_tcbBusy := busy, a_numTCBsFree := a_numTCBsFree a + 1\<rparr>
          in if busy = [] then a1\<lparr>a_sendEvent := True\<rparr> else a1) v))"

section \<open>Small operations\<close>

definition SrGetAdapterStatus :: "adapter \<Rightarrow> NDIS_STATUS" where
  "SrGetAdapterStatus a =
     (if VENET_TEST_FLAG a VNET_ADAPTER_RESET then NDIS_STATUS_RESET_IN_PROGRESS
      else if VENET_IS_PAUSED a then NDIS_STATUS_PAUSED
      else if VENET_NO_LINK a then NDIS_STATUS_DEVICE_FAILED
      else if VENET_TEST_FLAG a VNET_ADAPTER_HALT_IN_PROGRESS then NDIS_STATUS_CLOSING
      else if VENET_TEST_FLAG a VNET_ADAPTER_SURPRISE_REMOVED then NDIS_STATUS_CLOSING
      else if VENET_TEST_FLAG a VNET_ADAPTER_SHUTDOWN then NDIS_STATUS_CLOSING
      else NDIS_STATUS_FAILURE)"

fun count_nbs :: "net_buffer list \<Rightarrow> ULONG \<Rightarrow> ULONG" where
  "count_nbs [] cnt = cnt"
| "count_nbs (nb # nbs) cnt = count_nbs nbs (cnt + 1)"

definition SrCountNBL :: "nbl \<Rightarrow> ULONG" where
  "SrCountNBL n = count_nbs (nbl_nbs n) 0"

definition SrSubmitTCB :: "UINT64 \<Rightarrow> venet \<Rightarrow> NDIS_STATUS" where
  "SrSubmitTCB t v = NDIS_STATUS_SUCCESS"

text \<open>The walk over a chain of lists, for all the chain lasts.\<close>

partial_function (option) SrSetListStatus :: "UINT64 \<Rightarrow> NDIS_STATUS \<Rightarrow> nbl_mem \<Rightarrow> nbl_mem option" where
  "SrSetListStatus cur status M =
     (if cur = 0 then Some M
      else
        let next = nbl_next (M cur)
        in SrSetListStatus next status (M(cur := (M cur)\<lparr>nbl_status := status\<rparr>)))"

section \<open>Copying a frame\<close>

text \<open>
  The state of the copy: what was written to \<open>tcb->data\<close> so far, the offset into the next memory
  descriptor, the bytes left, whether the tag is still to be inserted, what is left of the address
  bytes before it, and the count the function returns.
\<close>

record copy_state =
  cp_out :: "UINT8 list"
  cp_offset :: nat
  cp_left :: nat
  cp_tag :: bool
  cp_mac :: nat
  cp_copied :: nat

text \<open>\<open>NdisMoveMemory\<close> to the current position of the frame buffer.\<close>

definition put_bytes :: "UINT8 list \<Rightarrow> copy_state \<Rightarrow> copy_state outcome" where
  "put_bytes bs c =
     (if length (cp_out c) + length bs \<le> NIC_BUFFER_SIZE then Inr (c\<lparr>cp_out := cp_out c @ bs\<rparr>)
      else Inl OutOfBounds)"

definition is_priority :: "UINT32 \<Rightarrow> bool" where
  "is_priority priority \<longleftrightarrow> priority \<noteq> 0 \<and> priority AND P8021_HOST_MASK = 0"

text \<open>One memory descriptor whose bytes from the offset on are \<open>src\<close>, cut to the bytes left.\<close>

definition copy_chunk :: "UINT32 \<Rightarrow> UINT8 list \<Rightarrow> copy_state \<Rightarrow> copy_state outcome" where
  "copy_chunk priority src c =
     (if is_priority priority \<and> cp_tag c then
        if cp_mac c \<le> length src then
          bind_ok (put_bytes (take (cp_mac c) src) c) (\<lambda>c1.
          bind_ok (put_bytes P8021_TPID_BYTES c1) (\<lambda>c2.
            let c3 = c2\<lparr>cp_copied := cp_copied c2 + cp_mac c + P8021_BYTE_LEN, cp_mac := 0, cp_tag := False\<rparr>
            in bind_ok (put_bytes (drop (cp_mac c) src) c3) (\<lambda>c4.
                 Inr (c4\<lparr>cp_copied := cp_copied c4 + (length src - cp_mac c), cp_offset := 0\<rparr>))))
        else
          bind_ok (put_bytes src (c\<lparr>cp_mac := cp_mac c - length src\<rparr>)) (\<lambda>c1.
            Inr (c1\<lparr>cp_copied := cp_copied c1 + length src, cp_offset := 0\<rparr>))
      else
        bind_ok (put_bytes src c) (\<lambda>c1.
          Inr (c1\<lparr>cp_copied := cp_copied c1 + length src, cp_offset := 0\<rparr>)))"

fun copy_mdls :: "UINT32 \<Rightarrow> mdl list \<Rightarrow> copy_state \<Rightarrow> copy_state outcome" where
  "copy_mdls priority [] c = Inr c"
| "copy_mdls priority (d # ds) c =
     (if cp_left c = 0 then Inr c
      else case d of
             None \<Rightarrow> Inr (c\<lparr>cp_copied := 0\<rparr>)
           | Some bytes \<Rightarrow>
               if cp_offset c < length bytes then
                 let src = take (cp_left c) (drop (cp_offset c) bytes)
                 in bind_ok (copy_chunk priority src (c\<lparr>cp_left := cp_left c - length src\<rparr>))
                      (copy_mdls priority ds)
               else copy_mdls priority ds (c\<lparr>cp_offset := cp_offset c - length bytes\<rparr>))"

definition copy_start :: "net_buffer \<Rightarrow> copy_state" where
  "copy_start nb = \<lparr>cp_out = [], cp_offset = nb_offset nb, cp_left = nb_length nb, cp_tag = True,
                    cp_mac = P8021_MAC_LEN, cp_copied = 0\<rparr>"

text \<open>The result: the count as a status, and the bytes written to the frame buffer.\<close>

definition SrCopyFrame :: "net_buffer \<Rightarrow> UINT32 \<Rightarrow> (NDIS_STATUS \<times> UINT8 list) outcome" where
  "SrCopyFrame nb priority =
     bind_ok (copy_mdls priority (nb_mdls nb) (copy_start nb)) (\<lambda>c.
       if cp_copied c \<noteq> 0 \<and> cp_copied c < ETH_MIN_PACKET_SIZE
       then bind_ok (put_bytes (replicate (ETH_MIN_PACKET_SIZE - cp_copied c) 0) c) (\<lambda>c1.
              Inr (of_nat ETH_MIN_PACKET_SIZE, cp_out c1))
       else Inr (of_nat (cp_copied c), cp_out c))"

section \<open>Working off the queue\<close>

text \<open>The frame lands in the data of the control block.\<close>

definition tcb_store :: "UINT64 \<Rightarrow> UINT8 list \<Rightarrow> venet \<Rightarrow> venet" where
  "tcb_store t bs v = v\<lparr>v_tcbs := (v_tcbs v)(t := (v_tcbs v t)\<lparr>t_data := bs @ drop (length bs) (t_data (v_tcbs v t))\<rparr>)\<rparr>"

fun process_nbs :: "UINT64 \<Rightarrow> UINT32 \<Rightarrow> net_buffer list \<Rightarrow> venet \<Rightarrow> (NDIS_STATUS \<times> venet) outcome" where
  "process_nbs nbl priority [] v = Inr (NDIS_STATUS_SUCCESS, v)"
| "process_nbs nbl priority (nb # nbs) v =
     (let (t, v1) = VenetAllocTCB nbl v
      in if t = 0 then Inl NullDeref
         else
           bind_ok (SrCopyFrame nb priority) (\<lambda>(rc, bs).
             let v2 = tcb_store t bs v1
             in if rc \<noteq> NDIS_STATUS_SUCCESS then bind_ok (VenetReleaseTCB t v2) (\<lambda>v3. Inr (rc, v3))
                else
                  let rc2 = SrSubmitTCB t v2
                  in if rc2 \<noteq> NDIS_STATUS_SUCCESS then bind_ok (VenetReleaseTCB t v2) (\<lambda>v3. Inr (rc2, v3))
                     else process_nbs nbl priority nbs v2))"

definition SrProcessNBL :: "venet \<Rightarrow> (NDIS_STATUS \<times> venet) outcome" where
  "SrProcessNBL v =
     (let p = a_sendingNBL (v_adapter v); n = v_nbls v p
      in if p = 0 then Inl NullDeref
         else if nbl_count n > a_numTCBsFree (v_adapter v) then Inr (NDIS_STATUS_RESOURCES, v)
         else process_nbs p (nbl_8021q n) (nbl_nbs n) v)"

abbreviation send_state :: "venet \<Rightarrow> queue_header \<times> nbl_mem" where
  "send_state v \<equiv> (a_sendQueue (v_adapter v), v_nbls v)"

abbreviation set_send_state :: "queue_header \<times> nbl_mem \<Rightarrow> venet \<Rightarrow> venet" where
  "set_send_state s v \<equiv> v\<lparr>v_adapter := (v_adapter v)\<lparr>a_sendQueue := fst s\<rparr>, v_nbls := snd s\<rparr>"

abbreviation set_sending :: "UINT64 \<Rightarrow> venet \<Rightarrow> venet" where
  "set_sending p v \<equiv> upd_adapter (\<lambda>a. a\<lparr>a_sendingNBL := p\<rparr>) v"

text \<open>The flush at the end, \<open>SrFlushTX\<close>, has an empty body.\<close>

partial_function (option) SrProcessQueue :: "venet \<Rightarrow> venet outcome option" where
  "SrProcessQueue v =
     (if a_sendingNBL (v_adapter v) \<noteq> 0 \<or> QueueEmpty (a_sendQueue (v_adapter v)) \<or> VENET_IS_NOT_READY (v_adapter v)
      then Some (Inr v)
      else
        case QueueDeque (send_state v) of
          Inl e \<Rightarrow> Some (Inl e)
        | Inr (p, s) \<Rightarrow>
            (case SrProcessNBL (set_sending p (set_send_state s v)) of
               Inl e \<Rightarrow> Some (Inl e)
             | Inr (rc, v1) \<Rightarrow>
                 if rc \<noteq> NDIS_STATUS_SUCCESS
                 then Some (Inr (set_sending 0 (set_send_state (QueueEnqueHead (a_sendingNBL (v_adapter v1)) (send_state v1)) v1)))
                 else SrProcessQueue (set_sending 0 v1)))"

section \<open>Entry points\<close>

text \<open>The loop of \<open>VenetSendNetBufs\<close> that counts and queues, following the links before it changes them.\<close>

partial_function (option) queue_sends :: "UINT64 \<Rightarrow> queue_header \<times> nbl_mem \<Rightarrow> (queue_header \<times> nbl_mem) option" where
  "queue_sends cur s =
     (if cur = 0 then Some s
      else
        let next = nbl_next (snd s cur);
            M = (snd s)(cur := (snd s cur)\<lparr>nbl_count := SrCountNBL (snd s cur)\<rparr>)
        in queue_sends next (QueueEnqueTail cur (fst s, M)))"

definition VenetSendNetBufs :: "UINT64 \<Rightarrow> bool \<Rightarrow> venet \<Rightarrow> venet outcome option" where
  "VenetSendNetBufs sendList dlevel v =
     (if VENET_IS_NOT_READY (v_adapter v) then
        (case SrSetListStatus sendList (SrGetAdapterStatus (v_adapter v)) (v_nbls v) of
           None \<Rightarrow> None
         | Some M \<Rightarrow> Some (Inr (nio (Send_complete sendList dlevel) (v\<lparr>v_nbls := M\<rparr>))))
      else
        (case queue_sends sendList (send_state v) of
           None \<Rightarrow> None
         | Some s \<Rightarrow> SrProcessQueue (set_send_state s v)))"

definition VenetTxCompletion :: "UINT64 \<Rightarrow> venet \<Rightarrow> venet option" where
  "VenetTxCompletion t v =
     (let n = t_nb_count (v_tcbs v t) - 1;
          v1 = v\<lparr>v_tcbs := (v_tcbs v)(t := (v_tcbs v t)\<lparr>t_nb_count := n\<rparr>)\<rparr>;
          p = t_nbl (v_tcbs v1 t)
      in if n = 0 then
           (case SrSetListStatus p NDIS_STATUS_SUCCESS (v_nbls v1) of
              None \<Rightarrow> None
            | Some M \<Rightarrow> Some (nio (Send_complete p False) (v1\<lparr>v_nbls := M\<rparr>)))
         else Some v1)"

section \<open>What a copied frame holds\<close>

text \<open>The data of a net buffer whose memory is mapped.\<close>

definition frame_data :: "nat \<Rightarrow> nat \<Rightarrow> UINT8 list list \<Rightarrow> UINT8 list" where
  "frame_data offset len bss = take len (drop offset (concat bss))"

lemma frame_data_Nil [simp]: "frame_data offset len [] = []"
  by (simp add: frame_data_def)

lemma frame_data_Cons:
  "frame_data offset len (bs # bss) =
     (if offset < length bs
      then let src = take len (drop offset bs) in src @ frame_data 0 (len - length src) bss
      else frame_data (offset - length bs) len bss)"
  by (auto simp: frame_data_def Let_def min_def)

lemma frame_data_0 [simp]: "frame_data offset 0 bss = []"
  by (simp add: frame_data_def)

text \<open>Without a tag to insert, the data is appended as it is.\<close>

lemma copy_mdls_plain:
  assumes "\<not> (is_priority priority \<and> cp_tag c)"
    and "length (cp_out c) + length (frame_data (cp_offset c) (cp_left c) bss) \<le> NIC_BUFFER_SIZE"
  shows "\<exists>c'. copy_mdls priority (map Some bss) c = Inr c'
           \<and> cp_out c' = cp_out c @ frame_data (cp_offset c) (cp_left c) bss
           \<and> cp_copied c' = cp_copied c + length (frame_data (cp_offset c) (cp_left c) bss)"
  using assms
proof (induction bss arbitrary: c)
  case (Cons bs bss)
  show ?case
  proof (cases "cp_left c = 0 \<or> \<not> cp_offset c < length bs")
    case True
    then show ?thesis
      using Cons.IH [of "c\<lparr>cp_offset := cp_offset c - length bs\<rparr>"] Cons.prems by (auto simp: frame_data_Cons)
  next
    case False
    let ?src = "take (cp_left c) (drop (cp_offset c) bs)"
    let ?c = "c\<lparr>cp_left := cp_left c - length ?src\<rparr>"
    let ?c1 = "?c\<lparr>cp_out := cp_out c @ ?src, cp_copied := cp_copied c + length ?src, cp_offset := 0\<rparr>"
    have data: "frame_data (cp_offset c) (cp_left c) (bs # bss) = ?src @ frame_data 0 (cp_left c - length ?src) bss"
      using False by (simp only: frame_data_Cons Let_def if_True not_not de_Morgan_disj)
    have "copy_chunk priority ?src ?c = Inr ?c1"
      using Cons.prems False unfolding data by (auto simp: copy_chunk_def put_bytes_def)
    moreover have "\<exists>c'. copy_mdls priority (map Some bss) ?c1 = Inr c'
        \<and> cp_out c' = cp_out ?c1 @ frame_data 0 (cp_left c - length ?src) bss
        \<and> cp_copied c' = cp_copied ?c1 + length (frame_data 0 (cp_left c - length ?src) bss)"
      using Cons.IH [of ?c1] Cons.prems unfolding data by simp
    ultimately show ?thesis
      using False unfolding data by (auto simp: Let_def)
  qed
qed simp

text \<open>With a tag, two bytes go in behind the addresses and four are counted.\<close>

lemma copy_chunk_tag:
  assumes "is_priority priority" and "cp_tag c" and "cp_mac c \<le> length src"
    and "length (cp_out c) + length src + 2 \<le> NIC_BUFFER_SIZE"
  shows "copy_chunk priority src c = Inr (c\<lparr>
      cp_out := cp_out c @ take (cp_mac c) src @ P8021_TPID_BYTES @ drop (cp_mac c) src,
      cp_copied := cp_copied c + length src + P8021_BYTE_LEN, cp_mac := 0, cp_tag := False, cp_offset := 0\<rparr>)"
  using assms by (simp add: copy_chunk_def put_bytes_def P8021_TPID_BYTES_def Let_def)

lemma copy_chunk_short:
  assumes "is_priority priority" and "cp_tag c" and "\<not> cp_mac c \<le> length src"
    and "length (cp_out c) + length src \<le> NIC_BUFFER_SIZE"
  shows "copy_chunk priority src c = Inr (c\<lparr>cp_out := cp_out c @ src, cp_copied := cp_copied c + length src,
      cp_mac := cp_mac c - length src, cp_offset := 0\<rparr>)"
  using assms by (simp add: copy_chunk_def put_bytes_def)

lemma copy_mdls_tagged:
  assumes "is_priority priority" and "cp_tag c" and "d = frame_data (cp_offset c) (cp_left c) bss"
    and "0 < cp_mac c" and "cp_mac c \<le> length d" and "length (cp_out c) + length d + 2 \<le> NIC_BUFFER_SIZE"
  shows "\<exists>c'. copy_mdls priority (map Some bss) c = Inr c'
           \<and> cp_out c' = cp_out c @ take (cp_mac c) d @ P8021_TPID_BYTES @ drop (cp_mac c) d
           \<and> cp_copied c' = cp_copied c + length d + P8021_BYTE_LEN"
  using assms
proof (induction bss arbitrary: c d)
  case Nil
  then show ?case by simp
next
  case (Cons bs bss)
  have left: "cp_left c \<noteq> 0" using Cons.prems by (cases "cp_left c") auto
  show ?case
  proof (cases "cp_offset c < length bs")
    case False
    then show ?thesis
      using Cons.IH [of "c\<lparr>cp_offset := cp_offset c - length bs\<rparr>" d] Cons.prems left
      by (simp add: frame_data_Cons)
  next
    case True
    define src where "src = take (cp_left c) (drop (cp_offset c) bs)"
    define rest where "rest = frame_data 0 (cp_left c - length src) bss"
    let ?c = "c\<lparr>cp_left := cp_left c - length src\<rparr>"
    have d: "d = src @ rest"
      using True Cons.prems(3) by (simp only: frame_data_Cons Let_def if_True src_def rest_def)
    have len: "length (cp_out c) + length src + length rest + 2 \<le> NIC_BUFFER_SIZE"
      using Cons.prems(6) unfolding d by simp
    have run: "copy_mdls priority (map Some (bs # bss)) c = bind_ok (copy_chunk priority src ?c) (copy_mdls priority (map Some bss))"
      using True left by (simp add: Let_def src_def)
    show ?thesis
    proof (cases "cp_mac c \<le> length src")
      case True
      let ?c1 = "?c\<lparr>cp_out := cp_out c @ take (cp_mac c) src @ P8021_TPID_BYTES @ drop (cp_mac c) src,
        cp_copied := cp_copied c + length src + P8021_BYTE_LEN, cp_mac := 0, cp_tag := False, cp_offset := 0\<rparr>"
      have chunk: "copy_chunk priority src ?c = Inr ?c1"
        using copy_chunk_tag [of priority ?c src] Cons.prems(1,2) True len by simp
      obtain c' where "copy_mdls priority (map Some bss) ?c1 = Inr c'" and "cp_out c' = cp_out ?c1 @ rest"
        and "cp_copied c' = cp_copied ?c1 + length rest"
        using copy_mdls_plain [of priority ?c1 bss] len True
        by (auto simp: P8021_TPID_BYTES_def rest_def)
      then show ?thesis
        unfolding run chunk d using True by simp
    next
      case False
      let ?c1 = "?c\<lparr>cp_out := cp_out c @ src, cp_copied := cp_copied c + length src,
        cp_mac := cp_mac c - length src, cp_offset := 0\<rparr>"
      have chunk: "copy_chunk priority src ?c = Inr ?c1"
        using copy_chunk_short [of priority ?c src] Cons.prems(1,2) False len by simp
      have mac: "cp_mac c - length src \<le> length rest" "0 < cp_mac c - length src"
        using Cons.prems(5) False unfolding d by simp_all
      obtain c' where "copy_mdls priority (map Some bss) ?c1 = Inr c'"
        and "cp_out c' = cp_out ?c1 @ take (cp_mac ?c1) rest @ P8021_TPID_BYTES @ drop (cp_mac ?c1) rest"
        and "cp_copied c' = cp_copied ?c1 + length rest + P8021_BYTE_LEN"
        using Cons.IH [of ?c1 rest] Cons.prems(1,2) mac len by (auto simp: rest_def)
      then show ?thesis
        unfolding run chunk d using False by simp
    qed
  qed
qed

lemma nic_buffer_size: "NIC_BUFFER_SIZE = 1514"
  by (simp add: NIC_BUFFER_SIZE_def ETH_HEADER_SIZE_def ETH_MAX_DATA_SIZE_def)

lemma min_packet: "ETH_MIN_PACKET_SIZE = 60"
  by (simp add: ETH_MIN_PACKET_SIZE_def)

definition zeros :: "nat \<Rightarrow> UINT8 list" where "zeros n = replicate n 0"

lemma copy_frame_plain_eq:
  assumes "nb_mdls nb = map Some bss" and "d = frame_data (nb_offset nb) (nb_length nb) bss"
    and "\<not> is_priority priority" and "length d \<le> NIC_BUFFER_SIZE"
  shows "SrCopyFrame nb priority =
     (if d = [] then Inr (0, []) else Inr (of_nat (max 60 (length d)), d @ zeros (60 - length d)))"
proof -
  obtain c where c: "copy_mdls priority (nb_mdls nb) (copy_start nb) = Inr c" "cp_out c = d" "cp_copied c = length d"
    using copy_mdls_plain [of priority "copy_start nb" bss] assms by (auto simp: copy_start_def)
  show ?thesis
    using c assms(4)
    by (auto simp: SrCopyFrame_def put_bytes_def min_packet nic_buffer_size zeros_def max_def)
qed

section \<open>The accounting of control blocks\<close>

text \<open>Every block is on one of the two lists, the counter tells the free ones, the event the busy ones.\<close>

definition tcb_ok :: "adapter \<Rightarrow> bool" where
  "tcb_ok a \<longleftrightarrow>
     a_numTCBsFree a = of_nat (length (a_tcbFree a)) \<and> distinct (a_tcbFree a @ a_tcbBusy a)
   \<and> 0 \<notin> set (a_tcbFree a @ a_tcbBusy a) \<and> a_sendEvent a = (a_tcbBusy a = [])"

lemma alloc_tcb_none: "a_tcbFree (v_adapter v) = [] \<Longrightarrow> VenetAllocTCB p v = (0, v)"
  by (simp add: VenetAllocTCB_def)

lemma alloc_tcb_ok:
  assumes "tcb_ok (v_adapter v)" and "VenetAllocTCB p v = (t, v1)"
  shows "tcb_ok (v_adapter v1) \<and> (t = 0 \<longleftrightarrow> a_tcbFree (v_adapter v) = [])
       \<and> (t \<noteq> 0 \<longrightarrow> t \<in> set (a_tcbBusy (v_adapter v1)))"
  using assms by (auto simp: VenetAllocTCB_def tcb_ok_def split: list.splits)

lemma release_tcb_ok:
  assumes ok: "tcb_ok (v_adapter v)" and t: "t \<in> set (a_tcbBusy (v_adapter v))"
  shows "\<exists>v1. VenetReleaseTCB t v = Inr v1 \<and> tcb_ok (v_adapter v1)
       \<and> a_tcbFree (v_adapter v1) = t # a_tcbFree (v_adapter v)
       \<and> set (a_tcbBusy (v_adapter v1)) = set (a_tcbBusy (v_adapter v)) - {t}"
proof -
  have "t \<noteq> 0" "t \<notin> set (a_tcbFree (v_adapter v))" "a_tcbBusy (v_adapter v) \<noteq> []"
    "distinct (a_tcbBusy (v_adapter v))"
    using ok t by (auto simp: tcb_ok_def)
  moreover from this have "set (remove1 t (a_tcbBusy (v_adapter v))) = set (a_tcbBusy (v_adapter v)) - {t}"
    by simp
  moreover from this have "remove1 t (a_tcbBusy (v_adapter v)) = [] \<Longrightarrow> set (a_tcbBusy (v_adapter v)) - {t} = {}"
    by simp
  ultimately show ?thesis
    using ok by (auto simp: VenetReleaseTCB_def tcb_ok_def Let_def remove1_idem)
qed

text \<open>A block taken and given back leaves the adapter as it was.\<close>

lemma alloc_release_tcb:
  assumes ok: "tcb_ok (v_adapter v)" and "a_tcbFree (v_adapter v) \<noteq> []" and al: "VenetAllocTCB p v = (t, v1)"
  shows "\<exists>T. VenetReleaseTCB t (tcb_store t bs v1) = Inr (v\<lparr>v_tcbs := T\<rparr>)"
proof -
  obtain ts where free: "a_tcbFree (v_adapter v) = t # ts"
    using assms(2) al by (auto simp: VenetAllocTCB_def split: list.splits)
  then have t: "t \<noteq> 0" "t \<notin> set ts" "t \<notin> set (a_tcbBusy (v_adapter v))"
    and ev: "a_sendEvent (v_adapter v) = (a_tcbBusy (v_adapter v) = [])"
    using ok by (auto simp: tcb_ok_def)
  have v1: "v_adapter v1 = (v_adapter v)\<lparr>a_tcbFree := ts, a_tcbBusy := t # a_tcbBusy (v_adapter v),
      a_sendEvent := False, a_numTCBsFree := a_numTCBsFree (v_adapter v) - 1\<rparr>"
    "v_nbls v1 = v_nbls v" "v_list v1 = v_list v" "v_live v1 = v_live v" "v_pool v1 = v_pool v" "v_io v1 = v_io v"
    using al free by (auto simp: VenetAllocTCB_def)
  have "\<exists>T. VenetReleaseTCB t (tcb_store t bs v1) = Inr (v1\<lparr>v_adapter := v_adapter v, v_tcbs := T\<rparr>)"
    using t free ev
    by (auto simp: VenetReleaseTCB_def tcb_store_def v1 remove1_idem Let_def intro!: exI adapter.equality venet.equality)
  moreover have "v1\<lparr>v_adapter := v_adapter v, v_tcbs := T\<rparr> = v\<lparr>v_tcbs := T\<rparr>" for T
    by (rule venet.equality) (simp_all add: v1)
  ultimately show ?thesis by auto
qed


section \<open>The queue of the senders\<close>

lemma queue_rep_cong:
  assumes "queue_rep (q, M) xs" and "\<And>p. p \<in> set xs \<Longrightarrow> nbl_next (N p) = nbl_next (M p)"
  shows "queue_rep (q, N) xs"
  using assms chain_cong [of xs N M] by (simp add: queue_rep_def)

text \<open>\<open>queue_sends\<close> appends a chain of lists: each link is read before the list is queued.\<close>

lemma queue_sends_append:
  assumes "queue_rep (q, M) xs" and "chain M p ys 0" and "distinct (xs @ ys)"
  shows "\<exists>q' M'. queue_sends p (q, M) = Some (q', M') \<and> queue_rep (q', M') (xs @ ys)
       \<and> (\<forall>a. nbl_nbs (M' a) = nbl_nbs (M a) \<and> nbl_8021q (M' a) = nbl_8021q (M a)
            \<and> nbl_status (M' a) = nbl_status (M a) \<and> nbl_cancel_id (M' a) = nbl_cancel_id (M a))
       \<and> (\<forall>y\<in>set ys. nbl_count (M' y) = SrCountNBL (M y))
       \<and> (\<forall>y. y \<notin> set ys \<longrightarrow> nbl_count (M' y) = nbl_count (M y))"
  using assms
proof (induction ys arbitrary: q M p xs)
  case Nil
  then show ?case by (subst queue_sends.simps) auto
next
  case (Cons y ys)
  define M1 where "M1 = M(y := (M y)\<lparr>nbl_count := SrCountNBL (M y)\<rparr>)"
  obtain q2 M2 where e: "QueueEnqueTail y (q, M1) = (q2, M2)" by fastforce
  have p: "p = y" "y \<noteq> 0" "chain M (nbl_next (M y)) ys 0" "y \<notin> set xs" "y \<notin> set ys"
    using Cons.prems by auto
  have "queue_rep (q, M1) xs"
    by (rule queue_rep_cong [OF Cons.prems(1)]) (simp add: M1_def)
  then have rep: "queue_rep (q2, M2) (xs @ [y])"
    using sendq.enq_tail_law [of "(q, M1)" xs y] p e by simp
  have last_in_ys: "xs \<noteq> [] \<Longrightarrow> last xs \<notin> set ys"
    using Cons.prems(3) last_in_set [of xs] by (auto simp: disjoint_iff)
  have next2: "nbl_next (M2 a) = nbl_next (M a)" if "a \<in> set ys" for a
    using e that p Cons.prems(1,3) last_in_ys
    by (auto simp: QueueEnqueTail_def Let_def M1_def QueueEmpty_def queue_rep_def split: if_splits)
  have keep: "nbl_nbs (M2 a) = nbl_nbs (M a)" "nbl_8021q (M2 a) = nbl_8021q (M a)"
    "nbl_status (M2 a) = nbl_status (M a)" "nbl_cancel_id (M2 a) = nbl_cancel_id (M a)"
    "nbl_count (M2 a) = (if a = y then SrCountNBL (M y) else nbl_count (M a))" for a
    using e by (auto simp: QueueEnqueTail_def Let_def M1_def split: if_splits)
  have cnt: "SrCountNBL (M2 a) = SrCountNBL (M a)" for a by (simp add: SrCountNBL_def keep)
  have "chain M2 (nbl_next (M y)) ys 0"
    using p(3) chain_cong [of ys M2 M] next2 by simp
  from Cons.IH [OF rep this] Cons.prems(3)
  obtain q' M' where IH: "queue_sends (nbl_next (M y)) (q2, M2) = Some (q', M')"
    "queue_rep (q', M') (xs @ y # ys)"
    "\<forall>a. nbl_nbs (M' a) = nbl_nbs (M2 a) \<and> nbl_8021q (M' a) = nbl_8021q (M2 a)
       \<and> nbl_status (M' a) = nbl_status (M2 a) \<and> nbl_cancel_id (M' a) = nbl_cancel_id (M2 a)"
    "\<forall>a\<in>set ys. nbl_count (M' a) = SrCountNBL (M2 a)"
    "\<forall>a. a \<notin> set ys \<longrightarrow> nbl_count (M' a) = nbl_count (M2 a)"
    by auto
  have "queue_sends p (q, M) = Some (q', M')"
    using IH(1) p e by (subst queue_sends.simps) (simp add: M1_def)
  then show ?case
    using IH(2-) p(5) by (auto simp: keep cnt)
qed

lemma set_list_status:
  assumes "chain M p xs 0" and "distinct xs"
  shows "SrSetListStatus p st M = Some (\<lambda>a. if a \<in> set xs then (M a)\<lparr>nbl_status := st\<rparr> else M a)"
  using assms
proof (induction xs arbitrary: p M)
  case Nil
  then show ?case by (subst SrSetListStatus.simps) simp
next
  case (Cons x xs)
  define N where "N = M(x := (M x)\<lparr>nbl_status := st\<rparr>)"
  have "chain N (nbl_next (M x)) xs 0"
    using Cons.prems chain_cong [of xs N M] by (simp add: N_def)
  then have "SrSetListStatus (nbl_next (M x)) st N = Some (\<lambda>a. if a \<in> set xs then (N a)\<lparr>nbl_status := st\<rparr> else N a)"
    using Cons by auto
  moreover have "SrSetListStatus p st M = SrSetListStatus (nbl_next (M x)) st N"
    using Cons.prems by (subst SrSetListStatus.simps) (simp add: N_def)
  ultimately show ?case
    using Cons.prems by (auto simp: N_def fun_eq_iff)
qed

text \<open>Taking the first list off the queue and putting it back changes nothing.\<close>

lemma deque_enque_id:
  assumes "queue_rep (q, M) (x # xs)"
  shows "\<exists>s. QueueDeque (q, M) = Inr (x, s) \<and> QueueEnqueHead x s = (q, M)
           \<and> (\<forall>a. nbl_nbs (snd s a) = nbl_nbs (M a) \<and> nbl_8021q (snd s a) = nbl_8021q (M a)
                \<and> nbl_count (snd s a) = nbl_count (M a))"
proof -
  have "q_head q = x" "x \<noteq> 0" "chain M (nbl_next (M x)) xs 0" "q_tail q = (if xs = [] then x else last xs)"
    "0 \<notin> set xs"
    using assms chain_nonzero by (auto simp: queue_rep_def)
  moreover from this have "nbl_next (M x) = 0 \<longleftrightarrow> xs = []" using chain_start by blast
  moreover from \<open>0 \<notin> set xs\<close> have "xs \<noteq> [] \<Longrightarrow> last xs \<noteq> 0" by (metis last_in_set)
  ultimately show ?thesis
    by (auto simp: QueueDeque_def QueueEnqueHead_def Let_def set_next_def)
qed


section \<open>The loop over the queue\<close>

text \<open>A frame the copy accepts: mapped memory, some data, and room for it in the frame buffer.\<close>

definition sendable :: "UINT32 \<Rightarrow> net_buffer \<Rightarrow> bool" where
  "sendable priority nb \<longleftrightarrow>
     (\<forall>d\<in>set (nb_mdls nb). d \<noteq> None)
   \<and> (let n = length (frame_data (nb_offset nb) (nb_length nb) (map the (nb_mdls nb)))
      in if is_priority priority then 12 \<le> n \<and> n \<le> 1512 else 0 < n \<and> n \<le> 1514)"

lemma tag_copy_eq:
  assumes "nb_mdls nb = map Some bss" and "d = frame_data (nb_offset nb) (nb_length nb) bss"
    and "is_priority priority" and "12 \<le> length d" and "length d \<le> 1512"
  shows "SrCopyFrame nb priority =
     Inr (of_nat (max 60 (length d + 4)), take 12 d @ [0x81, 0x00] @ drop 12 d @ zeros (60 - (length d + 4)))"
proof -
  obtain c where c: "copy_mdls priority (nb_mdls nb) (copy_start nb) = Inr c"
    "cp_out c = take 12 d @ P8021_TPID_BYTES @ drop 12 d" "cp_copied c = length d + 4"
    using copy_mdls_tagged [of priority "copy_start nb" d bss] assms
    by (auto simp: copy_start_def nic_buffer_size P8021_MAC_LEN_def P8021_BYTE_LEN_def)
  have "length (cp_out c) = length d + 2"
    using c(2) assms(4) by (simp add: P8021_TPID_BYTES_def)
  then show ?thesis
    using c assms(5)
    by (auto simp: SrCopyFrame_def put_bytes_def min_packet nic_buffer_size zeros_def max_def P8021_TPID_BYTES_def)
qed

lemma count_nonzero:
  assumes "n \<le> 4000"
  shows "(of_nat (max 60 n) :: 32 word) \<noteq> 0"
proof -
  have "unat (of_nat (max 60 n) :: 32 word) = max 60 n"
    using assms by (simp add: unat_of_nat del: of_nat_numeral)
  then show ?thesis by (metis max.cobounded1 not_numeral_le_zero unat_0)
qed

text \<open>The count of bytes comes back where the caller expects a status.\<close>

lemma sendable_copy_fails:
  assumes "sendable priority nb"
  shows "\<exists>rc bs. SrCopyFrame nb priority = Inr (rc, bs) \<and> rc \<noteq> 0"
proof -
  define bss where "bss = map the (nb_mdls nb)"
  define d where "d = frame_data (nb_offset nb) (nb_length nb) bss"
  have m: "nb_mdls nb = map Some bss"
    using assms by (auto simp: sendable_def bss_def map_idI [symmetric] comp_def intro!: map_idI)
  show ?thesis
  proof (cases "is_priority priority")
    case True
    then have n: "12 \<le> length d" "length d \<le> 1512"
      using assms by (auto simp: sendable_def Let_def d_def bss_def)
    then show ?thesis
      using tag_copy_eq [OF m d_def True n] count_nonzero [of "length d + 4"] by auto
  next
    case False
    then have n: "d \<noteq> []" "length d \<le> 1514"
      using assms by (auto simp: sendable_def Let_def d_def bss_def)
    then show ?thesis
      using copy_frame_plain_eq [OF m d_def False] count_nonzero [of "length d"] by (auto simp: nic_buffer_size)
  qed
qed

text \<open>The list at hand comes back with an error and the control block is returned.\<close>

lemma process_nbl_fails:
  assumes ok: "tcb_ok (v_adapter v)" and p: "a_sendingNBL (v_adapter v) = p" "p \<noteq> 0"
    and nbs: "nbl_nbs (v_nbls v p) = nb # nbs" and send: "sendable (nbl_8021q (v_nbls v p)) nb"
    and cnt: "nbl_count (v_nbls v p) = SrCountNBL (v_nbls v p)" and len: "length nbs < 2 ^ 32 - 1"
  shows "\<exists>rc T. SrProcessNBL v = Inr (rc, v\<lparr>v_tcbs := T\<rparr>) \<and> rc \<noteq> 0"
proof (cases "nbl_count (v_nbls v p) > a_numTCBsFree (v_adapter v)")
  case True
  then have "SrProcessNBL v = Inr (NDIS_STATUS_RESOURCES, v\<lparr>v_tcbs := v_tcbs v\<rparr>)"
    using p by (simp add: SrProcessNBL_def Let_def)
  then show ?thesis by (intro exI [of _ NDIS_STATUS_RESOURCES] exI [of _ "v_tcbs v"]) simp
next
  case False
  have "count_nbs l c = c + of_nat (length l)" for l c
    by (induction l arbitrary: c) auto
  then have c: "nbl_count (v_nbls v p) = of_nat (Suc (length nbs))"
    by (simp add: cnt SrCountNBL_def nbs)
  have "unat (of_nat (Suc (length nbs)) :: 32 word) = Suc (length nbs)"
    using len by (simp add: unat_of_nat del: of_nat_Suc)
  then have "nbl_count (v_nbls v p) \<noteq> 0" unfolding c by (metis nat.distinct(1) unat_0)
  then have "a_tcbFree (v_adapter v) \<noteq> []"
    using False ok by (auto simp: tcb_ok_def word_greater_zero_iff)
  moreover obtain t v1 where al: "VenetAllocTCB p v = (t, v1)" by fastforce
  moreover obtain rc bs where rc: "SrCopyFrame nb (nbl_8021q (v_nbls v p)) = Inr (rc, bs)" "rc \<noteq> 0"
    using sendable_copy_fails [OF send] by blast
  ultimately obtain T where "VenetReleaseTCB t (tcb_store t bs v1) = Inr (v\<lparr>v_tcbs := T\<rparr>)" and "t \<noteq> 0"
    using alloc_release_tcb [OF ok _ al] alloc_tcb_ok [OF ok al] by blast
  then have "SrProcessNBL v = Inr (rc, v\<lparr>v_tcbs := T\<rparr>)"
    using False p rc al by (simp add: SrProcessNBL_def Let_def nbs)
  then show ?thesis using rc(2) by blast
qed


text \<open>One pass of the loop over a queue whose first list has a frame to send.\<close>

lemma process_queue_stuck:
  assumes ready: "\<not> VENET_IS_NOT_READY (v_adapter v)" and ok: "tcb_ok (v_adapter v)"
    and idle: "a_sendingNBL (v_adapter v) = 0" and rep: "queue_rep (send_state v) (x # xs)"
    and nbs: "nbl_nbs (v_nbls v x) = nb # nbs" and send: "sendable (nbl_8021q (v_nbls v x)) nb"
    and cnt: "nbl_count (v_nbls v x) = SrCountNBL (v_nbls v x)" and len: "length nbs < 2 ^ 32 - 1"
  shows "\<exists>T. SrProcessQueue v = Some (Inr (v\<lparr>v_tcbs := T\<rparr>))"
proof -
  obtain s where s: "QueueDeque (send_state v) = Inr (x, s)" "QueueEnqueHead x s = send_state v"
    "\<forall>a. nbl_nbs (snd s a) = nbl_nbs (v_nbls v a) \<and> nbl_8021q (snd s a) = nbl_8021q (v_nbls v a)
       \<and> nbl_count (snd s a) = nbl_count (v_nbls v a)"
    using deque_enque_id [OF rep] by auto
  define w where "w = set_sending x (set_send_state s v)"
  have "x \<noteq> 0" using rep by (auto simp: queue_rep_def)
  then obtain rc T where w: "SrProcessNBL w = Inr (rc, w\<lparr>v_tcbs := T\<rparr>)" "rc \<noteq> 0"
    using process_nbl_fails [of w x nb nbs] ok nbs send cnt len s(3)
    by (auto simp: w_def tcb_ok_def SrCountNBL_def)
  have "\<not> QueueEmpty (a_sendQueue (v_adapter v))"
    using queue_rep_QueueEmpty [OF rep] by simp
  then have "SrProcessQueue v =
      Some (Inr (set_sending 0 (set_send_state (QueueEnqueHead x s) (w\<lparr>v_tcbs := T\<rparr>))))"
    using ready idle s(1) w by (subst SrProcessQueue.simps) (simp add: w_def)
  also have "\<dots> = Some (Inr (v\<lparr>v_tcbs := T\<rparr>))"
    unfolding s(2) by (auto simp: w_def idle intro!: venet.equality adapter.equality)
  finally show ?thesis by blast
qed

section \<open>Properties\<close>

text \<open>Claim C22. Without a priority, \<open>SrCopyFrame\<close> gathers exactly the data of the net buffer from its chain of memory
  descriptors, offset and length respected across their borders, pads it with zeros to 60 bytes and returns the number of bytes as its status: only an
  empty frame is a success, every other count is an error code to the caller.\<close>

theorem copy_frame_plain:
  assumes "nb_mdls nb = map Some bss" and "d = frame_data (nb_offset nb) (nb_length nb) bss"
    and "\<not> is_priority priority" and "length d \<le> NIC_BUFFER_SIZE"
  shows "SrCopyFrame nb priority =
       (if d = [] then Inr (0, []) else Inr (of_nat (max 60 (length d)), d @ zeros (60 - length d)))
     \<and> (\<forall>rc bs. SrCopyFrame nb priority = Inr (rc, bs) \<longrightarrow> (rc = NDIS_STATUS_SUCCESS \<longleftrightarrow> d = []))"
  using copy_frame_plain_eq [OF assms] count_nonzero [of "length d"] assms(4)
  by (cases "d = []") (auto simp: nic_buffer_size)

text \<open>Claim C23. For a frame with an 802.1p priority, whatever memory descriptors its addresses are spread over, the copy inserts the
  type bytes of the tag behind the twelve address bytes and nothing else: the priority itself is never written, though the returned count includes its
  two bytes, so the frame is two bytes shorter than the count and its type field stands where the priority belongs.\<close>

theorem copy_frame_tag_short:
  assumes "nb_mdls nb = map Some bss" and "d = frame_data (nb_offset nb) (nb_length nb) bss"
    and "is_priority priority" and "12 \<le> length d" and "length d \<le> 1512"
  shows "SrCopyFrame nb priority =
     Inr (of_nat (max 60 (length d + 4)), take 12 d @ [0x81, 0x00] @ drop 12 d @ zeros (60 - (length d + 4)))"
  using tag_copy_eq [OF assms] .

text \<open>The frame buffer of a control block has no room for the tag: a priority frame of 1513 or 1514 bytes, the maximal
  size without a tag, is written past the end of \<open>tcb->data\<close>.\<close>

theorem copy_frame_tag_overflow:
  assumes "nb_mdls nb = [Some d]" and "nb_offset nb = 0" and "nb_length nb = length d"
    and "is_priority priority" and "1512 < length d"
  shows "SrCopyFrame nb priority = Inl OutOfBounds"
  using assms
  by (auto simp: SrCopyFrame_def copy_start_def copy_chunk_def put_bytes_def nic_buffer_size P8021_MAC_LEN_def
      P8021_TPID_BYTES_def Let_def)



text \<open>Claim C21. Control blocks are neither lost nor handed out twice: \<open>VenetAllocTCB\<close> fails exactly when the free list is empty, both
  operations keep every block on one list, the free counter equal to the length of the free list and the send event set exactly while no
  block is busy, and a block taken and returned leaves the adapter as it was.\<close>

theorem tcb_accounting:
  assumes "tcb_ok (v_adapter v)"
  shows "(\<forall>t v1. VenetAllocTCB p v = (t, v1) \<longrightarrow>
            tcb_ok (v_adapter v1) \<and> (t = 0 \<longleftrightarrow> a_tcbFree (v_adapter v) = [])
          \<and> (t \<noteq> 0 \<longrightarrow> (\<exists>v2. VenetReleaseTCB t v1 = Inr v2 \<and> v_adapter v2 = v_adapter v)))
       \<and> (\<forall>t \<in> set (a_tcbBusy (v_adapter v)). \<exists>v1. VenetReleaseTCB t v = Inr v1 \<and> tcb_ok (v_adapter v1)
            \<and> set (a_tcbBusy (v_adapter v1)) = set (a_tcbBusy (v_adapter v)) - {t})"
proof (intro conjI allI impI ballI)
  fix t v1 assume al: "VenetAllocTCB p v = (t, v1)"
  show "tcb_ok (v_adapter v1)" "t = 0 \<longleftrightarrow> a_tcbFree (v_adapter v) = []"
    using alloc_tcb_ok [OF assms al] by auto
  assume "t \<noteq> 0"
  then have "a_tcbFree (v_adapter v) \<noteq> []" using alloc_tcb_ok [OF assms al] by auto
  from alloc_release_tcb [OF assms this al, of "[]"]
  show "\<exists>v2. VenetReleaseTCB t v1 = Inr v2 \<and> v_adapter v2 = v_adapter v"
    by (auto simp: tcb_store_def)
next
  fix t assume "t \<in> set (a_tcbBusy (v_adapter v))"
  from release_tcb_ok [OF assms this]
  show "\<exists>v1. VenetReleaseTCB t v = Inr v1 \<and> tcb_ok (v_adapter v1)
      \<and> set (a_tcbBusy (v_adapter v1)) = set (a_tcbBusy (v_adapter v)) - {t}" by auto
qed

text \<open>Claim C14. On a ready adapter \<open>VenetSendNetBufs\<close> queues the lists in order behind those already queued, and then sends
  nothing: the first list with a frame to copy fails, because the byte count of the copy is taken for an error status, goes back to the head of the
  queue, and the loop ends with every list still queued, every control block returned and nothing reported to NDIS.\<close>

theorem send_never_transmits:
  assumes "\<not> VENET_IS_NOT_READY (v_adapter v)" and "tcb_ok (v_adapter v)" and "a_sendingNBL (v_adapter v) = 0"
    and "queue_rep (send_state v) q" and "chain (v_nbls v) sendList ys 0" and "distinct (q @ ys)"
    and "q @ ys = x # xs" and "nbl_nbs (v_nbls v x) = nb # nbs" and "sendable (nbl_8021q (v_nbls v x)) nb"
    and "length nbs < 2 ^ 32 - 1" and "q \<noteq> [] \<Longrightarrow> nbl_count (v_nbls v x) = SrCountNBL (v_nbls v x)"
  shows "\<exists>v'. VenetSendNetBufs sendList dlevel v = Some (Inr v') \<and> queue_rep (send_state v') (q @ ys)
           \<and> v_adapter v' = (v_adapter v)\<lparr>a_sendQueue := a_sendQueue (v_adapter v')\<rparr> \<and> v_io v' = v_io v
           \<and> (\<forall>p. nbl_status (v_nbls v' p) = nbl_status (v_nbls v p))"
proof -
  obtain q' M where qs: "queue_sends sendList (send_state v) = Some (q', M)" "queue_rep (q', M) (q @ ys)"
    "\<forall>a. nbl_nbs (M a) = nbl_nbs (v_nbls v a) \<and> nbl_8021q (M a) = nbl_8021q (v_nbls v a)
       \<and> nbl_status (M a) = nbl_status (v_nbls v a)"
    "\<forall>y\<in>set ys. nbl_count (M y) = SrCountNBL (v_nbls v y)"
    "\<forall>y. y \<notin> set ys \<longrightarrow> nbl_count (M y) = nbl_count (v_nbls v y)"
    using queue_sends_append [OF assms(4-6)] by blast
  have "nbl_count (M x) = SrCountNBL (v_nbls v x)"
    using qs(4,5) assms(6,7,11) by (cases q) auto
  then have "\<exists>T. SrProcessQueue (set_send_state (q', M) v) = Some (Inr (set_send_state (q', M) v\<lparr>v_tcbs := T\<rparr>))"
    using assms(1-3,7-10) qs(2,3)
    by (intro process_queue_stuck [where x = x and xs = xs and nb = nb and nbs = nbs])
      (auto simp: VENET_IS_NOT_READY_def tcb_ok_def SrCountNBL_def)
  then show ?thesis
    using assms(1) qs by (auto simp: VenetSendNetBufs_def)
qed

text \<open>While the adapter is not ready, \<open>VenetSendNetBufs\<close> takes nothing: every list handed over gets the status that
  \<open>SrGetAdapterStatus\<close> derives from the flags and the whole chain is completed at once, with queue, control blocks and all other lists unchanged.\<close>

theorem send_rejected:
  assumes "VENET_IS_NOT_READY (v_adapter v)" and "chain (v_nbls v) sendList ys 0" and "distinct ys"
  shows "VenetSendNetBufs sendList dlevel v =
     Some (Inr (v\<lparr>v_nbls := (\<lambda>p. if p \<in> set ys then (v_nbls v p)\<lparr>nbl_status := SrGetAdapterStatus (v_adapter v)\<rparr> else v_nbls v p),
                  v_io := v_io v @ [Send_complete sendList dlevel]\<rparr>))"
  using assms by (simp add: VenetSendNetBufs_def set_list_status)

text \<open>\<open>VenetTxCompletion\<close> completes a list only when the count of its control block is one, but
  \<open>VenetAllocTCB\<close> leaves the count at zero and nothing sets it: the first completion of a block wraps the count to the maximum and reports nothing.\<close>

theorem tx_completion_never_completes:
  assumes "VenetAllocTCB p v = (t, v1)" and "t \<noteq> 0"
  shows "(\<forall>w. t_nb_count (v_tcbs w t) \<noteq> 1 \<longrightarrow>
            (\<exists>w'. VenetTxCompletion t w = Some w' \<and> v_io w' = v_io w \<and> v_nbls w' = v_nbls w
                \<and> t_nb_count (v_tcbs w' t) = t_nb_count (v_tcbs w t) - 1))
       \<and> (\<exists>v2. VenetTxCompletion t v1 = Some v2 \<and> v_io v2 = v_io v \<and> t_nb_count (v_tcbs v2 t) = 0xFFFFFFFF)"
proof -
  have all: "\<exists>w'. VenetTxCompletion t w = Some w' \<and> v_io w' = v_io w \<and> v_nbls w' = v_nbls w
      \<and> t_nb_count (v_tcbs w' t) = t_nb_count (v_tcbs w t) - 1" if "t_nb_count (v_tcbs w t) \<noteq> 1" for w
    using that by (simp add: VenetTxCompletion_def Let_def)
  have "t_nb_count (v_tcbs v1 t) = 0" "v_io v1 = v_io v"
    using assms by (auto simp: VenetAllocTCB_def split: list.splits)
  with all [of v1] all show ?thesis by auto
qed

section \<open>Witnesses\<close>

lemma demo_nb_data: "nb_mdls (demo_nb n) = map Some [replicate n 7]" "frame_data 0 n [replicate n 7] = replicate n 7"
  by (simp_all add: demo_nb_def frame_data_def)

lemma demo_nb_sel: "nb_offset (demo_nb n) = 0" "nb_length (demo_nb n) = n"
  by (simp_all add: demo_nb_def)

lemma copy_frame_plain_witness: "SrCopyFrame (demo_nb 20) 0 = Inr (60, replicate 20 7 @ zeros 40)"
proof -
  have d: "replicate 20 7 = frame_data (nb_offset (demo_nb 20)) (nb_length (demo_nb 20)) [replicate 20 7]"
    by (simp only: demo_nb_data demo_nb_sel)
  have "\<not> is_priority 0" "length (replicate 20 (7 :: UINT8)) \<le> NIC_BUFFER_SIZE"
    by (simp_all add: is_priority_def nic_buffer_size)
  from copy_frame_plain [OF demo_nb_data(1) d this, THEN conjunct1]
  show ?thesis by simp
qed

lemma copy_frame_tag_short_witness:
  "SrCopyFrame (demo_nb 100) 1 = Inr (104, replicate 12 7 @ [0x81, 0x00] @ replicate 88 7)"
  using copy_frame_tag_short [of "demo_nb 100" "[replicate 100 7]" "replicate 100 7" 1]
  by (simp add: demo_nb_data demo_nb_sel is_priority_def P8021_HOST_MASK_def zeros_def)

lemma copy_frame_tag_overflow_witness: "SrCopyFrame (demo_nb 1514) 1 = Inl OutOfBounds"
  using copy_frame_tag_overflow [of "demo_nb 1514" "replicate 1514 7" 1]
  by (simp add: demo_nb_def is_priority_def P8021_HOST_MASK_def)

lemma demo_tcb_ok: "tcb_ok (v_adapter demo_venet)"
  by (simp add: tcb_ok_def demo_venet_def demo_adapter_def)

lemma demo_free: "a_tcbFree (v_adapter demo_venet) = [0x100, 0x200]"
  by (simp add: demo_venet_def demo_adapter_def)

lemma demo_tcb_alloc: "\<exists>v1. VenetAllocTCB 0x10 demo_venet = (0x100, v1)"
  by (simp add: VenetAllocTCB_def demo_free)

lemma tcb_accounting_witness:
  "\<exists>v1. VenetAllocTCB 0x10 demo_venet = (0x100, v1) \<and> tcb_ok (v_adapter v1)
     \<and> (\<exists>v2. VenetReleaseTCB 0x100 v1 = Inr v2 \<and> v_adapter v2 = v_adapter demo_venet)"
proof -
  obtain v1 where al: "VenetAllocTCB 0x10 demo_venet = (0x100, v1)" using demo_tcb_alloc ..
  have "tcb_ok (v_adapter v1)
      \<and> (\<exists>v2. VenetReleaseTCB 0x100 v1 = Inr v2 \<and> v_adapter v2 = v_adapter demo_venet)"
    using tcb_accounting [OF demo_tcb_ok, of "0x10", THEN conjunct1, THEN spec, THEN spec, THEN mp, OF al]
    by simp
  with al show ?thesis by blast
qed

lemma demo_ready: "\<not> VENET_IS_NOT_READY (v_adapter demo_venet)"
  by (simp add: VENET_IS_NOT_READY_def demo_venet_def demo_adapter_def)

lemma demo_chain: "chain (v_nbls demo_venet) 0x10 [0x10, 0x20, 0x30] 0"
  by (simp add: demo_venet_def demo_nbl_def)

lemma demo_sendable: "sendable 0 (demo_nb 100)"
  by (simp add: sendable_def demo_nb_def is_priority_def frame_data_def)

lemma send_never_transmits_witness:
  "\<exists>v'. VenetSendNetBufs 0x10 False demo_venet = Some (Inr v')
     \<and> queue_rep (send_state v') [0x10, 0x20, 0x30] \<and> v_io v' = []"
proof -
  have "queue_rep (send_state demo_venet) []"
    by (simp add: demo_venet_def demo_adapter_def queue_rep_empty)
  moreover have "a_sendingNBL (v_adapter demo_venet) = 0" "v_io demo_venet = []"
    "nbl_nbs (v_nbls demo_venet 0x10) = [demo_nb 100]" "nbl_8021q (v_nbls demo_venet 0x10) = 0"
    by (simp_all add: demo_venet_def demo_adapter_def demo_nbl_def)
  ultimately show ?thesis
    using send_never_transmits [of demo_venet "[]" "0x10" "[0x10, 0x20, 0x30]" "0x10" "[0x20, 0x30]"
        "demo_nb 100" "[]" False] demo_ready demo_tcb_ok demo_chain demo_sendable
    by auto
qed

text \<open>The same adapter, paused.\<close>

lemma send_rejected_witness:
  "\<exists>v'. VenetSendNetBufs 0x10 False (upd_adapter (\<lambda>a. a\<lparr>a_state := VNET_ADAPTER_PAUSED\<rparr>) demo_venet) = Some (Inr v')
     \<and> nbl_status (v_nbls v' 0x30) = NDIS_STATUS_PAUSED \<and> v_io v' = [Send_complete 0x10 False]"
proof -
  let ?v = "upd_adapter (\<lambda>a. a\<lparr>a_state := VNET_ADAPTER_PAUSED\<rparr>) demo_venet"
  have "VENET_IS_NOT_READY (v_adapter ?v)" "SrGetAdapterStatus (v_adapter ?v) = NDIS_STATUS_PAUSED" "v_io ?v = []"
    by (simp_all add: VENET_IS_NOT_READY_def VNET_IS_NOT_READY_MASK_def vnet_flag_defs SrGetAdapterStatus_def
        VENET_TEST_FLAG_def VENET_IS_PAUSED_def demo_venet_def)
  moreover have "chain (v_nbls ?v) 0x10 [0x10, 0x20, 0x30] 0" using demo_chain by simp
  ultimately show ?thesis
    using send_rejected [of ?v "0x10" "[0x10, 0x20, 0x30]" False] by simp
qed

lemma tx_completion_never_completes_witness:
  "\<exists>v1 v2. VenetAllocTCB 0x10 demo_venet = (0x100, v1) \<and> VenetTxCompletion 0x100 v1 = Some v2 \<and> v_io v2 = []"
proof -
  obtain v1 where al: "VenetAllocTCB 0x10 demo_venet = (0x100, v1)" using demo_tcb_alloc ..
  have "v_io demo_venet = []" by (simp add: demo_venet_def)
  with al tx_completion_never_completes [OF al, THEN conjunct2] show ?thesis by auto
qed

end
