(* ===== verification/Venet_Handlers.thy ===== *)
theory Venet_Handlers
  imports Pci_State Venet_Send
begin

text \<open>
  The handlers NDIS calls on a running adapter, \<open>windows/venet/venet.c\<close>: pause, restart, reset and its
  timer, surprise removal, shutdown, the link indication. They act on the state flags and the send
  queue. The lemmas follow the flags through pause and restart, count the runs of the reset timer, and
  show what a reset leaves in the queue.
\<close>

section \<open>Operations\<close>

definition VenetSetLinkState :: "bool \<Rightarrow> venet \<Rightarrow> venet" where
  "VenetSetLinkState st v =
     (if st then nio (Indicate_link MediaConnectStateConnected MediaDuplexStateFull 1000000000) v
      else nio (Indicate_link MediaConnectStateDisconnected MediaDuplexStateUnknown LINK_SPEED_UNKNOWN) v)"

definition VenetSetSyncFlag :: "ULONG \<Rightarrow> venet \<Rightarrow> venet" where
  "VenetSetSyncFlag f v = upd_adapter (\<lambda>a. VENET_SET_FLAG a f) v"

definition VenetResetTimerDpc :: "venet \<Rightarrow> venet outcome option" where
  "VenetResetTimerDpc v0 =
     (let v = upd_adapter VENET_ADAPTER_GET v0;
          finish = (\<lambda>rc v. upd_adapter VENET_ADAPTER_PUT (nio (Reset_complete rc) v))
      in if VENET_IS_BUSY (v_adapter v) then
           ret_bind (VenetFreeQueuedSend NDIS_STATUS_RESET_IN_PROGRESS v) (\<lambda>v1.
             let v2 = upd_adapter (\<lambda>a. a\<lparr>a_resetCount := a_resetCount a + 1\<rparr>) v1
             in if sint (a_resetCount (v_adapter v2)) \<le> 20
                then Some (Inr (upd_adapter VENET_ADAPTER_PUT (nio (Set_timer (a_resetTimer (v_adapter v2))) v2)))
                else Some (Inr (finish NDIS_STATUS_SOFT_ERRORS v2)))
         else
           Some (Inr (finish NDIS_STATUS_SUCCESS (upd_adapter (\<lambda>a. VENET_CLEAR_FLAG a VNET_ADAPTER_RESET) v))))"

definition VenetQuiesce :: "venet \<Rightarrow> venet" where
  "VenetQuiesce v = nio Wait_send_event v"

definition VenetPause :: "venet \<Rightarrow> NDIS_STATUS \<times> venet" where
  "VenetPause v = (NDIS_STATUS_SUCCESS, VenetQuiesce (VenetSetSyncFlag VNET_ADAPTER_PAUSED v))"

definition VenetRestart :: "venet \<Rightarrow> NDIS_STATUS \<times> venet" where
  "VenetRestart v =
     (NDIS_STATUS_SUCCESS, upd_adapter (\<lambda>a. (VENET_CLEAR_FLAG a VNET_ADAPTER_PAUSED)\<lparr>a_sendEvent := True\<rparr>) v)"

definition VenetCheckHang :: "venet \<Rightarrow> bool" where "VenetCheckHang v = False"

text \<open>The flag \<open>addr_reset\<close> of the caller is set to false.\<close>

definition VenetReset :: "venet \<Rightarrow> (NDIS_STATUS \<times> bool \<times> venet) outcome option" where
  "VenetReset v =
     (if VENET_TEST_FLAG (v_adapter v) VNET_ADAPTER_HALT_IN_PROGRESS then Some (Inr (NDIS_STATUS_FAILURE, False, v))
      else if VENET_TEST_FLAG (v_adapter v) VNET_ADAPTER_RESET then Some (Inr (NDIS_STATUS_RESET_IN_PROGRESS, False, v))
      else
        ret_bind (VenetFreeQueuedSend NDIS_STATUS_RESET_IN_PROGRESS (VenetSetSyncFlag VNET_ADAPTER_RESET v)) (\<lambda>v1.
          Some (Inr (NDIS_STATUS_SUCCESS, False,
                     upd_adapter (\<lambda>a. VENET_CLEAR_FLAG (a\<lparr>a_sendEvent := True\<rparr>) VNET_ADAPTER_RESET) v1))))"

definition VenetDevicePnPEvent :: "bool \<Rightarrow> venet \<Rightarrow> venet" where
  "VenetDevicePnPEvent surprise_removed v =
     (if surprise_removed then VenetSetSyncFlag VNET_ADAPTER_SURPRISE_REMOVED v else v)"

definition VenetShutdown :: "venet \<Rightarrow> venet" where
  "VenetShutdown v = VenetQuiesce (VenetSetSyncFlag VNET_ADAPTER_SHUTDOWN v)"

section \<open>State flags\<close>

lemma flag_set_clear: "(x OR f) AND NOT f = x AND NOT f" for x f :: "'a::len word"
  by (rule bit_word_eqI) (auto simp: bit_simps)

lemma flag_clear_id: "x AND f = 0 \<Longrightarrow> x AND NOT f = x" for x f :: "'a::len word"
  by (metis (no_types) and.right_neutral bit.conj_disj_distrib bit.disj_cancel_right or.left_neutral)

lemma not_ready_flag:
  assumes "f AND VNET_IS_NOT_READY_MASK = f" and "\<not> VENET_IS_NOT_READY a"
  shows "a_state a AND f = 0"
proof -
  have "a_state a AND f = (a_state a AND VNET_IS_NOT_READY_MASK) AND f"
    by (metis and.assoc and.commute assms(1))
  then show ?thesis using assms(2) by (simp add: VENET_IS_NOT_READY_def)
qed

lemma masked_flags:
  "VNET_ADAPTER_PAUSED AND VNET_IS_NOT_READY_MASK = VNET_ADAPTER_PAUSED"
  "VNET_ADAPTER_RESET AND VNET_IS_NOT_READY_MASK = VNET_ADAPTER_RESET"
  "VNET_ADAPTER_SURPRISE_REMOVED AND VNET_IS_NOT_READY_MASK = 0"
  by (simp_all add: VNET_IS_NOT_READY_MASK_def vnet_flag_defs)

lemma paused_not_ready: "VENET_IS_NOT_READY (VENET_SET_FLAG a VNET_ADAPTER_PAUSED)"
proof -
  have "(a_state a OR VNET_ADAPTER_PAUSED) AND VNET_IS_NOT_READY_MASK
      = (a_state a AND VNET_IS_NOT_READY_MASK) OR VNET_ADAPTER_PAUSED"
    by (simp add: bit.conj_disj_distrib2 masked_flags)
  then show ?thesis
    by (simp add: VENET_IS_NOT_READY_def VENET_SET_FLAG_def or_eq_0_iff VNET_ADAPTER_PAUSED_def)
qed

lemma paused_status:
  assumes "\<not> VENET_IS_NOT_READY a"
  shows "SrGetAdapterStatus (VENET_SET_FLAG a VNET_ADAPTER_PAUSED) = NDIS_STATUS_PAUSED"
proof -
  have "a_state a AND VNET_ADAPTER_RESET = 0" by (rule not_ready_flag [OF masked_flags(2) assms])
  moreover have "VNET_ADAPTER_PAUSED AND VNET_ADAPTER_RESET = 0" by (simp add: vnet_flag_defs)
  ultimately show ?thesis
    by (simp add: SrGetAdapterStatus_def VENET_TEST_FLAG_def VENET_IS_PAUSED_def VENET_SET_FLAG_def
        bit.conj_disj_distrib2 or_eq_0_iff VNET_ADAPTER_PAUSED_def)
qed

lemma sync_flag_sel [simp]:
  "v_adapter (VenetSetSyncFlag f v) = VENET_SET_FLAG (v_adapter v) f" "v_nbls (VenetSetSyncFlag f v) = v_nbls v"
  "v_tcbs (VenetSetSyncFlag f v) = v_tcbs v" "v_io (VenetSetSyncFlag f v) = v_io v"
  "v_list (VenetSetSyncFlag f v) = v_list v" "v_live (VenetSetSyncFlag f v) = v_live v"
  by (simp_all add: VenetSetSyncFlag_def)

lemma set_flag_sel [simp]:
  "a_sendQueue (VENET_SET_FLAG a f) = a_sendQueue a" "a_tcbBusy (VENET_SET_FLAG a f) = a_tcbBusy a"
  "a_tcbFree (VENET_SET_FLAG a f) = a_tcbFree a" "a_state (VENET_SET_FLAG a f) = a_state a OR f"
  by (simp_all add: VENET_SET_FLAG_def)

section \<open>The reset timer\<close>

text \<open>The timer fires \<open>n\<close> times.\<close>

fun dpc_runs :: "nat \<Rightarrow> venet \<Rightarrow> venet outcome option" where
  "dpc_runs 0 v = Some (Inr v)"
| "dpc_runs (Suc n) v = ret_bind (dpc_runs n v) VenetResetTimerDpc"

lemma get_put_sel [simp]:
  "a_sendQueue (VENET_ADAPTER_GET a) = a_sendQueue a" "a_tcbBusy (VENET_ADAPTER_GET a) = a_tcbBusy a"
  "a_nBusyRecv (VENET_ADAPTER_GET a) = a_nBusyRecv a" "a_resetCount (VENET_ADAPTER_GET a) = a_resetCount a"
  "a_state (VENET_ADAPTER_GET a) = a_state a"
  "a_sendQueue (VENET_ADAPTER_PUT a) = a_sendQueue a" "a_tcbBusy (VENET_ADAPTER_PUT a) = a_tcbBusy a"
  "a_nBusyRecv (VENET_ADAPTER_PUT a) = a_nBusyRecv a" "a_resetCount (VENET_ADAPTER_PUT a) = a_resetCount a"
  "a_state (VENET_ADAPTER_PUT a) = a_state a"
  by (simp_all add: VENET_ADAPTER_GET_def VENET_ADAPTER_PUT_def Let_def)

text \<open>A run on a busy adapter: one queued list is completed, the count goes up, and the timer is set again or the reset given up.\<close>

definition reset_event :: "nat \<Rightarrow> ndis_io \<Rightarrow> bool" where
  "reset_event n e \<longleftrightarrow> (if n \<le> 20 then (\<exists>h. e = Set_timer h) else e = Reset_complete NDIS_STATUS_SOFT_ERRORS)"

lemma reset_dpc_busy:
  assumes busy: "VENET_IS_BUSY (v_adapter v)" and rep: "queue_rep (send_state v) q"
    and cnt: "a_resetCount (v_adapter v) = of_nat n" and n: "n \<le> 20"
  shows "\<exists>v' e. VenetResetTimerDpc v = Some (Inr v') \<and> VENET_IS_BUSY (v_adapter v') \<and> queue_rep (send_state v') (tl q)
           \<and> a_resetCount (v_adapter v') = of_nat (Suc n) \<and> a_state (v_adapter v') = a_state (v_adapter v)
           \<and> v_io v' = v_io v @ (if q = [] then [] else [Send_complete (hd q) False]) @ [e] \<and> reset_event (Suc n) e"
proof -
  let ?v = "upd_adapter VENET_ADAPTER_GET v"
  have "queue_rep (send_state ?v) q" using rep by simp
  then obtain v1 where v1: "VenetFreeQueuedSend NDIS_STATUS_RESET_IN_PROGRESS ?v = Some (Inr v1)"
    "queue_rep (send_state v1) (tl q)" "v_io v1 = v_io v @ (if q = [] then [] else [Send_complete (hd q) False])"
    "v_adapter v1 = (v_adapter ?v)\<lparr>a_sendQueue := a_sendQueue (v_adapter v1)\<rparr>"
    using free_queued_once [of ?v q NDIS_STATUS_RESET_IN_PROGRESS] by auto
  have a1: "a_resetCount (v_adapter v1) = of_nat n" "a_state (v_adapter v1) = a_state (v_adapter v)"
    "VENET_IS_BUSY (v_adapter v1)"
    by (subst v1(4), use cnt busy in \<open>simp add: VENET_IS_BUSY_def\<close>)+
  define v2 where "v2 = upd_adapter (\<lambda>a. a\<lparr>a_resetCount := a_resetCount a + 1\<rparr>) v1"
  have c2: "a_resetCount (v_adapter v2) = of_nat (Suc n)" by (simp add: v2_def a1(1) add.commute)
  have sgn: "sint (a_resetCount (v_adapter v2)) = int (Suc n)"
    using n by (simp only: c2) (simp add: signed_of_nat signed_take_bit_int_eq_self del: of_nat_Suc)
  then have sgn1: "sint (a_resetCount (v_adapter v1) + 1) = int (Suc n)" by (simp add: v2_def)
  define e where "e = (if Suc n \<le> 20 then Set_timer (a_resetTimer (v_adapter v2)) else Reset_complete NDIS_STATUS_SOFT_ERRORS)"
  define v' where "v' = upd_adapter VENET_ADAPTER_PUT (nio e v2)"
  have "VenetResetTimerDpc v = Some (Inr v')"
    using busy v1(1) sgn1
    by (simp add: VenetResetTimerDpc_def Let_def VENET_IS_BUSY_def v2_def [symmetric] v'_def e_def)
  moreover have "VENET_IS_BUSY (v_adapter v')" "queue_rep (send_state v') (tl q)"
    "a_resetCount (v_adapter v') = of_nat (Suc n)" "a_state (v_adapter v') = a_state (v_adapter v)" "v_io v' = v_io v1 @ [e]"
    using a1 v1(2) c2 by (simp_all add: v'_def v2_def VENET_IS_BUSY_def)
  moreover have "reset_event (Suc n) e" by (simp add: e_def reset_event_def)
  ultimately show ?thesis using v1(3) by (intro exI [of _ v'] exI [of _ e]) simp
qed

lemma reset_dpc_runs:
  assumes "VENET_IS_BUSY (v_adapter v)" and "queue_rep (send_state v) q" and "a_resetCount (v_adapter v) = 0" and "n \<le> 21"
  shows "\<exists>v'. dpc_runs n v = Some (Inr v') \<and> VENET_IS_BUSY (v_adapter v') \<and> queue_rep (send_state v') (drop n q)
           \<and> a_resetCount (v_adapter v') = of_nat n \<and> a_state (v_adapter v') = a_state (v_adapter v)
           \<and> (n \<le> 20 \<longrightarrow> (\<forall>st. Reset_complete st \<in> set (v_io v') \<longrightarrow> Reset_complete st \<in> set (v_io v)))
           \<and> (n = 21 \<longrightarrow> last (v_io v') = Reset_complete NDIS_STATUS_SOFT_ERRORS)"
  using assms(4)
proof (induction n)
  case 0
  then show ?case using assms by simp
next
  case (Suc n)
  then obtain v1 where v1: "dpc_runs n v = Some (Inr v1)" "VENET_IS_BUSY (v_adapter v1)"
    "queue_rep (send_state v1) (drop n q)" "a_resetCount (v_adapter v1) = of_nat n" "a_state (v_adapter v1) = a_state (v_adapter v)"
    "\<forall>st. Reset_complete st \<in> set (v_io v1) \<longrightarrow> Reset_complete st \<in> set (v_io v)"
    by auto
  from reset_dpc_busy [OF v1(2-4)] Suc.prems obtain v' e where v': "VenetResetTimerDpc v1 = Some (Inr v')"
    "VENET_IS_BUSY (v_adapter v')" "queue_rep (send_state v') (tl (drop n q))" "a_resetCount (v_adapter v') = of_nat (Suc n)"
    "a_state (v_adapter v') = a_state (v_adapter v1)" "reset_event (Suc n) e"
    "v_io v' = v_io v1 @ (if drop n q = [] then [] else [Send_complete (hd (drop n q)) False]) @ [e]"
    by auto
  have "dpc_runs (Suc n) v = Some (Inr v')" using v1(1) v'(1) by simp
  moreover have "tl (drop n q) = drop (Suc n) q" by (simp add: drop_Suc tl_drop)
  moreover have "Suc n \<le> 20 \<longrightarrow> (\<forall>st. Reset_complete st \<in> set (v_io v') \<longrightarrow> Reset_complete st \<in> set (v_io v))"
    using v1(6) v'(6,7) by (auto simp: reset_event_def split: if_splits)
  moreover have "Suc n = 21 \<longrightarrow> last (v_io v') = Reset_complete NDIS_STATUS_SOFT_ERRORS"
    using v'(6,7) by (simp add: reset_event_def)
  ultimately show ?case using v'(2-5) v1(5) by (intro exI [of _ v']) simp
qed

section \<open>Properties\<close>

text \<open>Claim C35. Pausing a ready adapter waits for the busy control blocks, and every list sent while it is paused is
  completed with the status for a paused adapter, nothing being queued; restarting it leaves the flags as they were before the pause, so that the two calls
  together change the send event only.\<close>

theorem pause_restart_roundtrip:
  assumes "\<not> VENET_IS_NOT_READY (v_adapter v)"
  shows "VenetRestart (snd (VenetPause v)) =
           (NDIS_STATUS_SUCCESS, nio Wait_send_event (upd_adapter (\<lambda>a. a\<lparr>a_sendEvent := True\<rparr>) v))
       \<and> (\<forall>vp sendList ys d. VenetPause v = (NDIS_STATUS_SUCCESS, vp) \<and> chain (v_nbls vp) sendList ys 0 \<and> distinct ys \<longrightarrow>
            VenetSendNetBufs sendList d vp =
              Some (Inr (vp\<lparr>v_nbls := (\<lambda>p. if p \<in> set ys then (v_nbls vp p)\<lparr>nbl_status := NDIS_STATUS_PAUSED\<rparr> else v_nbls vp p),
                            v_io := v_io vp @ [Send_complete sendList d]\<rparr>)))"
proof (intro conjI allI impI)
  have "a_state (v_adapter v) AND VNET_ADAPTER_PAUSED = 0" by (rule not_ready_flag [OF masked_flags(1) assms])
  then have "(a_state (v_adapter v) OR VNET_ADAPTER_PAUSED) AND NOT VNET_ADAPTER_PAUSED = a_state (v_adapter v)"
    by (simp add: flag_set_clear flag_clear_id)
  then show "VenetRestart (snd (VenetPause v)) =
      (NDIS_STATUS_SUCCESS, nio Wait_send_event (upd_adapter (\<lambda>a. a\<lparr>a_sendEvent := True\<rparr>) v))"
    by (simp add: VenetRestart_def VenetPause_def VenetQuiesce_def VenetSetSyncFlag_def VENET_SET_FLAG_def VENET_CLEAR_FLAG_def)
next
  fix vp sendList ys d
  assume A: "VenetPause v = (NDIS_STATUS_SUCCESS, vp) \<and> chain (v_nbls vp) sendList ys 0 \<and> distinct ys"
  then have "v_adapter vp = VENET_SET_FLAG (v_adapter v) VNET_ADAPTER_PAUSED"
    by (auto simp: VenetPause_def VenetQuiesce_def)
  then show "VenetSendNetBufs sendList d vp =
      Some (Inr (vp\<lparr>v_nbls := (\<lambda>p. if p \<in> set ys then (v_nbls vp p)\<lparr>nbl_status := NDIS_STATUS_PAUSED\<rparr> else v_nbls vp p),
                    v_io := v_io vp @ [Send_complete sendList d]\<rparr>))"
    using A set_list_status [of "v_nbls vp" sendList ys]
    by (simp add: VenetSendNetBufs_def paused_not_ready paused_status [OF assms])
qed

text \<open>The flag that surprise removal sets is not among those that make an adapter unready: after the device
  is gone the adapter still takes sends, although the status function has an answer for a removed device.\<close>

theorem surprise_removed_still_ready:
  shows "VENET_IS_NOT_READY (v_adapter (VenetDevicePnPEvent True v)) = VENET_IS_NOT_READY (v_adapter v)
       \<and> (\<not> VENET_IS_NOT_READY (v_adapter v) \<longrightarrow>
            SrGetAdapterStatus (v_adapter (VenetDevicePnPEvent True v)) = NDIS_STATUS_CLOSING)"
proof -
  let ?s = "a_state (v_adapter v)" and ?r = VNET_ADAPTER_SURPRISE_REMOVED
  have "(?s OR ?r) AND VNET_IS_NOT_READY_MASK = ?s AND VNET_IS_NOT_READY_MASK"
    by (simp add: bit.conj_disj_distrib2 masked_flags)
  then have same: "VENET_IS_NOT_READY (VENET_SET_FLAG (v_adapter v) ?r) = VENET_IS_NOT_READY (v_adapter v)"
    by (simp add: VENET_IS_NOT_READY_def)
  have "SrGetAdapterStatus (VENET_SET_FLAG (v_adapter v) ?r) = NDIS_STATUS_CLOSING"
    if ready: "\<not> VENET_IS_NOT_READY (v_adapter v)"
  proof -
    have "?s AND f = 0" if "f AND VNET_IS_NOT_READY_MASK = f" for f by (rule not_ready_flag [OF that ready])
    then have "?s AND VNET_ADAPTER_RESET = 0" "?s AND VNET_ADAPTER_PAUSED = 0" "?s AND VNET_ADAPTER_NO_LINK = 0"
      "?s AND VNET_ADAPTER_HALT_IN_PROGRESS = 0"
      by (simp_all add: VNET_IS_NOT_READY_MASK_def vnet_flag_defs)
    moreover have "?r AND VNET_ADAPTER_RESET = 0" "?r AND VNET_ADAPTER_PAUSED = 0" "?r AND VNET_ADAPTER_NO_LINK = 0"
      "?r AND VNET_ADAPTER_HALT_IN_PROGRESS = 0" "?r \<noteq> 0"
      by (simp_all add: vnet_flag_defs)
    ultimately show ?thesis
      by (simp add: SrGetAdapterStatus_def VENET_TEST_FLAG_def VENET_IS_PAUSED_def VENET_NO_LINK_def
          bit.conj_disj_distrib2 or_eq_0_iff)
  qed
  with same show ?thesis by (simp add: VenetDevicePnPEvent_def)
qed

text \<open>A reset is refused while the adapter halts or resets. Otherwise it reports success with the flags as they were, but only
  the first queued list was completed with the reset status: the others stay queued with their statuses, and the send event is set even while control blocks are busy.\<close>

theorem reset_cancels_one:
  assumes "queue_rep (send_state v) q"
  shows "(VENET_TEST_FLAG (v_adapter v) VNET_ADAPTER_HALT_IN_PROGRESS \<longrightarrow> VenetReset v = Some (Inr (NDIS_STATUS_FAILURE, False, v)))
       \<and> (\<not> VENET_TEST_FLAG (v_adapter v) VNET_ADAPTER_HALT_IN_PROGRESS \<and> VENET_TEST_FLAG (v_adapter v) VNET_ADAPTER_RESET \<longrightarrow>
            VenetReset v = Some (Inr (NDIS_STATUS_RESET_IN_PROGRESS, False, v)))
       \<and> (\<not> VENET_TEST_FLAG (v_adapter v) VNET_ADAPTER_HALT_IN_PROGRESS \<and> \<not> VENET_TEST_FLAG (v_adapter v) VNET_ADAPTER_RESET \<longrightarrow>
            (\<exists>v'. VenetReset v = Some (Inr (NDIS_STATUS_SUCCESS, False, v')) \<and> queue_rep (send_state v') (tl q)
               \<and> a_state (v_adapter v') = a_state (v_adapter v) \<and> a_sendEvent (v_adapter v')
               \<and> a_tcbBusy (v_adapter v') = a_tcbBusy (v_adapter v)
               \<and> v_io v' = v_io v @ (if q = [] then [] else [Send_complete (hd q) False])
               \<and> (q \<noteq> [] \<longrightarrow> nbl_status (v_nbls v' (hd q)) = NDIS_STATUS_RESET_IN_PROGRESS)
               \<and> (\<forall>y\<in>set (tl q). nbl_status (v_nbls v' y) = nbl_status (v_nbls v y))))"
proof (intro conjI impI)
  assume no: "\<not> VENET_TEST_FLAG (v_adapter v) VNET_ADAPTER_HALT_IN_PROGRESS \<and> \<not> VENET_TEST_FLAG (v_adapter v) VNET_ADAPTER_RESET"
  let ?w = "VenetSetSyncFlag VNET_ADAPTER_RESET v"
  have "queue_rep (send_state ?w) q" using assms by simp
  then obtain v1 where v1: "VenetFreeQueuedSend NDIS_STATUS_RESET_IN_PROGRESS ?w = Some (Inr v1)"
    "queue_rep (send_state v1) (tl q)" "v_io v1 = v_io v @ (if q = [] then [] else [Send_complete (hd q) False])"
    "v_adapter v1 = (v_adapter ?w)\<lparr>a_sendQueue := a_sendQueue (v_adapter v1)\<rparr>"
    "q \<noteq> [] \<longrightarrow> nbl_status (v_nbls v1 (hd q)) = NDIS_STATUS_RESET_IN_PROGRESS"
    "\<forall>p. p \<noteq> q_head (a_sendQueue (v_adapter v)) \<longrightarrow> nbl_status (v_nbls v1 p) = nbl_status (v_nbls v p)"
    using free_queued_once [of ?w q NDIS_STATUS_RESET_IN_PROGRESS] by auto
  have "q_head (a_sendQueue (v_adapter v)) \<notin> set (tl q)"
    using assms by (cases q) (auto simp: queue_rep_def)
  then have st: "\<forall>y\<in>set (tl q). nbl_status (v_nbls v1 y) = nbl_status (v_nbls v y)" using v1(6) by metis
  have a1: "a_state (v_adapter v1) = a_state (v_adapter v) OR VNET_ADAPTER_RESET"
    "a_tcbBusy (v_adapter v1) = a_tcbBusy (v_adapter v)"
    by (subst v1(4), simp)+
  define v' where "v' = upd_adapter (\<lambda>a. VENET_CLEAR_FLAG (a\<lparr>a_sendEvent := True\<rparr>) VNET_ADAPTER_RESET) v1"
  have "VenetReset v = Some (Inr (NDIS_STATUS_SUCCESS, False, v'))"
    using no v1(1) by (simp add: VenetReset_def v'_def)
  moreover have "a_state (v_adapter v') = a_state (v_adapter v)"
    using no flag_clear_id [of "a_state (v_adapter v)" VNET_ADAPTER_RESET]
    by (simp add: v'_def VENET_CLEAR_FLAG_def a1 flag_set_clear VENET_TEST_FLAG_def)
  moreover have "queue_rep (send_state v') (tl q)" "a_sendEvent (v_adapter v')" "v_io v' = v_io v1" "v_nbls v' = v_nbls v1"
    "a_tcbBusy (v_adapter v') = a_tcbBusy (v_adapter v)"
    using v1(2) a1(2) by (simp_all add: v'_def VENET_CLEAR_FLAG_def)
  ultimately show "\<exists>v'. VenetReset v = Some (Inr (NDIS_STATUS_SUCCESS, False, v')) \<and> queue_rep (send_state v') (tl q)
               \<and> a_state (v_adapter v') = a_state (v_adapter v) \<and> a_sendEvent (v_adapter v')
               \<and> a_tcbBusy (v_adapter v') = a_tcbBusy (v_adapter v)
               \<and> v_io v' = v_io v @ (if q = [] then [] else [Send_complete (hd q) False])
               \<and> (q \<noteq> [] \<longrightarrow> nbl_status (v_nbls v' (hd q)) = NDIS_STATUS_RESET_IN_PROGRESS)
               \<and> (\<forall>y\<in>set (tl q). nbl_status (v_nbls v' y) = nbl_status (v_nbls v y))"
    using v1(3,5) st by (intro exI [of _ v']) simp
qed (simp_all add: VenetReset_def)


section \<open>Witnesses\<close>

lemma pause_restart_roundtrip_witness:
  "VenetRestart (snd (VenetPause demo_venet)) =
     (NDIS_STATUS_SUCCESS, nio Wait_send_event (upd_adapter (\<lambda>a. a\<lparr>a_sendEvent := True\<rparr>) demo_venet))"
  using pause_restart_roundtrip [OF demo_ready] by simp

lemma surprise_removed_still_ready_witness:
  "\<not> VENET_IS_NOT_READY (v_adapter (VenetDevicePnPEvent True demo_venet))"
  using surprise_removed_still_ready [of demo_venet] demo_ready by simp

lemma reset_cancels_one_witness:
  "\<exists>v'. VenetReset demo_queued = Some (Inr (NDIS_STATUS_SUCCESS, False, v'))
     \<and> queue_rep (send_state v') [0x20, 0x30] \<and> v_io v' = [Send_complete 0x10 False]"
proof -
  have "\<not> VENET_TEST_FLAG (v_adapter demo_queued) VNET_ADAPTER_HALT_IN_PROGRESS"
    "\<not> VENET_TEST_FLAG (v_adapter demo_queued) VNET_ADAPTER_RESET" "v_io demo_queued = []"
    by (simp_all add: VENET_TEST_FLAG_def demo_queued_def demo_venet_def demo_adapter_def)
  with reset_cancels_one [OF demo_queued_rep] show ?thesis by auto
qed

text \<open>An adapter that is being reset with a busy control block and three queued lists.\<close>

definition demo_busy :: venet where
  "demo_busy = upd_adapter (\<lambda>a. a\<lparr>a_tcbBusy := [0x100], a_state := VNET_ADAPTER_RESET\<rparr>) demo_queued"


end
