(* ===== verification/Venet_Oids.thy ===== *)
theory Venet_Oids
  imports Venet_Queue
begin

text \<open>
  The requests that NDIS makes about settings and counters of the adapter, \<open>windows/venet/oids.c\<close>.
  An object identifier is one of the codes the source compares with, or another number. A buffer
  is a list of bytes that goes with the length NDIS states for it; a move beyond the bytes is a
  fault. What the driver kit's headers define (structure sizes, header constants) is a parameter.
\<close>

section \<open>Bytes\<close>

definition le16 :: "UINT16 \<Rightarrow> UINT8 list" where
  "le16 w = [ucast w, ucast (drop_bit 8 w)]"

definition le32 :: "UINT32 \<Rightarrow> UINT8 list" where
  "le32 w = [ucast w, ucast (drop_bit 8 w), ucast (drop_bit 16 w), ucast (drop_bit 24 w)]"

definition le64 :: "UINT64 \<Rightarrow> UINT8 list" where
  "le64 w = le32 (ucast w) @ le32 (ucast (drop_bit 32 w))"

text \<open>A read of a 32-bit value through a pointer to bytes.\<close>

fun rd32 :: "UINT8 list \<Rightarrow> UINT32 outcome" where
  "rd32 (a # b # c # d # bs) =
     Inr (ucast a OR push_bit 8 (ucast b) OR push_bit 16 (ucast c) OR push_bit 24 (ucast d))"
| "rd32 _ = Inl OutOfBounds"

lemma length_le [simp]: "length (le16 v) = 2" "length (le32 w) = 4" "length (le64 x) = 8"
  by (simp_all add: le16_def le32_def le64_def)

lemma rd32_le32 [simp]: "rd32 (le32 w @ bs) = Inr w"
proof -
  have "(ucast (ucast w :: UINT8) OR push_bit 8 (ucast (ucast (drop_bit 8 w) :: UINT8))
      OR push_bit 16 (ucast (ucast (drop_bit 16 w) :: UINT8))
      OR push_bit 24 (ucast (ucast (drop_bit 24 w) :: UINT8)) :: UINT32) = w"
  proof (rule bit_word_eqI)
    fix n assume "n < LENGTH(32)"
    then have "n < 8 \<or> 8 \<le> n \<and> n < 16 \<or> 16 \<le> n \<and> n < 24 \<or> 24 \<le> n \<and> n < 32" by simp linarith
    then show "bit (ucast (ucast w :: UINT8) OR push_bit 8 (ucast (ucast (drop_bit 8 w) :: UINT8))
      OR push_bit 16 (ucast (ucast (drop_bit 16 w) :: UINT8))
      OR push_bit 24 (ucast (ucast (drop_bit 24 w) :: UINT8)) :: UINT32) n = bit w n"
      by (auto simp: bit_simps)
  qed
  then show ?thesis by (simp add: le32_def)
qed

lemma rd32_defined: "length bs = 4 \<Longrightarrow> \<exists>w. rd32 bs = Inr w"
  by (cases bs rule: rd32.cases) auto

definition move_to :: "UINT8 list \<Rightarrow> UINT8 list \<Rightarrow> UINT8 list outcome" where
  "move_to buf bs = (if length bs \<le> length buf then Inr (bs @ drop (length bs) buf) else Inl OutOfBounds)"

section \<open>Identifiers and constants\<close>

datatype NDIS_OID =
    OID_GEN_CURRENT_PACKET_FILTER | OID_GEN_CURRENT_LOOKAHEAD | OID_GEN_INTERRUPT_MODERATION
  | OID_GEN_MAXIMUM_TOTAL_SIZE | OID_GEN_RCV_OK | OID_GEN_RECEIVE_BLOCK_SIZE | OID_GEN_RECEIVE_BUFFER_SPACE
  | OID_GEN_STATISTICS | OID_GEN_TRANSMIT_BLOCK_SIZE | OID_GEN_TRANSMIT_BUFFER_SPACE
  | OID_GEN_VENDOR_DESCRIPTION | OID_GEN_VENDOR_DRIVER_VERSION | OID_GEN_VENDOR_ID | OID_GEN_SUPPORTED_GUIDS
  | OID_GEN_XMIT_OK | OID_802_3_PERMANENT_ADDRESS | OID_802_3_CURRENT_ADDRESS | OID_802_3_MULTICAST_LIST
  | OID_802_3_MAXIMUM_LIST_SIZE | OID_802_3_RCV_ERROR_ALIGNMENT | OID_802_3_XMIT_ONE_COLLISION
  | OID_802_3_XMIT_MORE_COLLISIONS | OID_802_3_XMIT_DEFERRED | OID_802_3_XMIT_MAX_COLLISIONS
  | OID_802_3_RCV_OVERRUN | OID_802_3_XMIT_UNDERRUN | OID_802_3_XMIT_HEARTBEAT_FAILURE
  | OID_802_3_XMIT_TIMES_CRS_LOST | OID_802_3_XMIT_LATE_COLLISIONS
  | Other_oid UINT32

definition VenetSupportedOids :: "NDIS_OID list" where
  "VenetSupportedOids =
     [OID_GEN_CURRENT_PACKET_FILTER, OID_GEN_CURRENT_LOOKAHEAD, OID_GEN_INTERRUPT_MODERATION,
      OID_GEN_MAXIMUM_TOTAL_SIZE, OID_GEN_RCV_OK, OID_GEN_RECEIVE_BLOCK_SIZE, OID_GEN_RECEIVE_BUFFER_SPACE,
      OID_GEN_STATISTICS, OID_GEN_TRANSMIT_BLOCK_SIZE, OID_GEN_TRANSMIT_BUFFER_SPACE,
      OID_GEN_VENDOR_DESCRIPTION, OID_GEN_VENDOR_DRIVER_VERSION, OID_GEN_INTERRUPT_MODERATION,
      OID_GEN_VENDOR_ID, OID_GEN_SUPPORTED_GUIDS, OID_GEN_XMIT_OK, OID_GEN_STATISTICS,
      OID_802_3_PERMANENT_ADDRESS, OID_802_3_CURRENT_ADDRESS, OID_802_3_MULTICAST_LIST,
      OID_802_3_MAXIMUM_LIST_SIZE, OID_802_3_RCV_ERROR_ALIGNMENT, OID_802_3_XMIT_ONE_COLLISION,
      OID_802_3_XMIT_MORE_COLLISIONS, OID_802_3_XMIT_DEFERRED, OID_802_3_XMIT_MAX_COLLISIONS,
      OID_802_3_RCV_OVERRUN, OID_802_3_XMIT_UNDERRUN, OID_802_3_XMIT_HEARTBEAT_FAILURE,
      OID_802_3_XMIT_TIMES_CRS_LOST, OID_802_3_XMIT_LATE_COLLISIONS]"

text \<open>The packet types, by their NDIS values: directed, multicast, broadcast, promiscuous, all multicast.\<close>

definition NIC_SUPPORTED_FILTERS :: ULONG where
  "NIC_SUPPORTED_FILTERS = (0x1 OR 0x2 OR 0x8 OR 0x20 OR 0x4)"

definition VENET_VENDOR_ID :: ULONG where "VENET_VENDOR_ID = 0x00BEEEEF"
definition VENET_VENDOR_DRIVER_VERSION :: ULONG where "VENET_VENDOR_DRIVER_VERSION = 0x00010000"

text \<open>The string \<open>"Novell"\<close>, without its end.\<close>

definition VENET_VENDOR_DESC :: "UINT8 list" where
  "VENET_VENDOR_DESC = [0x4E, 0x6F, 0x76, 0x65, 0x6C, 0x6C]"

text \<open>The macro \<open>ETH_MAX_PACKET_SIZE\<close> has no parentheses: a factor reaches its last summand only.\<close>

definition eth_max_packet_times :: "ULONG \<Rightarrow> ULONG" where
  "eth_max_packet_times n = of_nat ETH_HEADER_SIZE + of_nat ETH_MAX_DATA_SIZE * n"

section \<open>Handlers\<close>

text \<open>From the headers of the driver kit: two structure sizes and the constants of object headers.\<close>

record ndis_abi =
  sizeof_stats :: nat
  sizeof_intr :: nat
  type_default :: UINT8
  revision_1 :: UINT8
  intr_revision_1 :: UINT8
  intr_size_1 :: UINT16
  intr_not_supported :: UINT32

definition object_header :: "UINT8 \<Rightarrow> UINT8 \<Rightarrow> UINT16 \<Rightarrow> UINT8 list" where
  "object_header ty rv sz = [ty, rv] @ le16 sz"

text \<open>The results of a query: status, bytes written, bytes needed, and the buffer.\<close>

type_synonym query_result = "NDIS_STATUS \<times> ULONG \<times> ULONG \<times> UINT8 list"

definition venet_gen_stats :: "ndis_abi \<Rightarrow> UINT8 list \<Rightarrow> ULONG \<Rightarrow> query_result outcome" where
  "venet_gen_stats abi buf len =
     (if of_nat (sizeof_stats abi) \<le> len then
        bind_ok (move_to buf (object_header (type_default abi) (revision_1 abi) (of_nat (sizeof_stats abi))
                              @ replicate (sizeof_stats abi - 4) 0)) (\<lambda>b.
          Inr (NDIS_STATUS_SUCCESS, of_nat (sizeof_stats abi), 0, b))
      else Inr (NDIS_STATUS_BUFFER_OVERFLOW, 0, of_nat (sizeof_stats abi), buf))"

text \<open>Here the counters keep what the caller put into them, unless they are set.\<close>

definition venet_intr_mod :: "ndis_abi \<Rightarrow> UINT8 list \<Rightarrow> ULONG \<Rightarrow> ULONG \<Rightarrow> ULONG \<Rightarrow> query_result outcome" where
  "venet_intr_mod abi buf len nr_read nr_needed =
     (if len < of_nat (sizeof_intr abi) then
        Inr (NDIS_STATUS_INVALID_LENGTH, nr_read, of_nat (sizeof_intr abi), buf)
      else
        bind_ok (move_to buf (object_header (type_default abi) (intr_revision_1 abi) (intr_size_1 abi)
                              @ le32 0 @ le32 (intr_not_supported abi) @ replicate (sizeof_intr abi - 12) 0)) (\<lambda>b.
          Inr (NDIS_STATUS_SUCCESS, of_nat (sizeof_intr abi), nr_needed, b)))"

type_synonym set_result = "NDIS_STATUS \<times> ULONG \<times> ULONG \<times> adapter"

definition mcast_bytes :: nat where "mcast_bytes = NIC_MAX_MCAST_LIST * ETH_LENGTH_OF_ADDRESS"

definition set_mcast_list :: "adapter \<Rightarrow> UINT8 list \<Rightarrow> ULONG \<Rightarrow> set_result outcome" where
  "set_mcast_list a b len =
     (if len mod of_nat ETH_LENGTH_OF_ADDRESS \<noteq> 0 then
        Inr (NDIS_STATUS_INVALID_LENGTH, len, of_nat ETH_LENGTH_OF_ADDRESS, a)
      else if len > of_nat mcast_bytes then
        Inr (NDIS_STATUS_MULTICAST_FULL, len, of_nat mcast_bytes, a)
      else if length b < unat len then Inl OutOfBounds
      else
        bind_ok (move_to (replicate mcast_bytes 0) (take (unat len) b)) (\<lambda>arr.
          Inr (NDIS_STATUS_SUCCESS, len, of_nat ETH_LENGTH_OF_ADDRESS,
               a\<lparr>a_mc_array := arr, a_mc_size := len div of_nat ETH_LENGTH_OF_ADDRESS\<rparr>)))"

definition set_pkt_filter :: "adapter \<Rightarrow> ULONG \<Rightarrow> NDIS_STATUS \<times> adapter" where
  "set_pkt_filter a pf =
     (if pf AND NOT NIC_SUPPORTED_FILTERS \<noteq> 0 then (NDIS_STATUS_NOT_SUPPORTED, a)
      else if pf \<noteq> a_packetFilter a then (NDIS_STATUS_SUCCESS, a\<lparr>a_packetFilter := pf\<rparr>)
      else (NDIS_STATUS_SUCCESS, a))"

definition venet_oid_set :: "adapter \<Rightarrow> NDIS_OID \<Rightarrow> UINT8 list \<Rightarrow> ULONG \<Rightarrow> set_result outcome" where
  "venet_oid_set a oid b len =
     (case oid of
        OID_802_3_MULTICAST_LIST \<Rightarrow> set_mcast_list a b len
      | OID_GEN_CURRENT_PACKET_FILTER \<Rightarrow>
          if len = 4 then
            bind_ok (rd32 b) (\<lambda>pf. case set_pkt_filter a pf of (rc, a1) \<Rightarrow> Inr (rc, len, 4, a1))
          else Inr (NDIS_STATUS_INVALID_LENGTH, 0, 4, a)
      | OID_GEN_CURRENT_LOOKAHEAD \<Rightarrow>
          if len = 4 then
            bind_ok (rd32 b) (\<lambda>n. Inr (NDIS_STATUS_INVALID_LENGTH, 4, 4, a\<lparr>a_lookAhead := n\<rparr>))
          else Inr (NDIS_STATUS_INVALID_LENGTH, 0, 4, a)
      | OID_GEN_INTERRUPT_MODERATION \<Rightarrow> Inr (NDIS_STATUS_INVALID_DATA, 0, 4, a)
      | _ \<Rightarrow> Inr (NDIS_STATUS_INVALID_OID, 0, 4, a))"

text \<open>The value that the switch of a query points at, where it does not answer itself.\<close>

definition oid_value :: "adapter \<Rightarrow> NDIS_OID \<Rightarrow> UINT8 list option" where
  "oid_value a oid =
     (case oid of
        OID_GEN_CURRENT_LOOKAHEAD \<Rightarrow> Some (le32 (a_lookAhead a))
      | OID_GEN_MAXIMUM_TOTAL_SIZE \<Rightarrow> Some (le32 (eth_max_packet_times 1))
      | OID_GEN_TRANSMIT_BLOCK_SIZE \<Rightarrow> Some (le32 (eth_max_packet_times 1))
      | OID_GEN_RECEIVE_BLOCK_SIZE \<Rightarrow> Some (le32 (eth_max_packet_times 1))
      | OID_GEN_TRANSMIT_BUFFER_SPACE \<Rightarrow> Some (le32 (eth_max_packet_times (a_maxBusySends a)))
      | OID_GEN_RECEIVE_BUFFER_SPACE \<Rightarrow> Some (le32 (eth_max_packet_times (a_maxBusyRecvs a)))
      | OID_GEN_VENDOR_ID \<Rightarrow> Some (le32 VENET_VENDOR_ID)
      | OID_GEN_VENDOR_DESCRIPTION \<Rightarrow> Some VENET_VENDOR_DESC
      | OID_GEN_VENDOR_DRIVER_VERSION \<Rightarrow> Some (le32 VENET_VENDOR_DRIVER_VERSION)
      | OID_GEN_CURRENT_PACKET_FILTER \<Rightarrow> Some (le32 (a_packetFilter a))
      | OID_802_3_PERMANENT_ADDRESS \<Rightarrow> Some (a_permAddress a)
      | OID_802_3_CURRENT_ADDRESS \<Rightarrow> Some (a_currAddress a)
      | OID_802_3_MAXIMUM_LIST_SIZE \<Rightarrow> Some (le32 (of_nat NIC_MAX_MCAST_LIST))
      | OID_GEN_XMIT_OK \<Rightarrow> Some (le64 (a_txCount a))
      | OID_GEN_RCV_OK \<Rightarrow> Some (le64 (a_rxCount a))
      | OID_802_3_RCV_ERROR_ALIGNMENT \<Rightarrow> Some (le32 0)
      | OID_802_3_XMIT_ONE_COLLISION \<Rightarrow> Some (le32 0)
      | OID_802_3_XMIT_MORE_COLLISIONS \<Rightarrow> Some (le32 0)
      | OID_802_3_XMIT_DEFERRED \<Rightarrow> Some (le32 0)
      | OID_802_3_XMIT_MAX_COLLISIONS \<Rightarrow> Some (le32 0)
      | OID_802_3_RCV_OVERRUN \<Rightarrow> Some (le32 0)
      | OID_802_3_XMIT_UNDERRUN \<Rightarrow> Some (le32 0)
      | OID_802_3_XMIT_HEARTBEAT_FAILURE \<Rightarrow> Some (le32 0)
      | OID_802_3_XMIT_TIMES_CRS_LOST \<Rightarrow> Some (le32 0)
      | OID_802_3_XMIT_LATE_COLLISIONS \<Rightarrow> Some (le32 0)
      | _ \<Rightarrow> None)"

definition venet_oid_query :: "ndis_abi \<Rightarrow> adapter \<Rightarrow> NDIS_OID \<Rightarrow> UINT8 list \<Rightarrow> ULONG \<Rightarrow> query_result outcome" where
  "venet_oid_query abi a oid buf len =
     (case oid of
        OID_GEN_STATISTICS \<Rightarrow> venet_gen_stats abi buf len
      | OID_GEN_INTERRUPT_MODERATION \<Rightarrow> venet_intr_mod abi buf len 0 0
      | _ \<Rightarrow>
          (case oid_value a oid of
             None \<Rightarrow> Inr (NDIS_STATUS_NOT_SUPPORTED, 0, 0, buf)
           | Some p \<Rightarrow>
               let size = of_nat (length p)
               in if size \<le> len then bind_ok (move_to buf p) (\<lambda>b. Inr (NDIS_STATUS_SUCCESS, size, 0, b))
                  else Inr (NDIS_STATUS_INVALID_LENGTH, 0, size, buf)))"

datatype request_type =
    NdisRequestQueryInformation | NdisRequestQueryStatistics | NdisRequestSetInformation | Other_request

record oid_request =
  r_type :: request_type
  r_oid :: NDIS_OID
  r_buf :: "UINT8 list"
  r_len :: ULONG
  r_count :: ULONG
  r_needed :: ULONG

definition VenetOidRequest :: "ndis_abi \<Rightarrow> adapter \<Rightarrow> oid_request \<Rightarrow> (NDIS_STATUS \<times> adapter \<times> oid_request) outcome" where
  "VenetOidRequest abi a r =
     (case r_type r of
        NdisRequestSetInformation \<Rightarrow>
          bind_ok (venet_oid_set a (r_oid r) (r_buf r) (r_len r)) (\<lambda>(rc, count, needed, a1).
            Inr (rc, a1, r\<lparr>r_count := count, r_needed := needed\<rparr>))
      | Other_request \<Rightarrow> Inr (NDIS_STATUS_NOT_SUPPORTED, a, r)
      | _ \<Rightarrow>
          bind_ok (venet_oid_query abi a (r_oid r) (r_buf r) (r_len r)) (\<lambda>(rc, written, needed, b).
            Inr (rc, a, r\<lparr>r_count := written, r_needed := needed, r_buf := b\<rparr>)))"

section \<open>What a query does to the buffer\<close>

text \<open>The arrays of the adapter have their declared sizes, the driver kit's structures hold their headers.\<close>

definition arrays_ok :: "adapter \<Rightarrow> bool" where
  "arrays_ok a \<longleftrightarrow> length (a_permAddress a) = ETH_LENGTH_OF_ADDRESS
     \<and> length (a_currAddress a) = ETH_LENGTH_OF_ADDRESS \<and> length (a_mc_array a) = mcast_bytes"

definition abi_ok :: "ndis_abi \<Rightarrow> bool" where
  "abi_ok abi \<longleftrightarrow> 4 \<le> sizeof_stats abi \<and> sizeof_stats abi < 2 ^ 32 \<and> 12 \<le> sizeof_intr abi \<and> sizeof_intr abi < 2 ^ 32"

text \<open>A query either fills a prefix of the buffer and says so, or leaves it alone and says what it needs.\<close>

definition query_ok :: "UINT8 list \<Rightarrow> ULONG \<Rightarrow> query_result outcome \<Rightarrow> bool" where
  "query_ok buf len res \<longleftrightarrow>
     (\<exists>rc written needed b. res = Inr (rc, written, needed, b) \<and> length b = length buf
        \<and> written \<le> len \<and> drop (unat written) b = drop (unat written) buf
        \<and> (rc \<noteq> NDIS_STATUS_SUCCESS \<longrightarrow> written = 0)
        \<and> (rc \<in> {NDIS_STATUS_INVALID_LENGTH, NDIS_STATUS_BUFFER_OVERFLOW} \<longrightarrow> len < needed))"

lemma unat_ulong_of_nat: "n < 2 ^ 32 \<Longrightarrow> unat (of_nat n :: ULONG) = n"
  by (simp add: unat_of_nat)

lemma unat_ulong_less: "unat (w :: ULONG) < 2 ^ 32"
  using unsigned_less [of w] by simp

lemma query_fill_ok:
  assumes "unat len \<le> length buf" and "length bs < 2 ^ 32" and "of_nat (length bs) \<le> len"
  shows "query_ok buf len (bind_ok (move_to buf bs) (\<lambda>b. Inr (NDIS_STATUS_SUCCESS, of_nat (length bs), needed, b)))"
proof -
  have n: "unat (of_nat (length bs) :: ULONG) = length bs" by (rule unat_ulong_of_nat [OF assms(2)])
  then have "length bs \<le> length buf" using assms(1,3) by (simp add: word_le_nat_alt)
  then show ?thesis using assms(3) by (simp add: query_ok_def move_to_def n)
qed

lemma query_refuse_ok:
  assumes "len < needed \<or> rc \<notin> {NDIS_STATUS_INVALID_LENGTH, NDIS_STATUS_BUFFER_OVERFLOW}"
  shows "query_ok buf len (Inr (rc, 0, needed, buf))"
  using assms by (auto simp: query_ok_def)

lemma oid_value_length:
  assumes "arrays_ok a" and "oid_value a oid = Some p"
  shows "length p \<in> {4, 6, 8}"
  using assms by (cases oid) (auto simp: oid_value_def arrays_ok_def ETH_LENGTH_OF_ADDRESS_def VENET_VENDOR_DESC_def)

lemma oid_query_ok:
  assumes "unat len \<le> length buf" and "arrays_ok a" and "abi_ok abi"
  shows "query_ok buf len (venet_oid_query abi a oid buf len)"
proof -
  have val: "query_ok buf len
      (case oid_value a oid of None \<Rightarrow> Inr (NDIS_STATUS_NOT_SUPPORTED, 0, 0, buf)
       | Some p \<Rightarrow> let size = of_nat (length p)
                  in if size \<le> len then bind_ok (move_to buf p) (\<lambda>b. Inr (NDIS_STATUS_SUCCESS, size, 0, b))
                     else Inr (NDIS_STATUS_INVALID_LENGTH, 0, size, buf))"
  proof (cases "oid_value a oid")
    case None
    then show ?thesis by (simp add: query_refuse_ok)
  next
    case (Some p)
    then have "length p < 2 ^ 32" using oid_value_length [OF assms(2) Some] by auto
    then show ?thesis
      using query_fill_ok [OF assms(1), of p 0] by (auto simp: Some Let_def intro: query_refuse_ok)
  qed
  have stats: "query_ok buf len (venet_gen_stats abi buf len)"
  proof -
    let ?bs = "object_header (type_default abi) (revision_1 abi) (of_nat (sizeof_stats abi))
               @ replicate (sizeof_stats abi - 4) 0"
    have n: "length ?bs = sizeof_stats abi" "length ?bs < 2 ^ 32"
      using assms(3) by (auto simp: abi_ok_def object_header_def)
    show ?thesis
      using query_fill_ok [OF assms(1) n(2)] unfolding n(1)
      by (auto simp: venet_gen_stats_def intro: query_refuse_ok)
  qed
  have intr: "query_ok buf len (venet_intr_mod abi buf len 0 0)"
  proof -
    let ?bs = "object_header (type_default abi) (intr_revision_1 abi) (intr_size_1 abi)
               @ le32 0 @ le32 (intr_not_supported abi) @ replicate (sizeof_intr abi - 12) 0"
    have n: "length ?bs = sizeof_intr abi" "length ?bs < 2 ^ 32"
      using assms(3) by (auto simp: abi_ok_def object_header_def)
    show ?thesis
      using query_fill_ok [OF assms(1) n(2)] unfolding n(1)
      by (auto simp: venet_intr_mod_def intro: query_refuse_ok)
  qed
  show ?thesis
    using val stats intr by (cases oid) (simp_all add: venet_oid_query_def)
qed

text \<open>With room for the bytes, a fill succeeds.\<close>

lemma fill_room:
  fixes len :: ULONG
  assumes "length bs \<le> unat len" and "unat len \<le> length buf"
  shows "of_nat (length bs) \<le> len" and "\<exists>b. move_to buf bs = Inr b"
proof -
  have "length bs < 2 ^ 32" using assms(1) unat_ulong_less [of len] by (rule le_less_trans)
  then show "of_nat (length bs) \<le> len"
    using assms(1) by (simp add: word_le_nat_alt unat_ulong_of_nat)
  show "\<exists>b. move_to buf bs = Inr b" using assms by (simp add: move_to_def)
qed

lemma oid_value_answers:
  assumes "oid \<in> set VenetSupportedOids"
    and "oid \<notin> {OID_GEN_SUPPORTED_GUIDS, OID_802_3_MULTICAST_LIST, OID_GEN_STATISTICS, OID_GEN_INTERRUPT_MODERATION}"
  shows "\<exists>p. oid_value a oid = Some p"
  using assms by - (cases oid, simp_all add: oid_value_def VenetSupportedOids_def)

lemma gen_stats_room:
  assumes "abi_ok abi" and "sizeof_stats abi \<le> unat len" and "unat len \<le> length buf"
  shows "\<exists>w n b. venet_gen_stats abi buf len = Inr (NDIS_STATUS_SUCCESS, w, n, b)"
  using assms fill_room [of "object_header (type_default abi) (revision_1 abi) (of_nat (sizeof_stats abi))
      @ replicate (sizeof_stats abi - 4) 0" len buf]
  by (auto simp: venet_gen_stats_def object_header_def abi_ok_def)

lemma intr_mod_room:
  assumes "abi_ok abi" and "sizeof_intr abi \<le> unat len" and "unat len \<le> length buf"
  shows "\<exists>w n b. venet_intr_mod abi buf len 0 0 = Inr (NDIS_STATUS_SUCCESS, w, n, b)"
  using assms fill_room [of "object_header (type_default abi) (intr_revision_1 abi) (intr_size_1 abi)
      @ le32 0 @ le32 (intr_not_supported abi) @ replicate (sizeof_intr abi - 12) 0" len buf]
  by (auto simp: venet_intr_mod_def object_header_def abi_ok_def not_less)

section \<open>Properties\<close>


text \<open>Claim C38. The packet filter is stored exactly when all its bits are supported; a query then returns the bytes that were set,
  and a filter with an unsupported bit is refused with the adapter as it was.\<close>

theorem oid_filter_roundtrip:
  assumes "4 \<le> length buf"
  shows "venet_oid_set a OID_GEN_CURRENT_PACKET_FILTER (le32 pf) 4 =
       (if pf AND NOT NIC_SUPPORTED_FILTERS = 0 then Inr (NDIS_STATUS_SUCCESS, 4, 4, a\<lparr>a_packetFilter := pf\<rparr>)
        else Inr (NDIS_STATUS_NOT_SUPPORTED, 4, 4, a))
     \<and> venet_oid_query abi (a\<lparr>a_packetFilter := pf\<rparr>) OID_GEN_CURRENT_PACKET_FILTER buf 4 =
         Inr (NDIS_STATUS_SUCCESS, 4, 0, le32 pf @ drop 4 buf)"
  using assms rd32_le32 [of pf "[]"]
  by (simp add: venet_oid_set_def set_pkt_filter_def venet_oid_query_def oid_value_def move_to_def)

text \<open>Setting the lookahead size stores the value that later queries return, but the request is reported
  as a failure: no set of the lookahead size ever succeeds, whatever its length.\<close>

theorem oid_lookahead_always_fails:
  assumes "length b = unat len"
  shows "\<exists>count a'. venet_oid_set a OID_GEN_CURRENT_LOOKAHEAD b len = Inr (NDIS_STATUS_INVALID_LENGTH, count, 4, a')
       \<and> (len = 4 \<longrightarrow> count = 4 \<and> Inr (a_lookAhead a') = rd32 b) \<and> (len \<noteq> 4 \<longrightarrow> count = 0 \<and> a' = a)"
proof (cases "len = 4")
  case True
  then obtain n where "rd32 b = Inr n" using rd32_defined [of b] assms by auto
  then show ?thesis using True by (simp add: venet_oid_set_def)
next
  case False
  then show ?thesis by (simp add: venet_oid_set_def)
qed

text \<open>Claim C37. A multicast list is taken exactly when it holds whole addresses and at most thirty-two of them; the array then
  holds them, zeros behind, and the size counts them. Any other length changes nothing, and a list that is too long is answered with the space there is.\<close>

theorem oid_mcast_exact:
  assumes "length b = unat len"
  shows "venet_oid_set a OID_802_3_MULTICAST_LIST b len =
       (if length b mod 6 \<noteq> 0 then Inr (NDIS_STATUS_INVALID_LENGTH, len, 6, a)
        else if 192 < length b then Inr (NDIS_STATUS_MULTICAST_FULL, len, 192, a)
        else Inr (NDIS_STATUS_SUCCESS, len, 6,
                  a\<lparr>a_mc_array := b @ replicate (192 - length b) 0, a_mc_size := of_nat (length b div 6)\<rparr>))"
proof -
  have "len mod 6 \<noteq> 0 \<longleftrightarrow> length b mod 6 \<noteq> 0"
    by (simp add: assms word_unat_eq_iff unat_mod)
  moreover have "len > 192 \<longleftrightarrow> 192 < length b" by (simp add: assms word_less_nat_alt)
  moreover have "len div 6 = of_nat (length b div 6)"
    using unat_ulong_of_nat [of "unat len div 6"] unat_ulong_less [of len]
    by (simp add: assms word_unat_eq_iff unat_div less_imp_diff_less)
  ultimately show ?thesis
    by (simp add: venet_oid_set_def set_mcast_list_def ETH_LENGTH_OF_ADDRESS_def NIC_MAX_MCAST_LIST_def
        mcast_bytes_def move_to_def assms)
qed

text \<open>Of the identifiers the driver advertises, a query with room for the answer succeeds for all but two: the
  supported GUIDs and the multicast list are in the table, but no query of them is answered, and the GUIDs cannot be set either.\<close>

theorem oid_advertised_unanswered:
  assumes "oid \<in> set VenetSupportedOids" and "arrays_ok a" and "abi_ok abi"
    and "8 \<le> unat len" and "sizeof_stats abi \<le> unat len" and "sizeof_intr abi \<le> unat len" and "unat len \<le> length buf"
  shows "(oid \<in> {OID_GEN_SUPPORTED_GUIDS, OID_802_3_MULTICAST_LIST} \<longrightarrow>
            venet_oid_query abi a oid buf len = Inr (NDIS_STATUS_NOT_SUPPORTED, 0, 0, buf))
       \<and> (oid \<notin> {OID_GEN_SUPPORTED_GUIDS, OID_802_3_MULTICAST_LIST} \<longrightarrow>
            (\<exists>written needed b. venet_oid_query abi a oid buf len = Inr (NDIS_STATUS_SUCCESS, written, needed, b)))
       \<and> venet_oid_set a OID_GEN_SUPPORTED_GUIDS b' l' = Inr (NDIS_STATUS_INVALID_OID, 0, 4, a)"
proof (intro conjI impI)
  assume "oid \<in> {OID_GEN_SUPPORTED_GUIDS, OID_802_3_MULTICAST_LIST}"
  then show "venet_oid_query abi a oid buf len = Inr (NDIS_STATUS_NOT_SUPPORTED, 0, 0, buf)"
    by (auto simp: venet_oid_query_def oid_value_def)
next
  assume no: "oid \<notin> {OID_GEN_SUPPORTED_GUIDS, OID_802_3_MULTICAST_LIST}"
  show "\<exists>written needed b. venet_oid_query abi a oid buf len = Inr (NDIS_STATUS_SUCCESS, written, needed, b)"
  proof (cases "oid \<in> {OID_GEN_STATISTICS, OID_GEN_INTERRUPT_MODERATION}")
    case True
    then show ?thesis
      using gen_stats_room [OF assms(3,5,7)] intr_mod_room [OF assms(3,6,7)] by (auto simp: venet_oid_query_def)
  next
    case False
    then obtain p where p: "oid_value a oid = Some p" using oid_value_answers [OF assms(1)] no by auto
    have "length p \<le> unat len" using oid_value_length [OF assms(2) p] assms(4) by auto
    from fill_room [OF this assms(7)] show ?thesis
      using p False by (cases oid) (auto simp: venet_oid_query_def Let_def)
  qed
next
  show "venet_oid_set a OID_GEN_SUPPORTED_GUIDS b' l' = Inr (NDIS_STATUS_INVALID_OID, 0, 4, a)"
    by (simp add: venet_oid_set_def)
qed

section \<open>Witnesses\<close>

definition demo_abi :: ndis_abi where
  "demo_abi = \<lparr>sizeof_stats = 152, sizeof_intr = 12, type_default = 0x80, revision_1 = 1, intr_revision_1 = 1,
               intr_size_1 = 12, intr_not_supported = 1\<rparr>"

lemma demo_abi_ok: "abi_ok demo_abi"
  by (simp add: abi_ok_def demo_abi_def)

lemma demo_abi_sizes: "sizeof_stats demo_abi = 152" "sizeof_intr demo_abi = 12"
  by (simp_all add: demo_abi_def)

lemma demo_arrays_ok: "arrays_ok demo_adapter"
  by (simp add: arrays_ok_def demo_adapter_def ETH_LENGTH_OF_ADDRESS_def mcast_bytes_def NIC_MAX_MCAST_LIST_def)

definition demo_request :: oid_request where
  "demo_request = \<lparr>r_type = NdisRequestQueryInformation, r_oid = OID_GEN_STATISTICS, r_buf = replicate 100 9,
                   r_len = 100, r_count = 0, r_needed = 0\<rparr>"


lemma oid_filter_roundtrip_witness:
  "venet_oid_query demo_abi (demo_adapter\<lparr>a_packetFilter := 3\<rparr>) OID_GEN_CURRENT_PACKET_FILTER [1, 1, 1, 1, 1] 4 =
     Inr (NDIS_STATUS_SUCCESS, 4, 0, [3, 0, 0, 0, 1])"
  using oid_filter_roundtrip [of "[1, 1, 1, 1, 1]" demo_adapter 3 demo_abi] by (simp add: le32_def)

lemma oid_lookahead_always_fails_witness:
  "\<exists>count a'. venet_oid_set demo_adapter OID_GEN_CURRENT_LOOKAHEAD [0, 1, 0, 0] 4 =
     Inr (NDIS_STATUS_INVALID_LENGTH, count, 4, a') \<and> a_lookAhead a' = 256"
proof -
  have "length [0, 1, 0, 0 :: UINT8] = unat (4 :: ULONG)" by simp
  from oid_lookahead_always_fails [OF this, of demo_adapter] show ?thesis by auto
qed

lemma oid_mcast_exact_witness:
  "venet_oid_set demo_adapter OID_802_3_MULTICAST_LIST [1, 0, 0x5E, 0, 0, 1] 6 =
     Inr (NDIS_STATUS_SUCCESS, 6, 6,
          demo_adapter\<lparr>a_mc_array := [1, 0, 0x5E, 0, 0, 1] @ replicate 186 0, a_mc_size := 1\<rparr>)"
  using oid_mcast_exact [of "[1, 0, 0x5E, 0, 0, 1]" 6 demo_adapter] by simp

lemma oid_advertised_unanswered_witness:
  "\<exists>written needed b. venet_oid_query demo_abi demo_adapter OID_GEN_VENDOR_ID (replicate 200 0) 200 =
     Inr (NDIS_STATUS_SUCCESS, written, needed, b)"
proof -
  have "OID_GEN_VENDOR_ID \<in> set VenetSupportedOids" by (simp add: VenetSupportedOids_def)
  from oid_advertised_unanswered [OF this demo_arrays_ok demo_abi_ok, of 200 "replicate 200 0"]
  show ?thesis by (simp add: demo_abi_sizes)
qed

end
