(* ===== verification/Venet_Adapter.thy ===== *)
theory Venet_Adapter
  imports Vbus_Interface Venet_Handlers Venet_Oids "HOL-Library.Multiset"
begin

text \<open>
  The life of an adapter, \<open>windows/venet/venet.c\<close>: initialization and halt. The miniport uses the bus through the interface that the bus driver
  hands to its children, so the state is the miniport's together with the bus driver's machine, and
  the function pointers of \<open>a->vif\<close> are the functions of \<open>windows/vbus/interface.c\<close>; before the
  interface is queried they are null. The answers of NDIS and of the driver framework are parameters.
  The lemmas show what an initialized adapter looks like, which failures are cleaned up, and that
  halting gives everything back.
\<close>

section \<open>Environment\<close>

datatype timer = Reset_timer | Receive_timer

text \<open>
  What NDIS and the framework answer, the addresses of the handlers the driver passes to the bus, and
  the child device the adapter sits on.
\<close>

record ndis_env =
  new_timer :: "timer \<Rightarrow> NDIS_STATUS \<times> UINT64"
  miniport_create :: NTSTATUS
  query_interface :: NTSTATUS
  registration_status :: "registration_attributes \<Rightarrow> NDIS_STATUS"
  general_status :: "general_attributes \<Rightarrow> NDIS_STATUS"
  rx_handler :: UINT64
  tx_handler :: UINT64
  child :: nat

type_synonym sys = "venet \<times> machine"

text \<open>A step that reports a status, followed by the next one if it succeeded.\<close>

definition then_step ::
  "(NDIS_STATUS \<times> 's) outcome \<Rightarrow> ('s \<Rightarrow> (NDIS_STATUS \<times> 's) outcome) \<Rightarrow> (NDIS_STATUS \<times> 's) outcome" where
  "then_step r f = bind_ok r (\<lambda>(rc, s). if rc \<noteq> NDIS_STATUS_SUCCESS then Inr (rc, s) else f s)"

section \<open>Small operations\<close>

definition VenetAttach :: "UINT64 \<Rightarrow> venet \<Rightarrow> venet" where
  "VenetAttach p v = v\<lparr>v_list := v_list v @ [p]\<rparr>"

definition VenetDetach :: "UINT64 \<Rightarrow> venet \<Rightarrow> venet" where
  "VenetDetach p v = v\<lparr>v_list := remove1 p (v_list v)\<rparr>"

definition VenetGetMacAddress :: "venet \<Rightarrow> NDIS_STATUS \<times> venet" where
  "VenetGetMacAddress v =
     (let mac = [0xde, 0xad, 0xbe, 0xef, 0x02, 0x07]
      in (NDIS_STATUS_SUCCESS, upd_adapter (\<lambda>a. a\<lparr>a_permAddress := mac, a_currAddress := mac\<rparr>) v))"

definition VenetSetRegistrationAttributes :: "ndis_env \<Rightarrow> UINT64 \<Rightarrow> venet \<Rightarrow> NDIS_STATUS \<times> venet" where
  "VenetSetRegistrationAttributes E p v =
     (let attr = \<lparr>ra_context = p, ra_flags = [NO_HALT_ON_SUSPEND, NOT_CO_NDIS, BUS_MASTER], ra_hang_seconds = 128,
                  ra_interface_type = NdisInterfaceInternal\<rparr>
      in (registration_status E attr, nio (Set_registration attr) v))"

text \<open>\<open>sizeof( *VenetSupportedOids)\<close> is the size of one element.\<close>

definition sizeof_oid :: nat where "sizeof_oid = 4"

text \<open>
  The attributes; the filters are directed, multicast, all multicast and broadcast, by their NDIS
  values, and \<open>ga_interface\<close> are the physical medium and the access, direction, connection and
  interface types.
\<close>

definition general_attr :: "adapter \<Rightarrow> general_attributes" where
  "general_attr a =
     \<lparr>ga_media = NdisMedium802_3, ga_mtu = of_nat ETH_MAX_DATA_SIZE,
      ga_max_xmit_speed = NIC_MEDIA_MAX_SPEED, ga_max_rcv_speed = NIC_MEDIA_MAX_SPEED,
      ga_xmit_speed = LINK_SPEED_UNKNOWN, ga_rcv_speed = LINK_SPEED_UNKNOWN,
      ga_connect = MediaConnectStateUnknown, ga_duplex = MediaDuplexStateUnknown,
      ga_lookahead = of_nat ETH_MAX_DATA_SIZE,
      ga_mac_options = [MAC_OPTION_COPY_LOOKAHEAD_DATA, MAC_OPTION_TRANSFERS_NOT_PEND, MAC_OPTION_8021P_PRIORITY,
                        MAC_OPTION_NO_LOOPBACK],
      ga_filters = 0x1 OR 0x2 OR 0x4 OR 0x8,
      ga_max_multicast = of_nat NIC_MAX_MCAST_LIST, ga_address_length = of_nat ETH_LENGTH_OF_ADDRESS,
      ga_permanent = take ETH_LENGTH_OF_ADDRESS (a_permAddress a), ga_current = take ETH_LENGTH_OF_ADDRESS (a_currAddress a),
      ga_interface = [NdisPhysicalMedium802_3, NET_IF_ACCESS_BROADCAST, NET_IF_DIRECTION_SENDRECEIVE,
                      NET_IF_CONNECTION_DEDICATED, IF_TYPE_ETHERNET_CSMACD],
      ga_connector = True,
      ga_statistics = [DIRECTED_FRAMES_RCV, MULTICAST_FRAMES_RCV, BROADCAST_FRAMES_RCV, BYTES_RCV, RCV_DISCARDS, RCV_ERROR,
                       DIRECTED_FRAMES_XMIT, MULTICAST_FRAMES_XMIT, BROADCAST_FRAMES_XMIT, BYTES_XMIT, XMIT_ERROR,
                       XMIT_DISCARDS, DIRECTED_BYTES_RCV, MULTICAST_BYTES_RCV, BROADCAST_BYTES_RCV,
                       DIRECTED_BYTES_XMIT, MULTICAST_BYTES_XMIT, BROADCAST_BYTES_XMIT],
      ga_oids_length = of_nat sizeof_oid\<rparr>"

definition VenetSetGeneralAttributes :: "ndis_env \<Rightarrow> venet \<Rightarrow> NDIS_STATUS \<times> venet" where
  "VenetSetGeneralAttributes E v =
     (let attr = general_attr (v_adapter v) in (general_status E attr, nio (Set_general attr) v))"

definition VenetRegistryParams :: "venet \<Rightarrow> NDIS_STATUS \<times> venet" where
  "VenetRegistryParams v = (NDIS_STATUS_SUCCESS, v)"

section \<open>Send and receive resources\<close>

definition vif_destroy :: "UINT64 \<Rightarrow> sys \<Rightarrow> sys outcome" where
  "vif_destroy h = (\<lambda>(v, m).
     if \<not> a_vif (v_adapter v) then Inl NullDeref
     else bind_ok (VbusInterfaceDestroy h m) (\<lambda>m1. Inr (v, m1)))"

definition vif_create :: "ULONG \<Rightarrow> UINT32 \<Rightarrow> UINT64 \<Rightarrow> UINT64 \<Rightarrow> sys \<Rightarrow> (UINT64 \<times> sys) outcome" where
  "vif_create qlen type p func = (\<lambda>(v, m).
     if \<not> a_vif (v_adapter v) then Inl NullDeref
     else case VbusInterfaceCreate (a_bus_handle (v_adapter v)) qlen p type func m of
            (h, _, m1) \<Rightarrow> Inr (h, v, m1))"

fun free_tcbs :: "UINT64 list \<Rightarrow> venet \<Rightarrow> venet outcome" where
  "free_tcbs [] v = Inr v"
| "free_tcbs (t # ts) v = bind_ok (VenetFree t v) (free_tcbs ts)"

definition VenetFreeTx :: "sys \<Rightarrow> sys outcome" where
  "VenetFreeTx = (\<lambda>(v, m).
     bind_ok (free_tcbs (a_tcbFree (v_adapter v)) v) (\<lambda>v1.
     bind_ok (free_tcbs (a_tcbBusy (v_adapter v1)) (upd_adapter (\<lambda>a. a\<lparr>a_tcbFree := []\<rparr>) v1)) (\<lambda>v2.
     bind_ok (vif_destroy (a_txHandle (v_adapter v2)) (upd_adapter (\<lambda>a. a\<lparr>a_tcbBusy := []\<rparr>) v2, m)) (\<lambda>(v3, m1).
       Inr (upd_adapter (\<lambda>a. a\<lparr>a_txHandle := 0\<rparr>) v3, m1)))))"

definition tcb_zero :: tcb where
  "tcb_zero = \<lparr>t_isCancelled = False, t_nbl = 0, t_status = 0, t_nb_count = 0, t_data = replicate NIC_BUFFER_SIZE 0\<rparr>"

text \<open>The loop that allocates the zeroed control blocks; it says whether it got them all.\<close>

fun alloc_tcbs :: "nat \<Rightarrow> venet \<Rightarrow> bool \<times> venet" where
  "alloc_tcbs 0 v = (True, v)"
| "alloc_tcbs (Suc n) v =
     (let (t, v1) = VenetAlloc v
      in if t = 0 then (False, v1)
         else alloc_tcbs n (upd_adapter (\<lambda>a. a\<lparr>a_tcbFree := t # a_tcbFree a\<rparr>)
                (v1\<lparr>v_tcbs := (v_tcbs v1)(t := tcb_zero)\<rparr>)))"

definition VBUS_IOQ_SEND :: UINT32 where "VBUS_IOQ_SEND = 0x02"
definition VBUS_IOQ_RECV :: UINT32 where "VBUS_IOQ_RECV = 0x04"

definition VenetSetupTx :: "ndis_env \<Rightarrow> UINT64 \<Rightarrow> sys \<Rightarrow> (NDIS_STATUS \<times> sys) outcome" where
  "VenetSetupTx E p = (\<lambda>(v, m).
     let (ok, v1) = alloc_tcbs (unat (a_numTcbs (v_adapter v))) v
     in if \<not> ok then Inr (STATUS_NO_MEMORY, v1, m)
        else
          let v2 = upd_adapter (\<lambda>a. a\<lparr>a_numTCBsFree := a_numTcbs a\<rparr>) v1
          in bind_ok (vif_create 512 VBUS_IOQ_SEND p (tx_handler E) (v2, m)) (\<lambda>(h, v3, m1).
               let s4 = (upd_adapter (\<lambda>a. a\<lparr>a_txHandle := h\<rparr>) v3, m1)
               in if h = 0 then bind_ok (VenetFreeTx s4) (\<lambda>s5. Inr (NDIS_STATUS_FAILURE, s5))
                  else Inr (NDIS_STATUS_SUCCESS, s4)))"

definition VenetFreeRx :: "sys \<Rightarrow> sys outcome" where
  "VenetFreeRx = (\<lambda>(v, m).
     bind_ok (vif_destroy (a_rxHandle (v_adapter v)) (v, m)) (\<lambda>(v1, m1).
       Inr (upd_adapter (\<lambda>a. a\<lparr>a_rxHandle := 0\<rparr>) v1, m1)))"

definition VenetSetupRx :: "ndis_env \<Rightarrow> UINT64 \<Rightarrow> sys \<Rightarrow> (NDIS_STATUS \<times> sys) outcome" where
  "VenetSetupRx E p s =
     bind_ok (vif_create 512 VBUS_IOQ_RECV p (rx_handler E) s) (\<lambda>(h, v, m).
       let s1 = (upd_adapter (\<lambda>a. a\<lparr>a_rxHandle := h\<rparr>) v, m)
       in if h = 0 then bind_ok (VenetFreeRx s1) (\<lambda>s2. Inr (NDIS_STATUS_FAILURE, s2))
          else Inr (NDIS_STATUS_SUCCESS, s1))"

section \<open>Initialization\<close>

text \<open>\<open>VenetAlloc\<close> zeroes the memory of a new adapter.\<close>

definition adapter_zero :: adapter where
  "adapter_zero = \<lparr>a_adapterHandle = 0, a_state = 0, a_refCount = 0, a_vif = False, a_bus_handle = 0, a_resetTimer = 0,
     a_recvTimer = 0, a_resetCount = 0, a_removeEvent = False, a_permAddress = replicate ETH_LENGTH_OF_ADDRESS 0,
     a_currAddress = replicate ETH_LENGTH_OF_ADDRESS 0, a_mc_size = 0, a_mc_array = replicate mcast_bytes 0,
     a_packetFilter = 0, a_lookAhead = 0, a_linkSpeed = 0, a_maxBusySends = 0, a_maxBusyRecvs = 0, a_txCount = 0,
     a_rxCount = 0, a_nBusyRecv = 0, a_rxHandle = 0, a_txHandle = 0, a_numTcbs = 0, a_numTCBsFree = 0,
     a_sendQueue = \<lparr>q_head = 0, q_tail = 0\<rparr>, a_sendEvent = False, a_sendingNBL = 0, a_dmaHandle = 0,
     a_tcbFree = [], a_tcbBusy = []\<rparr>"

definition VenetSetupAdapter :: "ndis_env \<Rightarrow> venet \<Rightarrow> NDIS_STATUS \<times> venet" where
  "VenetSetupAdapter E v0 =
     (let v = upd_adapter (\<lambda>a. (VENET_SET_FLAG (a\<lparr>a_lookAhead := of_nat ETH_MAX_DATA_SIZE,
                a_numTcbs := of_nat NIC_MAX_BUSY_SENDS, a_refCount := 1\<rparr>) VNET_DISCONNECTED)
                \<lparr>a_sendQueue := QueueInit, a_tcbFree := [], a_tcbBusy := [], a_removeEvent := False,
                 a_sendEvent := True\<rparr>) v0;
          (rc, h) = new_timer E Reset_timer
      in if rc \<noteq> NDIS_STATUS_SUCCESS then (rc, v)
         else
           let v1 = upd_adapter (\<lambda>a. a\<lparr>a_resetTimer := h\<rparr>) v;
               (rc2, h2) = new_timer E Receive_timer
           in if rc2 \<noteq> NDIS_STATUS_SUCCESS then (rc2, v1)
              else (NDIS_STATUS_SUCCESS, upd_adapter (\<lambda>a. a\<lparr>a_recvTimer := h2\<rparr>) v1))"

definition VENET_VERSION :: UINT32 where "VENET_VERSION = 1"

definition VenetGetInterface :: "host \<Rightarrow> ndis_env \<Rightarrow> sys \<Rightarrow> (NDIS_STATUS \<times> sys) outcome" where
  "VenetGetInterface H E = (\<lambda>(v, m).
     if \<not> NT_SUCCESS (miniport_create E) then Inr (NDIS_STATUS_FAILURE, v, m)
     else if \<not> NT_SUCCESS (query_interface E) then Inr (NDIS_STATUS_FAILURE, v, m)
     else
       let v1 = upd_adapter (\<lambda>a. a\<lparr>a_vif := True\<rparr>) v
       in bind_ok (VbusInterfaceOpen H (child E) VENET_VERSION (a_bus_handle (v_adapter v1)) m) (\<lambda>(rc, bh, m1).
            let v2 = upd_adapter (\<lambda>a. a\<lparr>a_bus_handle := bh\<rparr>) v1
            in Inr (if rc \<noteq> 0 then NDIS_STATUS_FAILURE else NDIS_STATUS_SUCCESS, v2, m1)))"

section \<open>Halt\<close>

definition free_timer :: "UINT64 \<Rightarrow> venet \<Rightarrow> venet" where
  "free_timer h v = (if h \<noteq> 0 then nio (Free_timer h) v else v)"

definition vif_close :: "host \<Rightarrow> sys \<Rightarrow> sys outcome" where
  "vif_close H = (\<lambda>(v, m).
     if a_vif (v_adapter v) then bind_ok (VbusInterfaceClose H (a_bus_handle (v_adapter v)) m) (\<lambda>m1. Inr (v, m1))
     else Inr (v, m))"

text \<open>The part of halting that frees, after the queued sends are dealt with.\<close>

definition halt_free :: "host \<Rightarrow> UINT64 \<Rightarrow> sys \<Rightarrow> sys outcome" where
  "halt_free H p = (\<lambda>(v, m).
     let v1 = nio Wait_remove_event (upd_adapter VENET_ADAPTER_PUT v);
         v2 = free_timer (a_recvTimer (v_adapter v1)) (free_timer (a_resetTimer (v_adapter v1)) v1);
         dma = a_dmaHandle (v_adapter v2);
         v3 = (if dma \<noteq> 0 then nio (Deregister_dma dma) v2 else v2)
     in bind_ok (VenetFreeRx (v3, m)) (\<lambda>s4.
        bind_ok (VenetFreeTx s4) (\<lambda>s5.
        bind_ok (vif_close H s5) (\<lambda>(v6, m6).
        bind_ok (VenetFree p v6) (\<lambda>v7. Inr (v7, m6))))))"

definition VenetHalt :: "host \<Rightarrow> UINT64 \<Rightarrow> sys \<Rightarrow> sys outcome option" where
  "VenetHalt H p = (\<lambda>(v, m).
     if p = 0 then Some (Inl NullDeref)
     else
       let v1 = VenetDetach p (VenetSetSyncFlag VNET_ADAPTER_HALT_IN_PROGRESS v)
       in ret_bind (VenetFreeQueuedSend NDIS_STATUS_FAILURE v1) (\<lambda>v2. Some (halt_free H p (v2, m))))"

definition on_venet :: "(venet \<Rightarrow> NDIS_STATUS \<times> venet) \<Rightarrow> sys \<Rightarrow> (NDIS_STATUS \<times> sys) outcome" where
  "on_venet f = (\<lambda>(v, m). case f v of (rc, v1) \<Rightarrow> Inr (rc, v1, m))"

text \<open>The steps of initialization, each entered only if the one before it succeeded.\<close>

definition init_steps :: "host \<Rightarrow> ndis_env \<Rightarrow> UINT64 \<Rightarrow> sys \<Rightarrow> (NDIS_STATUS \<times> sys) outcome" where
  "init_steps H E p s =
     then_step (on_venet (VenetSetupAdapter E) s) (\<lambda>s1.
     then_step (VenetGetInterface H E s1) (\<lambda>s2.
     then_step (VenetSetupRx E p s2) (\<lambda>s3.
     then_step (VenetSetupTx E p s3) (\<lambda>s4.
     then_step (on_venet VenetGetMacAddress s4) (\<lambda>s5.
     then_step (on_venet VenetRegistryParams s5) (\<lambda>s6.
     then_step (on_venet (VenetSetRegistrationAttributes E p) s6)
       (on_venet (VenetSetGeneralAttributes E))))))))"

definition VenetInitialize ::
  "host \<Rightarrow> ndis_env \<Rightarrow> UINT64 \<Rightarrow> sys \<Rightarrow> (NDIS_STATUS \<times> sys) outcome option" where
  "VenetInitialize H E handle = (\<lambda>(v0, m).
     let (p, v1) = VenetAlloc v0
     in if p = 0 then ret_bind (VenetHalt H 0 (v1, m)) (\<lambda>s. Some (Inr (NDIS_STATUS_RESOURCES, s)))
        else
          let v2 = VenetAttach p (v1\<lparr>v_adapter := adapter_zero\<lparr>a_adapterHandle := handle\<rparr>\<rparr>)
          in ret_bind (Some (init_steps H E p (v2, m))) (\<lambda>(rc, s).
               if rc \<noteq> NDIS_STATUS_SUCCESS
               then ret_bind (VenetHalt H p s) (\<lambda>s1. Some (Inr (rc, s1)))
               else case s of (v, m1) \<Rightarrow>
                 Some (Inr (NDIS_STATUS_SUCCESS, upd_adapter (\<lambda>a. VENET_CLEAR_FLAG a VNET_DISCONNECTED) v, m1))))"

section \<open>Giving memory back\<close>

context allocator
begin

lemma free_mset:
  assumes "mset (live s) = add_mset h R" and "h \<noteq> null"
  shows "\<exists>hs. free h s = Inr (put hs s) \<and> mset hs = R"
proof -
  have "h \<in> set (live s)" using assms(1) by (metis set_mset_mset union_single_eq_member)
  then show ?thesis using free_live [of h s] assms by auto
qed

lemma free_opt:
  assumes "mset (live s) = (if h = null then {#} else {#h#}) + R"
  shows "\<exists>hs. free h s = Inr (put hs s) \<and> mset hs = R"
proof (cases "h = null")
  case True
  then show ?thesis using assms free_null [of s] put_live [of s] by (intro exI [of _ "live s"]) simp
next
  case False
  then show ?thesis using assms free_mset [of s h R] by simp
qed

end

abbreviation vif_handle :: "ULONG \<Rightarrow> UINT64 \<Rightarrow> UINT32 \<Rightarrow> UINT64 \<Rightarrow> UINT64 \<Rightarrow> machine \<Rightarrow> UINT64 \<times> machine" where
  "vif_handle len bh type p func m \<equiv>
     (case VbusInterfaceCreate bh len p type func m of (h, _, m1) \<Rightarrow> (h, m1))"

interpretation vifq: allocator m_live "\<lambda>l m. m\<lparr>m_live := l\<rparr>" 0 "vif_handle len bh type p func" VbusInterfaceDestroy
  for len bh type p func
  by unfold_locales
    (auto simp: VbusInterfaceCreate_def VbusInterfaceDestroy_def VbusAlloc_def VbusFree_def Let_def split: list.splits)

lemma free_tcbs_mset:
  assumes "mset (v_live v) = mset ts + R" and "0 \<notin> set ts"
  shows "\<exists>L. free_tcbs ts v = Inr (v\<lparr>v_live := L\<rparr>) \<and> mset L = R"
  using assms
proof (induction ts arbitrary: v)
  case Nil
  then show ?case by (intro exI [of _ "v_live v"]) simp
next
  case (Cons t ts)
  then obtain L1 where L1: "VenetFree t v = Inr (v\<lparr>v_live := L1\<rparr>)" "mset L1 = mset ts + R"
    using venetpool.free_mset [of v t "mset ts + R"] by auto
  then obtain L where "free_tcbs ts (v\<lparr>v_live := L1\<rparr>) = Inr (v\<lparr>v_live := L1\<rparr>\<lparr>v_live := L\<rparr>)" "mset L = R"
    using Cons.IH [of "v\<lparr>v_live := L1\<rparr>"] Cons.prems by auto
  then show ?case using L1 by auto
qed

lemma vif_destroy_mset:
  assumes "a_vif (v_adapter v)" and "mset (m_live m) = block h + Rm"
  shows "\<exists>L. vif_destroy h (v, m) = Inr (v, m\<lparr>m_live := L\<rparr>) \<and> mset L = Rm"
  using assms vifq.free_opt [of m h Rm] by (auto simp: vif_destroy_def block_def)

lemma free_tx_mset:
  assumes "a_vif (v_adapter v)" and "0 \<notin> set (a_tcbFree (v_adapter v)) \<union> set (a_tcbBusy (v_adapter v))"
    and "mset (v_live v) = mset (a_tcbFree (v_adapter v)) + mset (a_tcbBusy (v_adapter v)) + R"
    and "mset (m_live m) = block (a_txHandle (v_adapter v)) + Rm"
  shows "\<exists>L Lm. VenetFreeTx (v, m) =
       Inr (v\<lparr>v_live := L, v_adapter := (v_adapter v)\<lparr>a_tcbFree := [], a_tcbBusy := [], a_txHandle := 0\<rparr>\<rparr>,
            m\<lparr>m_live := Lm\<rparr>) \<and> mset L = R \<and> mset Lm = Rm"
proof -
  let ?a = "v_adapter v"
  obtain L1 where L1: "free_tcbs (a_tcbFree ?a) v = Inr (v\<lparr>v_live := L1\<rparr>)" "mset L1 = mset (a_tcbBusy ?a) + R"
    using free_tcbs_mset [of v "a_tcbFree ?a" "mset (a_tcbBusy ?a) + R"] assms(2,3) by (auto simp: add.assoc)
  let ?v1 = "upd_adapter (\<lambda>a. a\<lparr>a_tcbFree := []\<rparr>) (v\<lparr>v_live := L1\<rparr>)"
  obtain L where L: "free_tcbs (a_tcbBusy ?a) ?v1 = Inr (?v1\<lparr>v_live := L\<rparr>)" "mset L = R"
    using free_tcbs_mset [of ?v1 "a_tcbBusy ?a" R] assms(2) L1(2) by auto
  let ?v2 = "upd_adapter (\<lambda>a. a\<lparr>a_tcbBusy := []\<rparr>) (?v1\<lparr>v_live := L\<rparr>)"
  obtain Lm where "vif_destroy (a_txHandle ?a) (?v2, m) = Inr (?v2, m\<lparr>m_live := Lm\<rparr>)" "mset Lm = Rm"
    using vif_destroy_mset [of ?v2 m "a_txHandle ?a" Rm] assms(1,4) by auto
  then show ?thesis
    using L1(1) L by (auto simp: VenetFreeTx_def)
qed


lemma free_rx_mset:
  assumes "a_vif (v_adapter v)" and "mset (m_live m) = block (a_rxHandle (v_adapter v)) + Rm"
  shows "\<exists>Lm. VenetFreeRx (v, m) = Inr (upd_adapter (\<lambda>a. a\<lparr>a_rxHandle := 0\<rparr>) v, m\<lparr>m_live := Lm\<rparr>) \<and> mset Lm = Rm"
  using vif_destroy_mset [OF assms] by (auto simp: VenetFreeRx_def)

text \<open>What an adapter owns: its control blocks, itself, and the two queue handles of the bus.\<close>

definition own_blocks :: "UINT64 \<Rightarrow> venet \<Rightarrow> UINT64 multiset" where
  "own_blocks p v = add_mset p (mset (a_tcbFree (v_adapter v)) + mset (a_tcbBusy (v_adapter v)))"

definition handles :: "venet \<Rightarrow> UINT64 multiset" where
  "handles v = block (a_rxHandle (v_adapter v)) + block (a_txHandle (v_adapter v))"

text \<open>\<open>bus_handle\<close> is what \<open>VbusInterfaceOpen\<close> left in it, the zero it had.\<close>

definition adapter_owns :: "UINT64 \<Rightarrow> UINT64 multiset \<Rightarrow> UINT64 multiset \<Rightarrow> sys \<Rightarrow> bool" where
  "adapter_owns p R Rm = (\<lambda>(v, m).
     p \<noteq> 0 \<and> a_vif (v_adapter v) \<and> a_bus_handle (v_adapter v) = 0
   \<and> 0 \<notin> set (a_tcbFree (v_adapter v)) \<union> set (a_tcbBusy (v_adapter v))
   \<and> mset (v_live v) = own_blocks p v + R \<and> mset (m_live m) = handles v + Rm)"

lemma free_timer_simps [simp]:
  "v_adapter (free_timer h v) = v_adapter v" "v_live (free_timer h v) = v_live v"
  "v_list (free_timer h v) = v_list v" "v_pool (free_timer h v) = v_pool v" "v_nbls (free_timer h v) = v_nbls v"
  by (simp_all add: free_timer_def)

lemma VENET_ADAPTER_PUT_simps [simp]:
  "a_vif (VENET_ADAPTER_PUT a) = a_vif a" "a_bus_handle (VENET_ADAPTER_PUT a) = a_bus_handle a"
  "a_tcbFree (VENET_ADAPTER_PUT a) = a_tcbFree a" "a_tcbBusy (VENET_ADAPTER_PUT a) = a_tcbBusy a"
  "a_rxHandle (VENET_ADAPTER_PUT a) = a_rxHandle a" "a_txHandle (VENET_ADAPTER_PUT a) = a_txHandle a"
  by (simp_all add: VENET_ADAPTER_PUT_def Let_def)

text \<open>The lists that were completed, in order.\<close>

fun completed :: "ndis_io list \<Rightarrow> UINT64 list" where
  "completed [] = []"
| "completed (Send_complete p b # es) = p # completed es"
| "completed (_ # es) = completed es"

lemma completed_append [simp]: "completed (es @ fs) = completed es @ completed fs"
  by (induction es rule: completed.induct) auto

lemma halt_free_owned:
  assumes own: "adapter_owns p R Rm (v, m)"
  shows "\<exists>v' Lm. halt_free H p (v, m) = Inr (v', m\<lparr>m_live := Lm\<rparr>) \<and> mset (v_live v') = R \<and> mset Lm = Rm
           \<and> v_list v' = v_list v \<and> v_nbls v' = v_nbls v \<and> completed (v_io v') = completed (v_io v)"
proof -
  let ?v1 = "nio Wait_remove_event (upd_adapter VENET_ADAPTER_PUT v)"
  define v2 where "v2 = free_timer (a_recvTimer (v_adapter ?v1)) (free_timer (a_resetTimer (v_adapter ?v1)) ?v1)"
  define v3 where "v3 = (if a_dmaHandle (v_adapter v2) \<noteq> 0 then nio (Deregister_dma (a_dmaHandle (v_adapter v2))) v2 else v2)"
  have v3: "v_adapter v3 = VENET_ADAPTER_PUT (v_adapter v)" "v_live v3 = v_live v" "v_list v3 = v_list v"
    "v_nbls v3 = v_nbls v" "completed (v_io v3) = completed (v_io v)"
    by (simp_all add: v3_def v2_def free_timer_def)
  have p: "p \<noteq> 0" "a_vif (v_adapter v)" "a_bus_handle (v_adapter v) = 0"
    "0 \<notin> set (a_tcbFree (v_adapter v)) \<union> set (a_tcbBusy (v_adapter v))"
    and mem: "mset (v_live v) = mset (a_tcbFree (v_adapter v)) + mset (a_tcbBusy (v_adapter v)) + add_mset p R"
    "mset (m_live m) = block (a_rxHandle (v_adapter v)) + (block (a_txHandle (v_adapter v)) + Rm)"
    using own by (simp_all add: adapter_owns_def own_blocks_def handles_def add.assoc)
  let ?v4 = "upd_adapter (\<lambda>a. a\<lparr>a_rxHandle := 0\<rparr>) v3"
  obtain L1 where L1: "VenetFreeRx (v3, m) = Inr (?v4, m\<lparr>m_live := L1\<rparr>)"
    "mset L1 = block (a_txHandle (v_adapter v)) + Rm"
    using free_rx_mset [of v3 m] p(2) mem(2) v3(1) by auto
  obtain L Lm where L: "VenetFreeTx (?v4, m\<lparr>m_live := L1\<rparr>) =
      Inr (?v4\<lparr>v_live := L, v_adapter := (v_adapter ?v4)\<lparr>a_tcbFree := [], a_tcbBusy := [], a_txHandle := 0\<rparr>\<rparr>,
           m\<lparr>m_live := L1\<rparr>\<lparr>m_live := Lm\<rparr>)" "mset L = add_mset p R" "mset Lm = Rm"
    using free_tx_mset [of ?v4 "add_mset p R" "m\<lparr>m_live := L1\<rparr>" Rm] p(2,4) mem(1) L1(2) v3 by auto
  define v5 where "v5 = ?v4\<lparr>v_live := L, v_adapter := (v_adapter ?v4)\<lparr>a_tcbFree := [], a_tcbBusy := [], a_txHandle := 0\<rparr>\<rparr>"
  have v5: "v_live v5 = L" "a_vif (v_adapter v5)" "a_bus_handle (v_adapter v5) = 0" "v_list v5 = v_list v"
    "v_nbls v5 = v_nbls v" "completed (v_io v5) = completed (v_io v)"
    using p v3 by (simp_all add: v5_def)
  obtain L2 where L2: "VenetFree p v5 = Inr (v5\<lparr>v_live := L2\<rparr>)" "mset L2 = R"
    using venetpool.free_mset [of v5 p R] L(2) v5(1) p(1) by auto
  have tx: "VenetFreeTx (?v4, m\<lparr>m_live := L1\<rparr>) = Inr (v5, m\<lparr>m_live := Lm\<rparr>)"
    using L(1) by (simp add: v5_def)
  have "halt_free H p (v, m) = Inr (v5\<lparr>v_live := L2\<rparr>, m\<lparr>m_live := Lm\<rparr>)"
    unfolding halt_free_def prod.case Let_def v2_def [symmetric] v3_def [symmetric] L1(1) bind_ok.simps tx
    using L2(1) v5 by (simp add: vif_close_def VbusInterfaceClose_def)
  moreover have "mset (v_live (v5\<lparr>v_live := L2\<rparr>)) = R" "v_list (v5\<lparr>v_live := L2\<rparr>) = v_list v"
    "v_nbls (v5\<lparr>v_live := L2\<rparr>) = v_nbls v" "completed (v_io (v5\<lparr>v_live := L2\<rparr>)) = completed (v_io v)"
    using L2(2) v5 by simp_all
  ultimately show ?thesis using L(3) by blast
qed

lemma halt_owned:
  assumes own: "adapter_owns p R Rm (v, m)" and rep: "queue_rep (send_state v) q"
  shows "\<exists>v' Lm. VenetHalt H p (v, m) = Some (Inr (v', m\<lparr>m_live := Lm\<rparr>)) \<and> mset (v_live v') = R \<and> mset Lm = Rm
           \<and> v_list v' = remove1 p (v_list v)
           \<and> completed (v_io v') = completed (v_io v) @ take 1 q
           \<and> (\<forall>y\<in>set (tl q). nbl_status (v_nbls v' y) = nbl_status (v_nbls v y))"
proof -
  define v1 where "v1 = VenetDetach p (VenetSetSyncFlag VNET_ADAPTER_HALT_IN_PROGRESS v)"
  have "queue_rep (send_state v1) q"
    using rep by (simp add: v1_def VenetDetach_def VenetSetSyncFlag_def VENET_SET_FLAG_def)
  then obtain v2 where v2: "VenetFreeQueuedSend NDIS_STATUS_FAILURE v1 = Some (Inr v2)"
    "v_adapter v2 = (v_adapter v1)\<lparr>a_sendQueue := a_sendQueue (v_adapter v2)\<rparr>"
    "v_list v2 = v_list v1" "v_live v2 = v_live v1"
    "\<forall>y. y \<noteq> q_head (a_sendQueue (v_adapter v1)) \<longrightarrow> nbl_status (v_nbls v2 y) = nbl_status (v_nbls v1 y)"
    "v_io v2 = v_io v1 @ (if q = [] then [] else [Send_complete (hd q) False])"
    using free_queued_once [of v1 q NDIS_STATUS_FAILURE] by auto
  have v1_nbls: "v_nbls v1 = v_nbls v" by (simp add: v1_def VenetDetach_def VenetSetSyncFlag_def)
  have "q_head (a_sendQueue (v_adapter v1)) \<notin> set (tl q)"
    using rep by (cases q) (auto simp: v1_def VenetDetach_def VenetSetSyncFlag_def VENET_SET_FLAG_def queue_rep_def)
  then have stat: "\<forall>y\<in>set (tl q). nbl_status (v_nbls v2 y) = nbl_status (v_nbls v y)"
    using v2(5) by (metis v1_nbls)
  have ad: "a_vif (v_adapter v2) = a_vif (v_adapter v)" "a_bus_handle (v_adapter v2) = a_bus_handle (v_adapter v)"
    "a_tcbFree (v_adapter v2) = a_tcbFree (v_adapter v)" "a_tcbBusy (v_adapter v2) = a_tcbBusy (v_adapter v)"
    "a_rxHandle (v_adapter v2) = a_rxHandle (v_adapter v)" "a_txHandle (v_adapter v2) = a_txHandle (v_adapter v)"
    by (subst v2(2), simp add: v1_def VenetDetach_def VenetSetSyncFlag_def VENET_SET_FLAG_def)+
  have "adapter_owns p R Rm (v2, m)"
    using own v2(4) by (simp add: adapter_owns_def own_blocks_def handles_def ad v1_def VenetDetach_def VenetSetSyncFlag_def)
  from halt_free_owned [OF this]
  obtain v' Lm where "halt_free H p (v2, m) = Inr (v', m\<lparr>m_live := Lm\<rparr>)" "mset (v_live v') = R" "mset Lm = Rm"
    "v_list v' = v_list v2" "v_nbls v' = v_nbls v2" "completed (v_io v') = completed (v_io v2)" by blast
  moreover have "v_list v2 = remove1 p (v_list v)"
    by (simp add: v2(3) v1_def VenetDetach_def VenetSetSyncFlag_def)
  moreover have "p \<noteq> 0" using own by (simp add: adapter_owns_def)
  ultimately have "VenetHalt H p (v, m) = Some (Inr (v', m\<lparr>m_live := Lm\<rparr>))" and "v_list v' = remove1 p (v_list v)"
    using v2(1) by (simp_all add: VenetHalt_def v1_def [symmetric])
  moreover have "completed (v_io v') = completed (v_io v) @ take 1 q"
    using \<open>completed (v_io v') = completed (v_io v2)\<close> v2(6)
    by (cases q) (simp_all add: v1_def VenetDetach_def VenetSetSyncFlag_def)
  moreover have "\<forall>y\<in>set (tl q). nbl_status (v_nbls v' y) = nbl_status (v_nbls v y)"
    using stat by (simp add: \<open>v_nbls v' = v_nbls v2\<close>)
  ultimately show ?thesis using \<open>mset (v_live v') = R\<close> \<open>mset Lm = Rm\<close> by blast
qed

text \<open>Without the interface there is nothing to call: halting runs into a null function pointer.\<close>

lemma halt_without_vif:
  assumes "\<not> a_vif (v_adapter v)" and rep: "queue_rep (send_state v) q"
  shows "VenetHalt H p (v, m) = Some (Inl NullDeref)"
proof (cases "p = 0")
  case True
  then show ?thesis by (simp add: VenetHalt_def)
next
  case False
  define v1 where "v1 = VenetDetach p (VenetSetSyncFlag VNET_ADAPTER_HALT_IN_PROGRESS v)"
  have "queue_rep (send_state v1) q"
    using rep by (simp add: v1_def VenetDetach_def VenetSetSyncFlag_def VENET_SET_FLAG_def)
  then obtain v2 where v2: "VenetFreeQueuedSend NDIS_STATUS_FAILURE v1 = Some (Inr v2)"
    "v_adapter v2 = (v_adapter v1)\<lparr>a_sendQueue := a_sendQueue (v_adapter v2)\<rparr>"
    using free_queued_once [of v1 q NDIS_STATUS_FAILURE] by auto
  have "\<not> a_vif (v_adapter v2)"
    using assms(1) by (subst v2(2)) (simp add: v1_def VenetDetach_def VenetSetSyncFlag_def VENET_SET_FLAG_def)
  then show ?thesis
    using False v2(1) by (simp add: VenetHalt_def v1_def [symmetric] halt_free_def Let_def VenetFreeRx_def vif_destroy_def)
qed

section \<open>Initialization\<close>

text \<open>A step keeps an invariant whatever it reports, and establishes more if it succeeds.\<close>

definition step_spec :: "('s \<Rightarrow> bool) \<Rightarrow> ('s \<Rightarrow> bool) \<Rightarrow> (NDIS_STATUS \<times> 's) outcome \<Rightarrow> bool" where
  "step_spec I P r \<longleftrightarrow> (\<exists>rc s. r = Inr (rc, s) \<and> I s \<and> (rc = NDIS_STATUS_SUCCESS \<longrightarrow> P s))"

lemma then_step_spec:
  assumes "step_spec I P r" and "\<And>s. I s \<Longrightarrow> P s \<Longrightarrow> step_spec I Q (f s)"
  shows "step_spec I Q (then_step r f)"
proof -
  obtain rc s where r: "r = Inr (rc, s)" "I s" "rc = NDIS_STATUS_SUCCESS \<longrightarrow> P s"
    using assms(1) by (auto simp: step_spec_def)
  then show ?thesis
    using assms(2) [of s] by (cases "rc = NDIS_STATUS_SUCCESS") (simp_all add: step_spec_def then_step_def)
qed

lemma step_spec_Inr: "I s \<Longrightarrow> (rc = NDIS_STATUS_SUCCESS \<Longrightarrow> P s) \<Longrightarrow> step_spec I P (Inr (rc, s))"
  by (simp add: step_spec_def)

lemma open_live:
  assumes "VbusInterfaceOpen H i vr bh m = Inr (rc, bh', m')"
  shows "bh' = bh \<and> m_live m' = m_live m"
  using assms
proof (cases rule: open_cases)
  case (1 rc d m1)
  have a: "m_live m1 = m_live m" by (rule buscall_frame(4) [OF 1(1)])
  show ?thesis unfolding 1(3) 1(6) by (simp only: a)
next
  case (2 rc d m1 h)
  have a: "m_live m1 = m_live m" by (rule buscall_frame(4) [OF 2(1)])
  show ?thesis unfolding 2(3) 2(6) by (simp add: a pdo_set_def)
qed

text \<open>The allocator hands out addresses that are not in use.\<close>

definition pool_fresh :: "venet \<Rightarrow> bool" where
  "pool_fresh v \<longleftrightarrow> distinct (v_live v @ filter (\<lambda>p. p \<noteq> 0) (v_pool v))"

lemma alloc_fresh: "VenetAlloc v = (p, v1) \<Longrightarrow> pool_fresh v \<Longrightarrow> pool_fresh v1"
  by (cases "p = 0") (auto simp: VenetAlloc_def pool_fresh_def split: list.splits)

lemma alloc_tcbs_props:
  assumes "alloc_tcbs n v = (ok, v')"
  shows "\<exists>ts L T. v' = v\<lparr>v_adapter := (v_adapter v)\<lparr>a_tcbFree := ts @ a_tcbFree (v_adapter v)\<rparr>,
              v_live := ts @ v_live v, v_pool := L, v_tcbs := T\<rparr>
           \<and> 0 \<notin> set ts \<and> (ok \<longrightarrow> length ts = n) \<and> (pool_fresh v \<longrightarrow> pool_fresh v')"
  using assms
proof (induction n arbitrary: v)
  case 0
  then show ?case
    by - (rule exI [of _ "[]"], rule exI [of _ "v_pool v"], rule exI [of _ "v_tcbs v"],
        auto intro!: venet.equality)
next
  case (Suc n)
  obtain t v1 where al: "VenetAlloc v = (t, v1)" by fastforce
  then have v1: "v1 = v\<lparr>v_live := if t = 0 then v_live v else t # v_live v, v_pool := tl (v_pool v)\<rparr>"
    by (auto simp: VenetAlloc_def split: list.splits intro!: venet.equality)
  show ?case
  proof (cases "t = 0")
    case True
    then have "v' = v1" "\<not> ok" using Suc.prems al by simp_all
    then show ?thesis
      using v1 True alloc_fresh [OF al]
      by - (rule exI [of _ "[]"], rule exI [of _ "tl (v_pool v)"], rule exI [of _ "v_tcbs v"],
          auto intro!: venet.equality)
  next
    case False
    define v2 where "v2 = upd_adapter (\<lambda>a. a\<lparr>a_tcbFree := t # a_tcbFree a\<rparr>) (v1\<lparr>v_tcbs := (v_tcbs v1)(t := tcb_zero)\<rparr>)"
    have "alloc_tcbs n v2 = (ok, v')" using Suc.prems al False by (simp add: v2_def)
    from Suc.IH [OF this] obtain ts L T where ts: "v' = v2\<lparr>v_adapter := (v_adapter v2)\<lparr>a_tcbFree := ts @ a_tcbFree (v_adapter v2)\<rparr>,
        v_live := ts @ v_live v2, v_pool := L, v_tcbs := T\<rparr>"
      "0 \<notin> set ts" "ok \<longrightarrow> length ts = n" "pool_fresh v2 \<longrightarrow> pool_fresh v'" by blast
    have "pool_fresh v \<longrightarrow> pool_fresh v'"
      using ts(4) alloc_fresh [OF al] by (auto simp: v2_def pool_fresh_def)
    moreover have "v' = v\<lparr>v_adapter := (v_adapter v)\<lparr>a_tcbFree := (ts @ [t]) @ a_tcbFree (v_adapter v)\<rparr>,
        v_live := (ts @ [t]) @ v_live v, v_pool := L, v_tcbs := T\<rparr>"
      unfolding ts(1) by (rule venet.equality) (simp_all add: v2_def v1 False)
    ultimately show ?thesis using ts(2,3) False by (intro exI [of _ "ts @ [t]"] exI [of _ L] exI [of _ T]) simp
  qed
qed

text \<open>What holds between the steps, what the next steps need, and what the last one leaves.\<close>

definition init_inv :: "UINT64 \<Rightarrow> UINT64 multiset \<Rightarrow> UINT64 multiset \<Rightarrow> UINT64 list \<Rightarrow> sys \<Rightarrow> bool" where
  "init_inv p R Rm L = (\<lambda>(v, m).
     adapter_owns p R Rm (v, m) \<and> queue_rep (send_state v) [] \<and> v_list v = L
   \<and> a_state (v_adapter v) = VNET_DISCONNECTED \<and> a_tcbBusy (v_adapter v) = []
   \<and> a_sendingNBL (v_adapter v) = 0 \<and> a_sendEvent (v_adapter v) \<and> a_numTcbs (v_adapter v) = 20
   \<and> arrays_ok (v_adapter v))"

definition no_handles :: "sys \<Rightarrow> bool" where
  "no_handles = (\<lambda>(v, m). pool_fresh v \<and> a_tcbFree (v_adapter v) = [] \<and> a_txHandle (v_adapter v) = 0
     \<and> a_rxHandle (v_adapter v) = 0)"

definition no_tx :: "sys \<Rightarrow> bool" where
  "no_tx = (\<lambda>(v, m). pool_fresh v \<and> a_tcbFree (v_adapter v) = [] \<and> a_txHandle (v_adapter v) = 0)"

definition tx_ready :: "sys \<Rightarrow> bool" where
  "tx_ready = (\<lambda>(v, m). length (a_tcbFree (v_adapter v)) = 20 \<and> a_numTCBsFree (v_adapter v) = 20
     \<and> distinct (a_tcbFree (v_adapter v)))"

lemmas init_defs = init_inv_def no_handles_def no_tx_def tx_ready_def adapter_owns_def own_blocks_def handles_def arrays_ok_def

lemma vif_create_cases:
  assumes "a_vif (v_adapter v)"
  obtains h m1 where "vif_create n ty p f (v, m) = Inr (h, v, m1)"
    and "mset (m_live m1) = block h + mset (m_live m)"
proof -
  obtain h i m1 where c: "VbusInterfaceCreate (a_bus_handle (v_adapter v)) n p ty f m = (h, i, m1)"
    by (cases "VbusInterfaceCreate (a_bus_handle (v_adapter v)) n p ty f m") auto
  then have "mset (m_live m1) = block h + mset (m_live m)"
    using vifq.alloc_live [of "a_bus_handle (v_adapter v)" n p ty f m h m1] by (simp add: block_def)
  then show thesis using that assms c by (simp add: vif_create_def)
qed

lemma setup_rx_spec:
  assumes "init_inv p R Rm L s" and "no_handles s"
  shows "step_spec (init_inv p R Rm L) no_tx (VenetSetupRx E p s)"
proof -
  obtain v m where s: "s = (v, m)" by fastforce
  have vif: "a_vif (v_adapter v)" using assms(1) by (simp add: s init_defs)
  obtain h m1 where c: "vif_create 512 VBUS_IOQ_RECV p (rx_handler E) (v, m) = Inr (h, v, m1)"
    and ml: "mset (m_live m1) = block h + mset (m_live m)" by (rule vif_create_cases [OF vif])
  show ?thesis
  proof (cases "h = 0")
    case True
    let ?v = "upd_adapter (\<lambda>a. a\<lparr>a_rxHandle := 0\<rparr>) v"
    have "VenetFreeRx (?v, m1) = Inr (?v, m1)"
      using vif by (simp add: VenetFreeRx_def vif_destroy_def VbusInterfaceDestroy_def)
    then have run: "VenetSetupRx E p s = Inr (NDIS_STATUS_FAILURE, ?v, m1)"
      using True by (simp add: s VenetSetupRx_def c)
    show ?thesis
      unfolding run
      by (rule step_spec_Inr) (use assms ml True in \<open>simp_all add: s init_defs block_def\<close>)
  next
    case False
    then have run: "VenetSetupRx E p s = Inr (NDIS_STATUS_SUCCESS, upd_adapter (\<lambda>a. a\<lparr>a_rxHandle := h\<rparr>) v, m1)"
      by (simp add: s VenetSetupRx_def c)
    show ?thesis
      unfolding run
      by (rule step_spec_Inr) (use assms ml False in \<open>simp_all add: s init_defs block_def pool_fresh_def\<close>)
  qed
qed

lemma setup_tx_spec:
  assumes I: "init_inv p R Rm L s" and P: "no_tx s"
  shows "step_spec (init_inv p R Rm L) tx_ready (VenetSetupTx E p s)"
proof -
  obtain v m where s: "s = (v, m)" by fastforce
  obtain ok v1 where al: "alloc_tcbs 20 v = (ok, v1)" by fastforce
  obtain ts Lp T where v1: "v1 = v\<lparr>v_adapter := (v_adapter v)\<lparr>a_tcbFree := ts @ a_tcbFree (v_adapter v)\<rparr>,
      v_live := ts @ v_live v, v_pool := Lp, v_tcbs := T\<rparr>"
    and ts: "0 \<notin> set ts" "ok \<longrightarrow> length ts = 20" "pool_fresh v \<longrightarrow> pool_fresh v1"
    using alloc_tcbs_props [OF al] by blast
  have free: "a_tcbFree (v_adapter v) = []" and fresh: "pool_fresh v" using P by (simp_all add: s no_tx_def)
  have dist: "distinct ts" using ts(3) fresh by (simp add: v1 pool_fresh_def)
  have I1: "init_inv p R Rm L (v1, m)" and tx0: "a_txHandle (v_adapter v1) = 0"
    using I P ts(1) by (simp_all add: s v1 init_defs)
  have n: "unat (a_numTcbs (v_adapter v)) = 20" using I by (simp add: s init_inv_def)
  show ?thesis
  proof (cases ok)
    case False
    then have run: "VenetSetupTx E p s = Inr (STATUS_NO_MEMORY, v1, m)"
      by (simp add: s VenetSetupTx_def n al)
    show ?thesis unfolding run by (rule step_spec_Inr) (simp_all add: I1)
  next
    case True
    define v2 where "v2 = upd_adapter (\<lambda>a. a\<lparr>a_numTCBsFree := a_numTcbs a\<rparr>) v1"
    have "a_vif (v_adapter v2)" using I1 by (simp add: v2_def init_defs)
    then obtain h m1 where c: "vif_create 512 VBUS_IOQ_SEND p (tx_handler E) (v2, m) = Inr (h, v2, m1)"
      and ml: "mset (m_live m1) = block h + mset (m_live m)" by (rule vif_create_cases)
    define v3 where "v3 = upd_adapter (\<lambda>a. a\<lparr>a_txHandle := h\<rparr>) v2"
    have I3: "init_inv p R Rm L (v3, m1)"
      using I1 ml tx0 by (simp add: v3_def v2_def init_defs block_def[of 0])
    have T3: "tx_ready (v3, m1)"
      using I1 ts(2) dist True free by (simp add: v3_def v2_def v1 init_defs)
    show ?thesis
    proof (cases "h = 0")
      case False
      then have run: "VenetSetupTx E p s = Inr (NDIS_STATUS_SUCCESS, v3, m1)"
        using True by (simp add: s VenetSetupTx_def n al v2_def [symmetric] c v3_def Let_def)
      show ?thesis unfolding run by (rule step_spec_Inr) (simp_all add: I3 T3)
    next
      case True
      have "mset (v_live v3) = mset (a_tcbFree (v_adapter v3)) + mset (a_tcbBusy (v_adapter v3)) + add_mset p R"
        "mset (m_live m1) = block (a_txHandle (v_adapter v3)) + (block (a_rxHandle (v_adapter v3)) + Rm)"
        "a_vif (v_adapter v3)" "0 \<notin> set (a_tcbFree (v_adapter v3)) \<union> set (a_tcbBusy (v_adapter v3))"
        using I3 by (simp_all add: init_defs)
      from free_tx_mset [OF this(3,4,1,2)] obtain Lv Lm where F: "VenetFreeTx (v3, m1) =
          Inr (v3\<lparr>v_live := Lv, v_adapter := (v_adapter v3)\<lparr>a_tcbFree := [], a_tcbBusy := [], a_txHandle := 0\<rparr>\<rparr>,
               m1\<lparr>m_live := Lm\<rparr>)" "mset Lv = add_mset p R" "mset Lm = block (a_rxHandle (v_adapter v3)) + Rm"
        by blast
      define v4 where "v4 = v3\<lparr>v_live := Lv, v_adapter := (v_adapter v3)\<lparr>a_tcbFree := [], a_tcbBusy := [], a_txHandle := 0\<rparr>\<rparr>"
      have run: "VenetSetupTx E p s = Inr (NDIS_STATUS_FAILURE, v4, m1\<lparr>m_live := Lm\<rparr>)"
        using \<open>ok\<close> True F(1)
        by (simp add: s VenetSetupTx_def n al v2_def [symmetric] c v4_def) (simp add: v3_def)
      have "init_inv p R Rm L (v4, m1\<lparr>m_live := Lm\<rparr>)"
        using I3 F(2,3) by (simp add: v4_def init_defs block_def [of 0])
      then show ?thesis unfolding run by (intro step_spec_Inr) simp_all
    qed
  qed
qed

lemma on_venet_spec:
  assumes "\<And>v m. I (v, m) \<Longrightarrow> P (v, m) \<Longrightarrow> I (snd (f v), m) \<and> Q (snd (f v), m)" and "I s" and "P s"
  shows "step_spec I Q (on_venet f s)"
proof -
  obtain v m where s: "s = (v, m)" by fastforce
  obtain rc v1 where f: "f v = (rc, v1)" by fastforce
  then show ?thesis using assms(1) [of v m] assms(2,3) by (simp add: s on_venet_def step_spec_def)
qed

definition mac_set :: "sys \<Rightarrow> bool" where
  "mac_set = (\<lambda>(v, m). tx_ready (v, m) \<and> a_permAddress (v_adapter v) = [0xde, 0xad, 0xbe, 0xef, 0x02, 0x07]
     \<and> a_currAddress (v_adapter v) = [0xde, 0xad, 0xbe, 0xef, 0x02, 0x07])"

lemma attributes_spec:
  assumes "init_inv p R Rm L s" and "tx_ready s"
  shows "step_spec (init_inv p R Rm L) mac_set
     (then_step (on_venet VenetGetMacAddress s) (\<lambda>s5.
      then_step (on_venet VenetRegistryParams s5) (\<lambda>s6.
      then_step (on_venet (VenetSetRegistrationAttributes E p) s6)
        (on_venet (VenetSetGeneralAttributes E)))))"
proof (intro then_step_spec)
  show "step_spec (init_inv p R Rm L) mac_set (on_venet VenetGetMacAddress s)"
    by (rule on_venet_spec [where I = "init_inv p R Rm L" and P = tx_ready, OF _ assms])
      (simp add: VenetGetMacAddress_def init_defs mac_set_def ETH_LENGTH_OF_ADDRESS_def Let_def)
  fix s5 assume s5: "init_inv p R Rm L s5" "mac_set s5"
  show "step_spec (init_inv p R Rm L) mac_set (on_venet VenetRegistryParams s5)"
    by (rule on_venet_spec [where I = "init_inv p R Rm L" and P = mac_set, OF _ s5]) (simp add: VenetRegistryParams_def)
  fix s6 assume s6: "init_inv p R Rm L s6" "mac_set s6"
  show "step_spec (init_inv p R Rm L) mac_set (on_venet (VenetSetRegistrationAttributes E p) s6)"
    by (rule on_venet_spec [where I = "init_inv p R Rm L" and P = mac_set, OF _ s6]) (simp add: VenetSetRegistrationAttributes_def init_defs mac_set_def Let_def)
  fix s7 assume s7: "init_inv p R Rm L s7" "mac_set s7"
  show "step_spec (init_inv p R Rm L) mac_set (on_venet (VenetSetGeneralAttributes E) s7)"
    by (rule on_venet_spec [where I = "init_inv p R Rm L" and P = mac_set, OF _ s7]) (simp add: VenetSetGeneralAttributes_def init_defs mac_set_def Let_def)
qed

text \<open>The state in which the steps start: a zeroed adapter, its memory, and its place in the list.\<close>

definition fresh_adapter :: "UINT64 \<Rightarrow> UINT64 \<Rightarrow> UINT64 multiset \<Rightarrow> UINT64 list \<Rightarrow> venet \<Rightarrow> bool" where
  "fresh_adapter handle p R L v \<longleftrightarrow>
     p \<noteq> 0 \<and> v_adapter v = adapter_zero\<lparr>a_adapterHandle := handle\<rparr> \<and> mset (v_live v) = add_mset p R
   \<and> v_list v = L \<and> pool_fresh v"

text \<open>The timers and the framework answer with success.\<close>

definition env_ok :: "ndis_env \<Rightarrow> bool" where
  "env_ok E \<longleftrightarrow> fst (new_timer E Reset_timer) = NDIS_STATUS_SUCCESS \<and> fst (new_timer E Receive_timer) = NDIS_STATUS_SUCCESS
     \<and> NT_SUCCESS (miniport_create E) \<and> NT_SUCCESS (query_interface E)"

lemma get_interface_spec:
  assumes fresh: "fresh_adapter handle p R L v" and env: "env_ok E"
    and opened: "VbusInterfaceOpen H (child E) VENET_VERSION 0 m = Inr (orc, bh, m1)"
  shows "\<exists>v1. on_venet (VenetSetupAdapter E) (v, m) = Inr (NDIS_STATUS_SUCCESS, v1, m)
       \<and> step_spec (init_inv p R (mset (m_live m)) L) no_handles (VenetGetInterface H E (v1, m))"
proof -
  obtain h h2 where t: "new_timer E Reset_timer = (0, h)" "new_timer E Receive_timer = (0, h2)"
    using env by (metis env_ok_def prod.collapse)
  obtain v1 where v1: "VenetSetupAdapter E v = (NDIS_STATUS_SUCCESS, v1)"
    and f: "v_live v1 = v_live v" "v_list v1 = v_list v" "v_pool v1 = v_pool v"
    and a: "a_vif (v_adapter v1) = False" "a_bus_handle (v_adapter v1) = 0" "a_tcbFree (v_adapter v1) = []"
      "a_tcbBusy (v_adapter v1) = []" "a_state (v_adapter v1) = VNET_DISCONNECTED" "a_sendingNBL (v_adapter v1) = 0"
      "a_sendEvent (v_adapter v1)" "a_numTcbs (v_adapter v1) = 20" "a_rxHandle (v_adapter v1) = 0"
      "a_txHandle (v_adapter v1) = 0" "a_sendQueue (v_adapter v1) = QueueInit" "arrays_ok (v_adapter v1)"
    using fresh
    by (simp add: VenetSetupAdapter_def t fresh_adapter_def Let_def adapter_zero_def VENET_SET_FLAG_def
        NIC_MAX_BUSY_SENDS_def arrays_ok_def)
  have o: "bh = 0" "m_live m1 = m_live m" using open_live [OF opened] by simp_all
  have run: "VenetGetInterface H E (v1, m) = Inr (if orc \<noteq> 0 then NDIS_STATUS_FAILURE else NDIS_STATUS_SUCCESS,
      upd_adapter (\<lambda>a. a\<lparr>a_vif := True, a_bus_handle := 0\<rparr>) v1, m1)"
    using env opened o(1) by (simp add: VenetGetInterface_def env_ok_def a Let_def)
  have I: "init_inv p R (mset (m_live m)) L (upd_adapter (\<lambda>a. a\<lparr>a_vif := True, a_bus_handle := 0\<rparr>) v1, m1)"
    using fresh f a o(2)
    by (simp add: init_defs fresh_adapter_def queue_rep_empty block_def)
  have N: "no_handles (upd_adapter (\<lambda>a. a\<lparr>a_vif := True, a_bus_handle := 0\<rparr>) v1, m1)"
    using fresh f a by (simp add: no_handles_def fresh_adapter_def pool_fresh_def)
  have "step_spec (init_inv p R (mset (m_live m)) L) no_handles (VenetGetInterface H E (v1, m))"
    unfolding run by (rule step_spec_Inr) (rule I, rule N)
  moreover have "on_venet (VenetSetupAdapter E) (v, m) = Inr (NDIS_STATUS_SUCCESS, v1, m)"
    using v1 by (simp add: on_venet_def)
  ultimately show ?thesis by blast
qed

lemma init_steps_spec:
  assumes "fresh_adapter handle p R L v" and "env_ok E"
    and "VbusInterfaceOpen H (child E) VENET_VERSION 0 m = Inr (orc, bh, m1)"
  shows "step_spec (init_inv p R (mset (m_live m)) L) mac_set (init_steps H E p (v, m))"
proof -
  obtain v1 where v1: "on_venet (VenetSetupAdapter E) (v, m) = Inr (NDIS_STATUS_SUCCESS, v1, m)"
    and spec: "step_spec (init_inv p R (mset (m_live m)) L) no_handles (VenetGetInterface H E (v1, m))"
    using get_interface_spec [OF assms] by blast
  have "init_steps H E p (v, m) =
     then_step (VenetGetInterface H E (v1, m)) (\<lambda>s2.
     then_step (VenetSetupRx E p s2) (\<lambda>s3.
     then_step (VenetSetupTx E p s3) (\<lambda>s4.
     then_step (on_venet VenetGetMacAddress s4) (\<lambda>s5.
     then_step (on_venet VenetRegistryParams s5) (\<lambda>s6.
     then_step (on_venet (VenetSetRegistrationAttributes E p) s6)
       (on_venet (VenetSetGeneralAttributes E)))))))"
    by (simp add: init_steps_def v1 then_step_def [of "Inr _"])
  then show ?thesis
    by (simp only:) (intro then_step_spec [OF spec] then_step_spec [OF setup_rx_spec] then_step_spec [OF setup_tx_spec]
        attributes_spec; assumption)
qed

text \<open>A failure before the interface is there: the adapter is attached, but its function pointers are null.\<close>

lemma init_steps_no_vif:
  assumes fresh: "fresh_adapter handle p R L v" and env: "\<not> env_ok E"
  shows "\<exists>rc v1. init_steps H E p (v, m) = Inr (rc, v1, m) \<and> rc \<noteq> NDIS_STATUS_SUCCESS
       \<and> \<not> a_vif (v_adapter v1) \<and> queue_rep (send_state v1) []"
proof -
  have q: "queue_rep (QueueInit, M) []" for M by (rule queue_rep_empty)
  obtain rc v1 where A: "VenetSetupAdapter E v = (rc, v1)" by fastforce
  have v1: "\<not> a_vif (v_adapter v1)" "a_sendQueue (v_adapter v1) = QueueInit"
    using A fresh
    by (auto simp: VenetSetupAdapter_def Let_def fresh_adapter_def adapter_zero_def VENET_SET_FLAG_def
        split: prod.splits if_splits)
  show ?thesis
  proof (cases "rc = NDIS_STATUS_SUCCESS")
    case False
    then show ?thesis
      using v1 q by (simp add: init_steps_def on_venet_def A then_step_def)
  next
    case True
    then have "\<not> (NT_SUCCESS (miniport_create E) \<and> NT_SUCCESS (query_interface E))"
      using env A by (auto simp: env_ok_def VenetSetupAdapter_def Let_def split: prod.splits if_splits)
    then have "VenetGetInterface H E (v1, m) = Inr (NDIS_STATUS_FAILURE, v1, m)"
      by (auto simp: VenetGetInterface_def)
    then show ?thesis
      using True v1 q by (simp add: init_steps_def on_venet_def A then_step_def)
  qed
qed

text \<open>The state of an adapter that NDIS may use.\<close>

definition adapter_ready :: "venet \<Rightarrow> bool" where
  "adapter_ready v \<longleftrightarrow>
     \<not> VENET_IS_NOT_READY (v_adapter v) \<and> tcb_ok (v_adapter v) \<and> arrays_ok (v_adapter v)
   \<and> length (a_tcbFree (v_adapter v)) = NIC_MAX_BUSY_SENDS \<and> a_tcbBusy (v_adapter v) = []
   \<and> a_sendingNBL (v_adapter v) = 0 \<and> queue_rep (send_state v) []"

lemma clear_disconnected_ready:
  assumes I: "init_inv p R Rm L (v, m)" and M: "mac_set (v, m)"
  shows "adapter_ready (upd_adapter (\<lambda>a. VENET_CLEAR_FLAG a VNET_DISCONNECTED) v)"
    and "adapter_owns p R Rm (upd_adapter (\<lambda>a. VENET_CLEAR_FLAG a VNET_DISCONNECTED) v, m)"
  using assms
  by (auto simp: adapter_ready_def mac_set_def init_defs VENET_CLEAR_FLAG_def VENET_IS_NOT_READY_def tcb_ok_def
      NIC_MAX_BUSY_SENDS_def VNET_DISCONNECTED_def)

lemma initialize_clean:
  assumes "VenetAlloc v = (p, v1)" and "p \<noteq> 0" and "pool_fresh v" and "p \<notin> set (v_list v)" and "env_ok E"
    and "VbusInterfaceOpen H (child E) VENET_VERSION 0 m = Inr (orc, bh, m1)"
  shows "\<exists>rc v' m'. VenetInitialize H E handle (v, m) = Some (Inr (rc, v', m'))
       \<and> (if rc = NDIS_STATUS_SUCCESS
          then adapter_ready v' \<and> v_list v' = v_list v @ [p] \<and> adapter_owns p (mset (v_live v)) (mset (m_live m)) (v', m')
          else mset (v_live v') = mset (v_live v) \<and> mset (m_live m') = mset (m_live m) \<and> v_list v' = v_list v)"
proof -
  let ?v2 = "VenetAttach p (v1\<lparr>v_adapter := adapter_zero\<lparr>a_adapterHandle := handle\<rparr>\<rparr>)"
  have v1: "v_live v1 = p # v_live v" "v_list v1 = v_list v" "pool_fresh v1"
    using assms(1,2) alloc_fresh [OF assms(1,3)] by (auto simp: VenetAlloc_def split: list.splits)
  have "fresh_adapter handle p (mset (v_live v)) (v_list v @ [p]) ?v2"
    using assms(2) v1 by (simp add: fresh_adapter_def VenetAttach_def pool_fresh_def)
  from init_steps_spec [OF this assms(5,6)] obtain rc v3 m3
    where run: "init_steps H E p (?v2, m) = Inr (rc, v3, m3)"
      and I: "init_inv p (mset (v_live v)) (mset (m_live m)) (v_list v @ [p]) (v3, m3)"
      and M: "rc = NDIS_STATUS_SUCCESS \<longrightarrow> mac_set (v3, m3)"
    by (auto simp: step_spec_def)
  have own: "adapter_owns p (mset (v_live v)) (mset (m_live m)) (v3, m3)" "queue_rep (send_state v3) []"
    "v_list v3 = v_list v @ [p]"
    using I by (simp_all add: init_inv_def)
  show ?thesis
  proof (cases "rc = NDIS_STATUS_SUCCESS")
    case True
    then have "VenetInitialize H E handle (v, m) = Some (Inr (NDIS_STATUS_SUCCESS,
        upd_adapter (\<lambda>a. VENET_CLEAR_FLAG a VNET_DISCONNECTED) v3, m3))"
      using assms(1,2) run by (simp add: VenetInitialize_def)
    then show ?thesis
      using clear_disconnected_ready [OF I] M True own(3) by auto
  next
    case False
    obtain v' Lm where "VenetHalt H p (v3, m3) = Some (Inr (v', m3\<lparr>m_live := Lm\<rparr>))" "mset (v_live v') = mset (v_live v)"
      "mset Lm = mset (m_live m)" "v_list v' = remove1 p (v_list v3)"
      using halt_owned [OF own(1,2)] by blast
    moreover from this have "VenetInitialize H E handle (v, m) = Some (Inr (rc, v', m3\<lparr>m_live := Lm\<rparr>))"
      using assms(1,2) run False by (simp add: VenetInitialize_def)
    ultimately show ?thesis
      using False own(3) assms(4) by (simp add: remove1_append)
  qed
qed

text \<open>With memory for everything and success from NDIS, the steps succeed.\<close>

lemma alloc_tcbs_succeeds:
  "n \<le> length (v_pool v) \<Longrightarrow> 0 \<notin> set (take n (v_pool v)) \<Longrightarrow> \<exists>v'. alloc_tcbs n v = (True, v')"
proof (induction n arbitrary: v)
  case (Suc n)
  then obtain t ts where "v_pool v = t # ts" by (cases "v_pool v") auto
  then show ?case using Suc by (simp add: VenetAlloc_def)
qed simp

definition enough_memory :: "venet \<Rightarrow> machine \<Rightarrow> bool" where
  "enough_memory v m \<longleftrightarrow>
     21 \<le> length (v_pool v) \<and> 0 \<notin> set (take 21 (v_pool v)) \<and> 2 \<le> length (m_pool m) \<and> 0 \<notin> set (take 2 (m_pool m))"

lemma setup_adapter_pool:
  assumes "VenetSetupAdapter E v = (rc, v1)"
  shows "v_pool v1 = v_pool v"
  using assms by (auto simp: VenetSetupAdapter_def Let_def split: prod.splits if_splits)

lemma init_steps_succeed:
  assumes fresh: "fresh_adapter handle p R L v" and env: "env_ok E"
    and opened: "VbusInterfaceOpen H (child E) VENET_VERSION 0 m = Inr (0, bh, m1)"
    and mem: "20 \<le> length (v_pool v)" "0 \<notin> set (take 20 (v_pool v))" and bus: "m_pool m1 = h1 # h2 # hs" "h1 \<noteq> 0" "h2 \<noteq> 0"
    and attr: "\<And>r. registration_status E r = NDIS_STATUS_SUCCESS" "\<And>g. general_status E g = NDIS_STATUS_SUCCESS"
  shows "\<exists>s. init_steps H E p (v, m) = Inr (NDIS_STATUS_SUCCESS, s)"
proof -
  obtain v1 where A: "VenetSetupAdapter E v = (NDIS_STATUS_SUCCESS, v1)"
    and spec: "step_spec (init_inv p R (mset (m_live m)) L) no_handles (VenetGetInterface H E (v1, m))"
    using get_interface_spec [OF assms(1-3)] by (auto simp: on_venet_def split: prod.splits)
  have bh: "a_bus_handle (v_adapter v1) = 0"
    using A fresh by (auto simp: VenetSetupAdapter_def Let_def fresh_adapter_def adapter_zero_def VENET_SET_FLAG_def split: prod.splits if_splits)
  define v2 where "v2 = upd_adapter (\<lambda>a. a\<lparr>a_vif := True, a_bus_handle := bh\<rparr>) v1"
  have G: "VenetGetInterface H E (v1, m) = Inr (NDIS_STATUS_SUCCESS, v2, m1)"
    using env opened bh by (simp add: VenetGetInterface_def env_ok_def Let_def v2_def)
  have I: "init_inv p R (mset (m_live m)) L (v2, m1)" using spec by (simp add: G step_spec_def)
  define v3 where "v3 = upd_adapter (\<lambda>a. a\<lparr>a_rxHandle := h1\<rparr>) v2"
  define m2 where "m2 = m1\<lparr>m_pool := h2 # hs, m_live := h1 # m_live m1\<rparr>"
  have R: "VenetSetupRx E p (v2, m1) = Inr (NDIS_STATUS_SUCCESS, v3, m2)"
    using bus by (simp add: VenetSetupRx_def vif_create_def VbusInterfaceCreate_def VbusAlloc_def v3_def m2_def v2_def Let_def)
  have n: "a_numTcbs (v_adapter v3) = 20" using I by (simp add: v3_def init_inv_def)
  have "v_pool v3 = v_pool v" using setup_adapter_pool [OF A] by (simp add: v3_def v2_def)
  then obtain v4 where al: "alloc_tcbs 20 v3 = (True, v4)" using alloc_tcbs_succeeds [of 20 v3] mem by auto
  then have "a_vif (v_adapter v4)" using alloc_tcbs_props [OF al] by (auto simp: v3_def v2_def)
  then have "\<exists>s. VenetSetupTx E p (v3, m2) = Inr (NDIS_STATUS_SUCCESS, s)"
    using bus n al by (simp add: VenetSetupTx_def vif_create_def VbusInterfaceCreate_def VbusAlloc_def m2_def Let_def)
  then obtain v5 m5 where T: "VenetSetupTx E p (v3, m2) = Inr (NDIS_STATUS_SUCCESS, v5, m5)" by auto
  show ?thesis
    using A G R T attr
    by (simp add: init_steps_def then_step_def on_venet_def VenetGetMacAddress_def VenetRegistryParams_def
        VenetSetRegistrationAttributes_def VenetSetGeneralAttributes_def Let_def)
qed

lemma initialize_succeeds:
  assumes "pool_fresh v" and "env_ok E" and "enough_memory v m"
    and "VbusInterfaceOpen H (child E) VENET_VERSION 0 m = Inr (0, bh, m1)" and "m_pool m1 = m_pool m"
    and "\<And>r. registration_status E r = NDIS_STATUS_SUCCESS" and "\<And>g. general_status E g = NDIS_STATUS_SUCCESS"
  shows "\<exists>v' m'. VenetInitialize H E handle (v, m) = Some (Inr (NDIS_STATUS_SUCCESS, v', m'))"
proof -
  obtain p ps where pool: "v_pool v = p # ps" "p \<noteq> 0" "20 \<le> length ps" "0 \<notin> set (take 20 ps)"
    using assms(3) by (cases "v_pool v") (auto simp: enough_memory_def)
  obtain h1 h2 hs where bus: "m_pool m1 = h1 # h2 # hs" "h1 \<noteq> 0" "h2 \<noteq> 0"
    using assms(3,5) by (cases "m_pool m"; cases "tl (m_pool m)") (auto simp: enough_memory_def)
  define v1 where "v1 = v\<lparr>v_pool := ps, v_live := p # v_live v\<rparr>"
  have al: "VenetAlloc v = (p, v1)" using pool by (simp add: VenetAlloc_def v1_def)
  let ?v2 = "VenetAttach p (v1\<lparr>v_adapter := adapter_zero\<lparr>a_adapterHandle := handle\<rparr>\<rparr>)"
  have "fresh_adapter handle p (mset (v_live v)) (v_list v @ [p]) ?v2"
    using pool alloc_fresh [OF al assms(1)] by (simp add: fresh_adapter_def VenetAttach_def pool_fresh_def v1_def)
  from init_steps_succeed [OF this assms(2,4) _ _ bus assms(6,7)]
  obtain v3 m3 where "init_steps H E p (?v2, m) = Inr (NDIS_STATUS_SUCCESS, v3, m3)"
    using pool by (auto simp: VenetAttach_def v1_def)
  then show ?thesis using al pool(2) by (simp add: VenetInitialize_def)
qed

text \<open>Without memory, timers, the framework device or the interface, initialization runs into a null pointer.\<close>

lemma initialize_null_deref:
  assumes "VenetAlloc v = (p, v1)" and "p = 0 \<or> pool_fresh v \<and> \<not> env_ok E"
  shows "VenetInitialize H E handle (v, m) = Some (Inl NullDeref)"
proof (cases "p = 0")
  case True
  then show ?thesis using assms(1) by (simp add: VenetInitialize_def VenetHalt_def)
next
  case False
  let ?v2 = "VenetAttach p (v1\<lparr>v_adapter := adapter_zero\<lparr>a_adapterHandle := handle\<rparr>\<rparr>)"
  have "pool_fresh v" "\<not> env_ok E" using assms(2) False by auto
  then have "v_live v1 = p # v_live v" "pool_fresh v1"
    using assms(1) False alloc_fresh [OF assms(1)] by (auto simp: VenetAlloc_def split: list.splits)
  then have "fresh_adapter handle p (mset (v_live v)) (v_list v1 @ [p]) ?v2"
    using False by (simp add: fresh_adapter_def VenetAttach_def pool_fresh_def)
  from init_steps_no_vif [OF this \<open>\<not> env_ok E\<close>] obtain rc v3 where "init_steps H E p (?v2, m) = Inr (rc, v3, m)"
    "rc \<noteq> NDIS_STATUS_SUCCESS" "\<not> a_vif (v_adapter v3)" "queue_rep (send_state v3) []" by blast
  then show ?thesis
    using assms(1) False halt_without_vif [of v3 "[]" H p m] by (simp add: VenetInitialize_def)
qed

text \<open>An initialization that returns has opened the device.\<close>

lemma initialize_opened:
  assumes al: "VenetAlloc v = (p, v1)" "p \<noteq> 0" and env: "env_ok E"
    and run: "VenetInitialize H E handle (v, m) = Some (Inr x)"
  shows "\<exists>orc bh m1. VbusInterfaceOpen H (child E) VENET_VERSION 0 m = Inr (orc, bh, m1)"
proof (cases "VbusInterfaceOpen H (child E) VENET_VERSION 0 m")
  case (Inl e)
  let ?v2 = "VenetAttach p (v1\<lparr>v_adapter := adapter_zero\<lparr>a_adapterHandle := handle\<rparr>\<rparr>)"
  obtain h h2 where t: "new_timer E Reset_timer = (0, h)" "new_timer E Receive_timer = (0, h2)"
    using env by (metis env_ok_def prod.collapse)
  obtain v3 where A: "VenetSetupAdapter E ?v2 = (NDIS_STATUS_SUCCESS, v3)" and bh: "a_bus_handle (v_adapter v3) = 0"
    by (simp add: VenetSetupAdapter_def t Let_def VenetAttach_def adapter_zero_def VENET_SET_FLAG_def)
  have "VenetGetInterface H E (v3, m) = Inl e"
    using env Inl bh by (simp add: VenetGetInterface_def env_ok_def Let_def)
  then have "init_steps H E p (?v2, m) = Inl e"
    using A by (simp add: init_steps_def on_venet_def then_step_def)
  then show ?thesis using run al by (simp add: VenetInitialize_def)
next
  case (Inr y)
  then show ?thesis by (metis prod_cases3)
qed

section \<open>Properties of initialization and halt\<close>


text \<open>Claim C40. The early failures of \<open>VenetInitialize\<close> crash instead of returning: without memory for the adapter it halts
  the null pointer, and when a timer, the framework device or the query for the interface fails, halting calls a null function pointer.\<close>

theorem initialize_faults:
  assumes "VenetAlloc v = (p, v1)" and "p = 0 \<or> pool_fresh v \<and> \<not> env_ok E"
  shows "VenetInitialize H E handle (v, m) = Some (Inl NullDeref)"
  by (rule initialize_null_deref [OF assms])

text \<open>Claim C16. Halting an adapter gives back every control block, free or busy, the adapter, and the queue handles of the
  bus, once each, and takes the adapter off the list; but the device of the bus is never closed (the log of the bus driver does not change), and of
  the lists still queued all but the first are dropped without a status or a completion.\<close>

theorem halt_frees_but_drops_sends:
  assumes "adapter_owns p R Rm (v, m)" and "queue_rep (send_state v) q"
  shows "\<exists>v' m'. VenetHalt H p (v, m) = Some (Inr (v', m')) \<and> mset (v_live v') = R \<and> mset (m_live m') = Rm
       \<and> v_list v' = remove1 p (v_list v) \<and> m_io m' = m_io m
       \<and> completed (v_io v') = completed (v_io v) @ take 1 q
       \<and> (\<forall>y\<in>set (tl q). nbl_status (v_nbls v' y) = nbl_status (v_nbls v y))"
proof -
  obtain v' Lm where "VenetHalt H p (v, m) = Some (Inr (v', m\<lparr>m_live := Lm\<rparr>))" "mset (v_live v') = R" "mset Lm = Rm"
    "v_list v' = remove1 p (v_list v)" "completed (v_io v') = completed (v_io v) @ take 1 q"
    "\<forall>y\<in>set (tl q). nbl_status (v_nbls v' y) = nbl_status (v_nbls v y)"
    using halt_owned [OF assms] by blast
  then show ?thesis by (intro exI [of _ v'] exI [of _ "m\<lparr>m_live := Lm\<rparr>"]) simp
qed

text \<open>
  The general attributes carry the addresses of the adapter, but the length stated for the table of
  identifiers is the size of one element: NDIS reads the first of thirty-one. The filters leave out the
  promiscuous mode that \<open>set_pkt_filter\<close> accepts.
\<close>

lemma general_attributes_one_oid:
  assumes "arrays_ok a"
  shows "ga_permanent (general_attr a) = a_permAddress a" and "ga_current (general_attr a) = a_currAddress a"
    and "take (unat (ga_oids_length (general_attr a)) div sizeof_oid) VenetSupportedOids = [OID_GEN_CURRENT_PACKET_FILTER]"
    and "length VenetSupportedOids = 31"
    and "NIC_SUPPORTED_FILTERS AND NOT (ga_filters (general_attr a)) = 0x20"
  using assms
  by (simp_all add: general_attr_def arrays_ok_def sizeof_oid_def VenetSupportedOids_def NIC_SUPPORTED_FILTERS_def)

section \<open>Witnesses\<close>

definition demo_env :: ndis_env where
  "demo_env = \<lparr>new_timer = (\<lambda>t. (NDIS_STATUS_SUCCESS, case t of Reset_timer \<Rightarrow> 0x71 | Receive_timer \<Rightarrow> 0x72)),
     miniport_create = STATUS_SUCCESS, query_interface = STATUS_SUCCESS, registration_status = (\<lambda>_. NDIS_STATUS_SUCCESS),
     general_status = (\<lambda>_. NDIS_STATUS_SUCCESS), rx_handler = 0x81, tx_handler = 0x82, child = 0\<rparr>"

lemma demo_env_ok: "env_ok demo_env"
  by (simp add: env_ok_def demo_env_def)

text \<open>A miniport without adapters, with memory for one and two control blocks; a bus with one child.\<close>

definition demo_driver :: venet where
  "demo_driver = demo_venet\<lparr>v_list := [], v_live := [], v_pool := [0x50, 0x51, 0x52]\<rparr>"

definition demo_child :: machine where
  "demo_child = (demo_bus 0)\<lparr>fastlock := 1, m_pool := [0x4000, 0x4100]\<rparr>"

lemma demo_open: "\<exists>orc bh m1. VbusInterfaceOpen demo_host (child demo_env) VENET_VERSION 0 demo_child = Inr (orc, bh, m1)"
proof -
  have get: "pdo_get (child demo_env) demo_child = Inr (pdo_zero\<lparr>pd_handle := 0, pd_id := 3\<rparr>)"
    by (simp add: demo_env_def pdo_get_def demo_child_def demo_bus_def)
  have total: "\<exists>rc d m1. vbus_pci_buscall H nr p data len demo_child = Inr (rc, d, m1)" for H nr p data len
    by (simp add: vbus_pci_buscall_def acquire_def demo_child_def Let_def split: prod.splits)
  obtain rc d m1 where c: "vbus_pci_buscall demo_host (hc_val VBUS_PCI_HC_DEVOPEN) (va_params demo_host)
      (Device_open (ucast (pd_id (pdo_zero\<lparr>pd_handle := 0, pd_id := 3\<rparr>))) VENET_VERSION 0)
      (of_nat sizeof_deviceopen) demo_child = Inr (rc, d, m1)"
    using total by blast
  show ?thesis
    unfolding VbusInterfaceOpen_def VbusBusCall_def get bind_ok.simps c prod.case Let_def
    by (cases "rc < 0") (simp_all only: if_True if_False, blast+)
qed

lemma demo_driver_alloc: "VenetAlloc demo_driver = (0x50, demo_driver\<lparr>v_pool := [0x51, 0x52], v_live := [0x50]\<rparr>)"
  by (simp add: demo_driver_def VenetAlloc_def)

lemma demo_driver_fresh: "pool_fresh demo_driver"
  by (simp add: demo_driver_def pool_fresh_def)


lemma initialize_faults_witness:
  "VenetInitialize demo_host (demo_env\<lparr>query_interface := STATUS_NO_MEMORY\<rparr>) 7 (demo_driver, demo_child) = Some (Inl NullDeref)"
proof -
  have "\<not> env_ok (demo_env\<lparr>query_interface := STATUS_NO_MEMORY\<rparr>)" by (simp add: env_ok_def)
  then show ?thesis
    using initialize_faults [OF demo_driver_alloc] demo_driver_fresh by blast
qed

lemma halt_frees_but_drops_sends_witness:
  "\<exists>v' m'. VenetHalt demo_host 0x50
       (upd_adapter (\<lambda>a. a\<lparr>a_bus_handle := 0, a_rxHandle := 0, a_txHandle := 0\<rparr>) demo_queued, demo_child) = Some (Inr (v', m'))
     \<and> v_live v' = [] \<and> v_list v' = [] \<and> completed (v_io v') = [0x10]"
proof -
  let ?v = "upd_adapter (\<lambda>a. a\<lparr>a_bus_handle := 0, a_rxHandle := 0, a_txHandle := 0\<rparr>) demo_queued"
  have "adapter_owns 0x50 {#} (mset (m_live demo_child)) (?v, demo_child)"
    by (simp add: adapter_owns_def own_blocks_def handles_def block_def demo_queued_def demo_venet_def demo_adapter_def)
  moreover have "queue_rep (send_state ?v) [0x10, 0x20, 0x30]" using demo_queued_rep by simp
  moreover have "v_list ?v = [0x50]" "v_io ?v = []" by (simp_all add: demo_queued_def demo_venet_def)
  ultimately show ?thesis
    using halt_frees_but_drops_sends [of "0x50" "{#}" "mset (m_live demo_child)" ?v demo_child "[0x10, 0x20, 0x30]" demo_host]
    by auto
qed

end
