(* ===== verification/Venet_Progress.thy ===== *)
theory Venet_Progress
  imports Venet_Handlers Venet_Oids "HOL-Library.Multiset"
begin

text \<open>
  What the send path does to any list NDIS may hand over, not only to those the copy reports an error
  for: the copy of a frame that fits never faults, whatever its memory descriptors, mapped or not; the
  loop over the queue ends with a rest of the queue still in order; and the lists it took off the queue
  are those held by a busy control block. The same for requests: a set request changes its own fields
  of the adapter and no others.
\<close>

section \<open>Frames that fit\<close>

text \<open>The frame buffer has room for the data and for the two bytes of a tag.\<close>

definition frame_fits :: "UINT32 \<Rightarrow> net_buffer \<Rightarrow> bool" where
  "frame_fits priority nb \<longleftrightarrow> nb_length nb + (if is_priority priority then 2 else 0) \<le> NIC_BUFFER_SIZE"

definition copy_room :: "UINT32 \<Rightarrow> copy_state \<Rightarrow> bool" where
  "copy_room priority c \<longleftrightarrow>
     length (cp_out c) + cp_left c + (if is_priority priority \<and> cp_tag c then 2 else 0) \<le> NIC_BUFFER_SIZE
   \<and> length (cp_out c) \<le> cp_copied c"

lemma copy_chunk_room:
  assumes "copy_room priority (c\<lparr>cp_left := cp_left c + length src\<rparr>)"
  shows "\<exists>c'. copy_chunk priority src c = Inr c' \<and> copy_room priority c'"
  using assms
  by (cases "is_priority priority"; cases "cp_tag c"; cases "cp_mac c \<le> length src")
    (simp_all add: copy_room_def copy_chunk_def put_bytes_def P8021_TPID_BYTES_def P8021_BYTE_LEN_def Let_def)

lemma copy_mdls_room:
  assumes "copy_room priority c"
  shows "\<exists>c'. copy_mdls priority ds c = Inr c' \<and> (cp_copied c' = 0 \<or> copy_room priority c')"
  using assms
proof (induction ds arbitrary: c)
  case (Cons d ds)
  show ?case
  proof (cases "cp_left c = 0 \<or> d = None")
    case True
    then show ?thesis using Cons.prems by (cases "cp_left c = 0") auto
  next
    case False
    then obtain bs where d: "d = Some bs" and left: "cp_left c \<noteq> 0" by auto
    show ?thesis
    proof (cases "cp_offset c < length bs")
      case True
      let ?src = "take (cp_left c) (drop (cp_offset c) bs)"
      let ?c = "c\<lparr>cp_left := cp_left c - length ?src\<rparr>"
      have "copy_room priority (?c\<lparr>cp_left := cp_left ?c + length ?src\<rparr>)"
        using Cons.prems by (simp add: copy_room_def)
      then obtain c1 where c1: "copy_chunk priority ?src ?c = Inr c1" "copy_room priority c1"
        using copy_chunk_room [of priority ?c ?src] by blast
      then show ?thesis using Cons.IH [OF c1(2)] True left d by (simp add: Let_def)
    next
      case False
      have "copy_room priority (c\<lparr>cp_offset := cp_offset c - length bs\<rparr>)"
        using Cons.prems by (simp add: copy_room_def)
      then show ?thesis using Cons.IH False left d by simp
    qed
  qed
qed simp

lemma copy_frame_fits:
  assumes "frame_fits priority nb"
  shows "\<exists>rc bs. SrCopyFrame nb priority = Inr (rc, bs)"
proof -
  have "copy_room priority (copy_start nb)"
    using assms by (simp add: copy_room_def copy_start_def frame_fits_def)
  then obtain c where c: "copy_mdls priority (nb_mdls nb) (copy_start nb) = Inr c" "cp_copied c = 0 \<or> copy_room priority c"
    using copy_mdls_room by blast
  then show ?thesis
    by (auto simp: SrCopyFrame_def copy_room_def put_bytes_def min_packet nic_buffer_size)
qed

section \<open>One list\<close>

text \<open>The lists of control blocks, without the send event, which a reset sets at any time.\<close>

definition tcb_lists_ok :: "adapter \<Rightarrow> bool" where
  "tcb_lists_ok a \<longleftrightarrow>
     a_numTCBsFree a = of_nat (length (a_tcbFree a)) \<and> distinct (a_tcbFree a @ a_tcbBusy a)
   \<and> 0 \<notin> set (a_tcbFree a @ a_tcbBusy a) \<and> length (a_tcbFree a) < 2 ^ 32"

text \<open>A list is in flight while a busy control block names it.\<close>

definition in_flight :: "venet \<Rightarrow> UINT64 \<Rightarrow> bool" where
  "in_flight v p \<longleftrightarrow> (\<exists>t\<in>set (a_tcbBusy (v_adapter v)). t_nbl (v_tcbs v t) = p)"

text \<open>What the processing of a list may change: control blocks move between the lists, none comes or goes,
  and what is in flight stays in flight.\<close>

definition tx_adapter :: "adapter \<Rightarrow> adapter" where
  "tx_adapter a = a\<lparr>a_tcbFree := [], a_tcbBusy := [], a_sendEvent := False, a_numTCBsFree := 0\<rparr>"

definition tx_step :: "venet \<Rightarrow> venet \<Rightarrow> bool" where
  "tx_step v v' \<longleftrightarrow>
     v_nbls v' = v_nbls v \<and> v_list v' = v_list v \<and> v_live v' = v_live v \<and> v_pool v' = v_pool v \<and> v_io v' = v_io v
   \<and> tx_adapter (v_adapter v') = tx_adapter (v_adapter v)
   \<and> mset (a_tcbFree (v_adapter v')) + mset (a_tcbBusy (v_adapter v')) = mset (a_tcbFree (v_adapter v)) + mset (a_tcbBusy (v_adapter v))
   \<and> tcb_lists_ok (v_adapter v') \<and> (\<forall>p. in_flight v p \<longrightarrow> in_flight v' p)"

lemma tx_step_refl: "tcb_lists_ok (v_adapter v) \<Longrightarrow> tx_step v v"
  by (simp add: tx_step_def)

lemma tx_step_trans: "tx_step v1 v2 \<Longrightarrow> tx_step v2 v3 \<Longrightarrow> tx_step v1 v3"
  by (simp add: tx_step_def)

lemma tx_adapter_sel:
  assumes "tx_adapter a = tx_adapter b"
  shows "a_sendQueue a = a_sendQueue b" "a_sendingNBL a = a_sendingNBL b" "a_state a = a_state b" "a_vif a = a_vif b"
    "a_bus_handle a = a_bus_handle b" "a_rxHandle a = a_rxHandle b" "a_txHandle a = a_txHandle b"
    "a_permAddress a = a_permAddress b" "a_currAddress a = a_currAddress b" "a_mc_array a = a_mc_array b"
  using arg_cong [OF assms, of a_sendQueue] arg_cong [OF assms, of a_sendingNBL] arg_cong [OF assms, of a_state]
    arg_cong [OF assms, of a_vif] arg_cong [OF assms, of a_bus_handle] arg_cong [OF assms, of a_rxHandle]
    arg_cong [OF assms, of a_txHandle] arg_cong [OF assms, of a_permAddress] arg_cong [OF assms, of a_currAddress]
    arg_cong [OF assms, of a_mc_array]
  by (simp_all add: tx_adapter_def)

lemma tx_step_sel:
  assumes "tx_step v v'"
  shows "v_nbls v' = v_nbls v" "v_io v' = v_io v" "v_list v' = v_list v" "v_live v' = v_live v" "v_pool v' = v_pool v"
    "tcb_lists_ok (v_adapter v')" "tx_adapter (v_adapter v') = tx_adapter (v_adapter v)"
    "in_flight v p \<Longrightarrow> in_flight v' p"
  using assms by (auto simp: tx_step_def)

lemma alloc_step:
  assumes ok: "tcb_lists_ok (v_adapter v)" and free: "a_tcbFree (v_adapter v) \<noteq> []"
  obtains t v1 where "VenetAllocTCB p v = (t, v1)" "t \<noteq> 0" "tx_step v (tcb_store t bs v1)"
    "in_flight (tcb_store t bs v1) p" "a_tcbBusy (v_adapter v1) = t # a_tcbBusy (v_adapter v)"
    "a_tcbFree (v_adapter v) = t # a_tcbFree (v_adapter v1)"
proof -
  obtain t ts where fr: "a_tcbFree (v_adapter v) = t # ts" using free by (cases "a_tcbFree (v_adapter v)") auto
  obtain v1 where al: "VenetAllocTCB p v = (t, v1)" by (simp add: VenetAllocTCB_def fr)
  have n: "of_nat (length (a_tcbFree (v_adapter v))) - 1 = (of_nat (length ts) :: ULONG)" by (simp add: fr)
  have "t \<noteq> 0" "t \<notin> set (a_tcbBusy (v_adapter v))" using ok by (auto simp: tcb_lists_ok_def fr)
  moreover have "tx_step v (tcb_store t bs v1)"
    using ok al n by (auto simp: tx_step_def tx_adapter_def VenetAllocTCB_def fr tcb_store_def tcb_lists_ok_def in_flight_def)
  moreover have "in_flight (tcb_store t bs v1) p" "a_tcbBusy (v_adapter v1) = t # a_tcbBusy (v_adapter v)"
    "a_tcbFree (v_adapter v) = t # a_tcbFree (v_adapter v1)"
    using al by (auto simp: VenetAllocTCB_def fr tcb_store_def in_flight_def)
  ultimately show thesis using that al by blast
qed

lemma release_step:
  assumes step: "tx_step v w" and busy: "a_tcbBusy (v_adapter w) = t # a_tcbBusy (v_adapter v)" and room: "Suc (length (a_tcbFree (v_adapter w))) < 2 ^ 32"
    and same: "\<forall>x\<in>set (a_tcbBusy (v_adapter v)). t_nbl (v_tcbs w x) = t_nbl (v_tcbs v x)"
  shows "\<exists>v'. VenetReleaseTCB t w = Inr v' \<and> tx_step v v'"
proof -
  have ok: "tcb_lists_ok (v_adapter w)" using step by (simp add: tx_step_def)
  then have t: "t \<noteq> 0" "t \<notin> set (a_tcbFree (v_adapter w))" using busy by (auto simp: tcb_lists_ok_def)
  define v' where "v' = upd_adapter (\<lambda>a. a\<lparr>a_tcbFree := t # a_tcbFree a, a_tcbBusy := a_tcbBusy (v_adapter v),
      a_sendEvent := a_tcbBusy (v_adapter v) = [] \<or> a_sendEvent a, a_numTCBsFree := a_numTCBsFree a + 1\<rparr>) w"
  have "VenetReleaseTCB t w = Inr v'"
    using t busy by (simp add: VenetReleaseTCB_def remove1_idem Let_def v'_def)
  moreover have "tx_step v v'"
    using step t ok room same busy by (auto simp: tx_step_def tx_adapter_def v'_def tcb_lists_ok_def in_flight_def)
  ultimately show ?thesis by blast
qed

lemma process_nbs_step:
  assumes "tcb_lists_ok (v_adapter v)" and "\<forall>nb\<in>set nbs. frame_fits pr nb"
    and "length nbs \<le> length (a_tcbFree (v_adapter v))"
  shows "\<exists>rc v'. process_nbs p pr nbs v = Inr (rc, v') \<and> tx_step v v'
           \<and> (rc = NDIS_STATUS_SUCCESS \<and> nbs \<noteq> [] \<longrightarrow> in_flight v' p)"
  using assms
proof (induction nbs arbitrary: v)
  case Nil
  then show ?case by (simp add: tx_step_refl)
next
  case (Cons nb nbs)
  obtain rc bs where copy: "SrCopyFrame nb pr = Inr (rc, bs)"
    using copy_frame_fits [of pr nb] Cons.prems(2) by auto
  have "a_tcbFree (v_adapter v) \<noteq> []" using Cons.prems(3) by auto
  then obtain t v1 where al: "VenetAllocTCB p v = (t, v1)" "t \<noteq> 0" "tx_step v (tcb_store t bs v1)"
    "in_flight (tcb_store t bs v1) p" "a_tcbBusy (v_adapter v1) = t # a_tcbBusy (v_adapter v)"
    "a_tcbFree (v_adapter v) = t # a_tcbFree (v_adapter v1)"
    using alloc_step [OF Cons.prems(1), of p bs] by blast
  let ?w = "tcb_store t bs v1"
  have w: "v_adapter ?w = v_adapter v1" by (simp add: tcb_store_def)
  show ?case
  proof (cases "rc = NDIS_STATUS_SUCCESS")
    case True
    have "length nbs \<le> length (a_tcbFree (v_adapter ?w))"
      using Cons.prems(3) al(6) by (simp add: w)
    then obtain rc' v' where "process_nbs p pr nbs ?w = Inr (rc', v')" "tx_step ?w v'"
      using Cons.IH [of ?w] Cons.prems(2) tx_step_sel(6) [OF al(3)] by auto
    then show ?thesis
      using True copy al tx_step_trans [OF al(3)] tx_step_sel(8) by (simp add: SrSubmitTCB_def)
  next
    case False
    have "t \<notin> set (a_tcbBusy (v_adapter v))" using Cons.prems(1) al(6) by (auto simp: tcb_lists_ok_def)
    then have "\<forall>x\<in>set (a_tcbBusy (v_adapter v)). t_nbl (v_tcbs ?w x) = t_nbl (v_tcbs v x)"
      using al(1) by (auto simp: VenetAllocTCB_def tcb_store_def split: list.splits)
    moreover have "Suc (length (a_tcbFree (v_adapter ?w))) < 2 ^ 32"
      using Cons.prems(1) al(6) by (simp add: w tcb_lists_ok_def)
    ultimately obtain v' where "VenetReleaseTCB t ?w = Inr v'" "tx_step v v'"
      using release_step [OF al(3)] al(5) w by auto
    then show ?thesis using False copy al by simp
  qed
qed

section \<open>The loop over the queue\<close>

text \<open>A list as NDIS hands it over: at least one frame, each of them fitting. Once queued, it is counted.\<close>

definition list_fits :: "nbl \<Rightarrow> bool" where
  "list_fits n \<longleftrightarrow> nbl_nbs n \<noteq> [] \<and> length (nbl_nbs n) < 2 ^ 32 \<and> (\<forall>nb\<in>set (nbl_nbs n). frame_fits (nbl_8021q n) nb)"

definition list_queued :: "nbl \<Rightarrow> bool" where
  "list_queued n \<longleftrightarrow> list_fits n \<and> nbl_count n = SrCountNBL n"

lemma count_nbs_length: "count_nbs l c = c + of_nat (length l)"
  by (induction l arbitrary: c) auto

lemma process_nbl_step:
  assumes ok: "tcb_lists_ok (v_adapter v)" and p: "a_sendingNBL (v_adapter v) = p" "p \<noteq> 0"
    and fits: "list_queued (v_nbls v p)"
  shows "\<exists>rc v'. SrProcessNBL v = Inr (rc, v') \<and> tx_step v v' \<and> (rc = NDIS_STATUS_SUCCESS \<longrightarrow> in_flight v' p)"
proof (cases "nbl_count (v_nbls v p) > a_numTCBsFree (v_adapter v)")
  case True
  then have "SrProcessNBL v = Inr (NDIS_STATUS_RESOURCES, v)"
    using p by (simp add: SrProcessNBL_def Let_def)
  then show ?thesis using tx_step_refl [OF ok] by simp
next
  case False
  have "unat (nbl_count (v_nbls v p)) = length (nbl_nbs (v_nbls v p))"
    using fits by (simp add: list_queued_def list_fits_def SrCountNBL_def count_nbs_length unat_ulong_of_nat)
  moreover have "unat (a_numTCBsFree (v_adapter v)) = length (a_tcbFree (v_adapter v))"
    using ok by (simp add: tcb_lists_ok_def unat_ulong_of_nat)
  ultimately have "length (nbl_nbs (v_nbls v p)) \<le> length (a_tcbFree (v_adapter v))"
    using False by (simp add: not_less word_le_nat_alt)
  then obtain rc v' where "process_nbs p (nbl_8021q (v_nbls v p)) (nbl_nbs (v_nbls v p)) v = Inr (rc, v')" "tx_step v v'"
    "rc = NDIS_STATUS_SUCCESS \<longrightarrow> in_flight v' p"
    using process_nbs_step [OF ok, of "nbl_nbs (v_nbls v p)" "nbl_8021q (v_nbls v p)" p] fits
    by (auto simp: list_queued_def list_fits_def)
  then show ?thesis using False p by (simp add: SrProcessNBL_def Let_def)
qed

text \<open>A step of the queue: besides control blocks and links, only the queue and the list at hand change.\<close>

definition queue_adapter :: "adapter \<Rightarrow> adapter" where
  "queue_adapter a = (tx_adapter a)\<lparr>a_sendQueue := QueueInit, a_sendingNBL := 0\<rparr>"

definition nbl_data :: "nbl \<Rightarrow> nbl" where
  "nbl_data n = n\<lparr>nbl_next := 0\<rparr>"

definition queue_step :: "venet \<Rightarrow> venet \<Rightarrow> bool" where
  "queue_step v v' \<longleftrightarrow>
     (\<forall>p. nbl_data (v_nbls v' p) = nbl_data (v_nbls v p))
   \<and> v_list v' = v_list v \<and> v_live v' = v_live v \<and> v_pool v' = v_pool v \<and> v_io v' = v_io v
   \<and> queue_adapter (v_adapter v') = queue_adapter (v_adapter v)
   \<and> mset (a_tcbFree (v_adapter v')) + mset (a_tcbBusy (v_adapter v')) = mset (a_tcbFree (v_adapter v)) + mset (a_tcbBusy (v_adapter v))
   \<and> tcb_lists_ok (v_adapter v') \<and> (\<forall>p. in_flight v p \<longrightarrow> in_flight v' p)"

lemma nbl_data_sel:
  assumes "nbl_data m = nbl_data n"
  shows "nbl_nbs m = nbl_nbs n" "nbl_8021q m = nbl_8021q n" "nbl_count m = nbl_count n" "nbl_status m = nbl_status n"
    "nbl_cancel_id m = nbl_cancel_id n"
  using arg_cong [OF assms, of nbl_nbs] arg_cong [OF assms, of nbl_8021q] arg_cong [OF assms, of nbl_count]
    arg_cong [OF assms, of nbl_status] arg_cong [OF assms, of nbl_cancel_id]
  by (simp_all add: nbl_data_def)

lemma list_queued_data: "nbl_data m = nbl_data n \<Longrightarrow> list_queued m = list_queued n"
  using nbl_data_sel [of m n] by (simp add: list_queued_def list_fits_def SrCountNBL_def)

lemma nbl_data_set_next [simp]: "nbl_data (set_next p n M a) = nbl_data (M a)"
  by (simp add: nbl_data_def set_next_def)

lemma queue_adapter_sel:
  assumes "queue_adapter a = queue_adapter b"
  shows "a_state a = a_state b" "a_vif a = a_vif b"
    "a_bus_handle a = a_bus_handle b" "a_rxHandle a = a_rxHandle b" "a_txHandle a = a_txHandle b"
    "a_permAddress a = a_permAddress b" "a_currAddress a = a_currAddress b" "a_mc_array a = a_mc_array b"
  using arg_cong [OF assms, of a_state]
    arg_cong [OF assms, of a_vif] arg_cong [OF assms, of a_bus_handle] arg_cong [OF assms, of a_rxHandle]
    arg_cong [OF assms, of a_txHandle] arg_cong [OF assms, of a_permAddress] arg_cong [OF assms, of a_currAddress]
    arg_cong [OF assms, of a_mc_array]
  by (simp_all add: queue_adapter_def tx_adapter_def)

lemmas queue_step_defs = queue_step_def queue_adapter_def tx_adapter_def tcb_lists_ok_def in_flight_def

lemma queue_step_refl: "tcb_lists_ok (v_adapter v) \<Longrightarrow> queue_step v v"
  by (simp add: queue_step_def)

lemma queue_step_trans: "queue_step v1 v2 \<Longrightarrow> queue_step v2 v3 \<Longrightarrow> queue_step v1 v3"
  by (simp add: queue_step_def)

lemma tx_queue_step: "tx_step v v' \<Longrightarrow> queue_step v v'"
  by (simp add: tx_step_def queue_step_def queue_adapter_def)

text \<open>The queue and the list at hand do not matter to a step.\<close>

lemma queue_step_sending:
  "queue_step v (set_sending p w) \<longleftrightarrow> queue_step v w" "queue_step (set_sending p w) v \<longleftrightarrow> queue_step w v"
  by (simp_all add: queue_step_defs)

lemma deque_data:
  assumes "QueueDeque (q, M) = Inr (x, s)"
  shows "nbl_data (snd s p) = nbl_data (M p)"
  using assms by (auto simp: QueueDeque_def Let_def split: if_splits)

lemma process_queue_progress:
  assumes "tcb_lists_ok (v_adapter v)" and "a_sendingNBL (v_adapter v) = 0"
    and "queue_rep (send_state v) q" and "\<forall>x\<in>set q. list_queued (v_nbls v x)"
  shows "\<exists>v' ds q'. SrProcessQueue v = Some (Inr v') \<and> q = ds @ q' \<and> queue_rep (send_state v') q'
           \<and> queue_step v v' \<and> a_sendingNBL (v_adapter v') = 0 \<and> (\<forall>d\<in>set ds. in_flight v' d)"
  using assms
proof (induction q arbitrary: v)
  case Nil
  then have "SrProcessQueue v = Some (Inr v)"
    using queue_rep_QueueEmpty [OF Nil(3)] by (subst SrProcessQueue.simps) simp
  then show ?case using Nil queue_step_refl by auto
next
  case (Cons x xs)
  show ?case
  proof (cases "VENET_IS_NOT_READY (v_adapter v)")
    case True
    then have "SrProcessQueue v = Some (Inr v)" by (subst SrProcessQueue.simps) simp
    then show ?thesis
      using Cons.prems queue_step_refl [OF Cons.prems(1)] by (intro exI [of _ v] exI [of _ "[]"] exI [of _ "x # xs"]) simp
  next
    case False
    obtain s where s: "QueueDeque (send_state v) = Inr (x, s)" "QueueEnqueHead x s = send_state v"
      using deque_enque_id [OF Cons.prems(3)] by blast
    have rep: "queue_rep s xs" using deque_rep [OF Cons.prems(3)] s(1) by auto
    note data = deque_data [OF s(1)]
    define w where "w = set_sending x (set_send_state s v)"
    have x: "x \<noteq> 0" using Cons.prems(3) by (auto simp: queue_rep_def)
    have vw: "queue_step v w"
      using Cons.prems(1) data by (simp add: w_def queue_step_defs)
    have w: "a_sendingNBL (v_adapter w) = x" "send_state w = s" "tcb_lists_ok (v_adapter w)"
      using vw by (simp_all add: w_def queue_step_def)
    have queued: "list_queued (v_nbls w y)" if "y \<in> set (x # xs)" for y
      using Cons.prems(4) that data list_queued_data [of "v_nbls w y" "v_nbls v y"] by (auto simp: w_def)
    obtain rc w' where w': "SrProcessNBL w = Inr (rc, w')" "tx_step w w'" "rc = NDIS_STATUS_SUCCESS \<longrightarrow> in_flight w' x"
      using process_nbl_step [OF w(3,1) x] queued by auto
    note keep = tx_step_sel(1) [OF w'(2)] tx_adapter_sel(1-3) [OF tx_step_sel(7) [OF w'(2)]]
    have st: "send_state w' = s" "a_sendingNBL (v_adapter w') = x" using keep w by simp_all
    have vw': "queue_step v w'" using queue_step_trans [OF vw tx_queue_step [OF w'(2)]] .
    have loop: "SrProcessQueue v =
        (if rc \<noteq> NDIS_STATUS_SUCCESS
         then Some (Inr (set_sending 0 (set_send_state (QueueEnqueHead x s) w')))
         else SrProcessQueue (set_sending 0 w'))"
      using False Cons.prems(2) queue_rep_QueueEmpty [OF Cons.prems(3)] s(1) w'(1) [unfolded w_def] st
      by (subst SrProcessQueue.simps) simp
    show ?thesis
    proof (cases "rc = NDIS_STATUS_SUCCESS")
      case False
      let ?v' = "set_sending 0 (set_send_state (send_state v) w')"
      have "queue_step v ?v'"
        using vw' by (simp add: queue_step_defs)
      then show ?thesis
        using loop False Cons.prems(3) s(2)
        by (intro exI [of _ ?v'] exI [of _ "[]"] exI [of _ "x # xs"]) simp
    next
      case True
      let ?u = "set_sending 0 w'"
      have "\<forall>y\<in>set xs. list_queued (v_nbls ?u y)" using queued keep(1) by simp
      moreover have "tcb_lists_ok (v_adapter ?u)" using tx_step_sel(6) [OF w'(2)] by (simp add: tcb_lists_ok_def)
      moreover have "queue_rep (send_state ?u) xs" using rep st(1) by simp
      ultimately obtain v' ds q' where IH: "SrProcessQueue ?u = Some (Inr v')" "xs = ds @ q'" "queue_rep (send_state v') q'"
        "queue_step ?u v'" "a_sendingNBL (v_adapter v') = 0" "\<forall>d\<in>set ds. in_flight v' d"
        using Cons.IH [of ?u] by auto
      have "queue_step w' v'" using IH(4) by (simp only: queue_step_sending)
      then have "in_flight v' x" using w'(3) True by (simp add: queue_step_def)
      moreover have "queue_step v v'" using queue_step_trans [OF vw'] IH(4) by (simp add: queue_step_sending)
      ultimately show ?thesis
        using loop True IH by (intro exI [of _ v'] exI [of _ "x # ds"] exI [of _ q']) simp
    qed
  qed
qed

section \<open>Requests\<close>

text \<open>A request changes the filter, the lookahead size and the multicast list at most.\<close>

definition oid_adapter :: "adapter \<Rightarrow> adapter" where
  "oid_adapter a = a\<lparr>a_packetFilter := 0, a_lookAhead := 0, a_mc_array := [], a_mc_size := 0\<rparr>"

lemma rd32_room: "4 \<le> length bs \<Longrightarrow> \<exists>w. rd32 bs = Inr w"
  by (cases bs rule: rd32.cases) auto

lemma oid_set_step:
  assumes len: "unat len \<le> length b" and a: "arrays_ok a"
  shows "\<exists>rc count needed a'. venet_oid_set a oid b len = Inr (rc, count, needed, a') \<and> oid_adapter a' = oid_adapter a \<and> arrays_ok a'"
proof -
  have word: "\<exists>w. rd32 b = Inr w" if "len = 4" using rd32_room [of b] len that by simp
  have filter: "\<exists>rc a'. set_pkt_filter a pf = (rc, a') \<and> oid_adapter a' = oid_adapter a \<and> arrays_ok a'" for pf
    using a by (simp add: set_pkt_filter_def oid_adapter_def arrays_ok_def)
  have list: "\<exists>rc count needed a'. set_mcast_list a b len = Inr (rc, count, needed, a') \<and> oid_adapter a' = oid_adapter a \<and> arrays_ok a'"
  proof (cases "len mod of_nat ETH_LENGTH_OF_ADDRESS = 0 \<and> len \<le> of_nat mcast_bytes")
    case True
    then have "unat len \<le> mcast_bytes"
      by (simp add: word_le_nat_alt mcast_bytes_def NIC_MAX_MCAST_LIST_def ETH_LENGTH_OF_ADDRESS_def)
    then show ?thesis
      using True a len by (auto simp: set_mcast_list_def move_to_def oid_adapter_def arrays_ok_def)
  next
    case False
    then show ?thesis using a by (auto simp: set_mcast_list_def)
  qed
  have pkt: ?thesis if "oid = OID_GEN_CURRENT_PACKET_FILTER"
  proof (cases "len = 4")
    case True
    then obtain pf where "rd32 b = Inr pf" using word by blast
    then show ?thesis using filter [of pf] that True by (auto simp: venet_oid_set_def)
  qed (use that a in \<open>simp add: venet_oid_set_def\<close>)
  have ahead: ?thesis if "oid = OID_GEN_CURRENT_LOOKAHEAD"
    using that a word by (cases "len = 4") (auto simp: venet_oid_set_def oid_adapter_def arrays_ok_def)
  show ?thesis
    using pkt ahead list a by - (cases oid, simp_all add: venet_oid_set_def)
qed

lemma oid_request_step:
  assumes "unat (r_len r) \<le> length (r_buf r)" and "arrays_ok a" and "abi_ok abi"
  shows "\<exists>rc a' r'. VenetOidRequest abi a r = Inr (rc, a', r') \<and> oid_adapter a' = oid_adapter a \<and> arrays_ok a'"
proof (cases "r_type r")
  case NdisRequestSetInformation
  obtain rc c n a' where "venet_oid_set a (r_oid r) (r_buf r) (r_len r) = Inr (rc, c, n, a')" "oid_adapter a' = oid_adapter a"
    "arrays_ok a'" using oid_set_step [OF assms(1,2)] by blast
  then show ?thesis using NdisRequestSetInformation by (simp add: VenetOidRequest_def)
next
  case Other_request
  then show ?thesis using assms(2) by (simp add: VenetOidRequest_def)
qed (use oid_query_ok [OF assms, of "r_oid r"] assms(2) in \<open>auto simp: VenetOidRequest_def query_ok_def\<close>)

end
