(* ===== verification/Venet_Driver.thy ===== *)
theory Venet_Driver
  imports Venet_Adapter Venet_Progress
begin

text \<open>
  The registration of the miniport, \<open>DriverEntry\<close> and \<open>VenetUnload\<close> of \<open>windows/venet/venet.c\<close>, with the
  handlers that do nothing. A function pointer of the table that NDIS receives is a function, so that
  a call through the table is a call of the model's handler. What the framework and NDIS answer is a
  parameter. The lemmas show when the table is registered, which handlers it holds, and what a failed
  registration leaves behind.
\<close>

section \<open>Handlers without effect\<close>

definition VenetSetOptions :: "venet \<Rightarrow> NDIS_STATUS \<times> venet" where
  "VenetSetOptions v = (NDIS_STATUS_SUCCESS, v)"

definition VenetCancelOidRequest :: "UINT64 \<Rightarrow> venet \<Rightarrow> venet" where
  "VenetCancelOidRequest i v = v"

definition VenetReturnNetBufs :: "UINT64 \<Rightarrow> ULONG \<Rightarrow> venet \<Rightarrow> venet" where
  "VenetReturnNetBufs p flags v = v"

section \<open>The driver\<close>

text \<open>What the driver asks of the framework and of NDIS as a whole, in order.\<close>

datatype driver_io =
    Wdf_driver_create bool
  | Initialize_list_head
  | Allocate_spin_lock
  | Register_miniport
  | Wdf_driver_miniport_unload
  | Deregister_miniport UINT64

record driver =
  dr_mp_handle :: UINT64
  dr_io :: "driver_io list"

abbreviation dio :: "driver_io \<Rightarrow> driver \<Rightarrow> driver" where
  "dio e d \<equiv> d\<lparr>dr_io := dr_io d @ [e]\<rparr>"

definition VenetUnload :: "driver \<Rightarrow> driver" where
  "VenetUnload d = dio (Deregister_miniport (dr_mp_handle d)) (dio Wdf_driver_miniport_unload d)"

definition VENET_NDIS_MAJOR_VERSION :: UINT8 where "VENET_NDIS_MAJOR_VERSION = 6"
definition VENET_NDIS_MINOR_VERSION :: UINT8 where "VENET_NDIS_MINOR_VERSION = 0"
definition VENET_MAJOR_VERSION :: UINT8 where "VENET_MAJOR_VERSION = 1"
definition VENET_MINOR_VERSION :: UINT8 where "VENET_MINOR_VERSION = 0"

text \<open>
  The table. The flag of a WDM driver is \<open>mc_wdm\<close>; a handler that is never set stays null and has no
  field. Each handler gets what it uses of its arguments and of the state.
\<close>

record miniport_characteristics =
  mc_wdm :: bool
  mc_ndis_version :: "UINT8 \<times> UINT8"
  mc_driver_version :: "UINT8 \<times> UINT8"
  mc_initialize :: "host \<Rightarrow> ndis_env \<Rightarrow> UINT64 \<Rightarrow> sys \<Rightarrow> (NDIS_STATUS \<times> sys) outcome option"
  mc_pause :: "venet \<Rightarrow> NDIS_STATUS \<times> venet"
  mc_restart :: "venet \<Rightarrow> NDIS_STATUS \<times> venet"
  mc_shutdown :: "venet \<Rightarrow> venet"
  mc_pnp_event :: "bool \<Rightarrow> venet \<Rightarrow> venet"
  mc_halt :: "host \<Rightarrow> UINT64 \<Rightarrow> sys \<Rightarrow> sys outcome option"
  mc_unload :: "driver \<Rightarrow> driver"
  mc_oid_request :: "ndis_abi \<Rightarrow> adapter \<Rightarrow> oid_request \<Rightarrow> (NDIS_STATUS \<times> adapter \<times> oid_request) outcome"
  mc_cancel_oid_request :: "UINT64 \<Rightarrow> venet \<Rightarrow> venet"
  mc_set_options :: "venet \<Rightarrow> NDIS_STATUS \<times> venet"
  mc_send :: "UINT64 \<Rightarrow> bool \<Rightarrow> venet \<Rightarrow> venet outcome option"
  mc_cancel_send :: "UINT64 \<Rightarrow> venet \<Rightarrow> venet outcome option"
  mc_return :: "UINT64 \<Rightarrow> ULONG \<Rightarrow> venet \<Rightarrow> venet"
  mc_check_hang :: "venet \<Rightarrow> bool"
  mc_reset :: "venet \<Rightarrow> (NDIS_STATUS \<times> bool \<times> venet) outcome option"

definition venet_characteristics :: miniport_characteristics where
  "venet_characteristics =
     \<lparr>mc_wdm = True, mc_ndis_version = (VENET_NDIS_MAJOR_VERSION, VENET_NDIS_MINOR_VERSION),
      mc_driver_version = (VENET_MAJOR_VERSION, VENET_MINOR_VERSION),
      mc_initialize = VenetInitialize, mc_pause = VenetPause, mc_restart = VenetRestart,
      mc_shutdown = VenetShutdown, mc_pnp_event = VenetDevicePnPEvent, mc_halt = VenetHalt, mc_unload = VenetUnload,
      mc_oid_request = VenetOidRequest, mc_cancel_oid_request = VenetCancelOidRequest,
      mc_set_options = VenetSetOptions, mc_send = VenetSendNetBufs, mc_cancel_send = VenetCancelSend,
      mc_return = VenetReturnNetBufs, mc_check_hang = VenetCheckHang, mc_reset = VenetReset\<rparr>"

text \<open>The answers of NDIS and the framework: the version, the framework driver, and status and handle of a registration.\<close>

record driver_env =
  ndis_version :: ULONG
  wdf_driver_create :: NTSTATUS
  register_miniport :: "miniport_characteristics \<Rightarrow> NDIS_STATUS \<times> UINT64"

text \<open>
  The entry point of the driver; the result has the table that NDIS took. Before it registers, the
  driver sets up the list of adapters and its lock, for which nothing else frees the lock.
\<close>

definition VenetDriverEntry ::
  "driver_env \<Rightarrow> venet \<Rightarrow> driver \<Rightarrow> NDIS_STATUS \<times> miniport_characteristics option \<times> venet \<times> driver" where
  "VenetDriverEntry E v d =
     (if ndis_version E < (push_bit 16 (ucast VENET_NDIS_MAJOR_VERSION) OR ucast VENET_NDIS_MINOR_VERSION)
      then (NDIS_STATUS_FAILURE, None, v, d)
      else
        let d1 = dio (Wdf_driver_create True) d
        in if \<not> NT_SUCCESS (wdf_driver_create E) then (NDIS_STATUS_FAILURE, None, v, d1)
           else
             let v1 = v\<lparr>v_list := []\<rparr>;
                 d2 = dio Register_miniport (dio Allocate_spin_lock (dio Initialize_list_head d1));
                 (rc, h) = register_miniport E venet_characteristics
             in if rc = NDIS_STATUS_SUCCESS
                then (rc, Some venet_characteristics, v1, d2\<lparr>dr_mp_handle := h\<rparr>)
                else (rc, None, v1, d2))"

section \<open>Properties\<close>

text \<open>\<open>DriverEntry\<close> registers the miniport exactly when NDIS has version 6.0 at least, the framework
  driver can be created and NDIS takes the table; the table then holds the driver's handlers and the list of adapters is empty. When NDIS refuses the
  table the entry point returns the status of NDIS without the call that releases the framework driver and with the lock allocated.\<close>

theorem driver_entry_registers:
  assumes "VenetDriverEntry E v d = (rc, t, v', d')"
  shows "(t = Some venet_characteristics \<longleftrightarrow>
            0x60000 \<le> ndis_version E \<and> NT_SUCCESS (wdf_driver_create E)
          \<and> fst (register_miniport E venet_characteristics) = NDIS_STATUS_SUCCESS)
       \<and> (t \<noteq> None \<longleftrightarrow> rc = NDIS_STATUS_SUCCESS)
       \<and> (t \<noteq> None \<longrightarrow> v_list v' = [] \<and> dr_mp_handle d' = snd (register_miniport E venet_characteristics))
       \<and> (0x60000 \<le> ndis_version E \<and> NT_SUCCESS (wdf_driver_create E) \<and> t = None \<longrightarrow>
            dr_io d' = dr_io d @ [Wdf_driver_create True, Initialize_list_head, Allocate_spin_lock, Register_miniport])"
  using assms
  by (auto simp: VenetDriverEntry_def VENET_NDIS_MAJOR_VERSION_def VENET_NDIS_MINOR_VERSION_def Let_def push_bit_eq_mult
      split: if_splits prod.splits)

section \<open>Witnesses\<close>

definition demo_driver_env :: driver_env where
  "demo_driver_env = \<lparr>ndis_version = 0x60001, wdf_driver_create = STATUS_SUCCESS,
     register_miniport = (\<lambda>_. (NDIS_STATUS_SUCCESS, 0x30))\<rparr>"

lemma driver_entry_registers_witness:
  "\<exists>v' d'. VenetDriverEntry demo_driver_env demo_driver \<lparr>dr_mp_handle = 0, dr_io = []\<rparr> =
     (NDIS_STATUS_SUCCESS, Some venet_characteristics, v', d') \<and> dr_mp_handle d' = 0x30 \<and> v_list v' = []"
proof -
  obtain rc t v' d' where e: "VenetDriverEntry demo_driver_env demo_driver \<lparr>dr_mp_handle = 0, dr_io = []\<rparr> = (rc, t, v', d')"
    by (rule prod_cases4)
  then show ?thesis
    using driver_entry_registers [OF e] by (auto simp: demo_driver_env_def)
qed

end
