(* ===== verification/Venet_System.thy ===== *)
theory Venet_System
  imports Venet_Driver
begin

text \<open>
  The miniport as NDIS sees it: the calls through the table of handlers that \<open>DriverEntry\<close> registers, in
  any order, with the guarantees NDIS gives for their arguments. Between the calls NDIS may do anything
  with the lists it owns. The set of lists the miniport holds is kept beside the state: a list is
  handed over by a send and given back by a completion. The lemmas show that no history of calls faults
  or runs forever, that only lists the miniport holds are given back, and what is lost.
\<close>

section \<open>Calls\<close>

datatype ndis_call =
    Call_pause
  | Call_restart
  | Call_shutdown
  | Call_pnp_event bool
  | Call_oid_request oid_request
  | Call_cancel_oid_request UINT64
  | Call_set_options
  | Call_send "UINT64 list" bool
  | Call_cancel_send UINT64
  | Call_return UINT64 ULONG
  | Call_check_hang
  | Call_reset
  | Reset_timer_fires

text \<open>A send names the lists of its chain; the first one is the argument of the handler.\<close>

fun first_list :: "UINT64 list \<Rightarrow> UINT64" where
  "first_list [] = 0"
| "first_list (y # ys) = y"

fun ndis_run :: "miniport_characteristics \<Rightarrow> ndis_abi \<Rightarrow> ndis_call \<Rightarrow> venet \<Rightarrow> venet outcome option" where
  "ndis_run t abi Call_pause v = Some (Inr (snd (mc_pause t v)))"
| "ndis_run t abi Call_restart v = Some (Inr (snd (mc_restart t v)))"
| "ndis_run t abi Call_shutdown v = Some (Inr (mc_shutdown t v))"
| "ndis_run t abi (Call_pnp_event b) v = Some (Inr (mc_pnp_event t b v))"
| "ndis_run t abi (Call_oid_request r) v =
     ret_bind (Some (mc_oid_request t abi (v_adapter v) r)) (\<lambda>(rc, a, r1). Some (Inr (v\<lparr>v_adapter := a\<rparr>)))"
| "ndis_run t abi (Call_cancel_oid_request i) v = Some (Inr (mc_cancel_oid_request t i v))"
| "ndis_run t abi Call_set_options v = Some (Inr (snd (mc_set_options t v)))"
| "ndis_run t abi (Call_send ys d) v = mc_send t (first_list ys) d v"
| "ndis_run t abi (Call_cancel_send i) v = mc_cancel_send t i v"
| "ndis_run t abi (Call_return p fl) v = Some (Inr (mc_return t p fl v))"
| "ndis_run t abi Call_check_hang v = Some (Inr v)"
| "ndis_run t abi Call_reset v = ret_bind (mc_reset t v) (\<lambda>(rc, b, v1). Some (Inr v1))"
| "ndis_run t abi Reset_timer_fires v = VenetResetTimerDpc v"

section \<open>What NDIS guarantees\<close>

text \<open>
  A chain of distinct lists with frames that fit, none of which the miniport holds; a request whose
  buffer has the length it states.
\<close>

definition may_call :: "UINT64 set \<Rightarrow> venet \<Rightarrow> ndis_call \<Rightarrow> bool" where
  "may_call held v c \<longleftrightarrow>
     (case c of
        Call_send ys d \<Rightarrow> ys \<noteq> [] \<and> chain (v_nbls v) (first_list ys) ys 0 \<and> distinct ys \<and> set ys \<inter> held = {}
          \<and> (\<forall>y\<in>set ys. list_fits (v_nbls v y))
      | Call_oid_request r \<Rightarrow> unat (r_len r) \<le> length (r_buf r)
      | _ \<Rightarrow> True)"

text \<open>The lists completed by a call, and those the miniport holds after it: a rejected send gives its whole chain back.\<close>

definition returned :: "venet \<Rightarrow> venet \<Rightarrow> UINT64 list" where
  "returned v v' = completed (drop (length (v_io v)) (v_io v'))"

definition held_after :: "ndis_call \<Rightarrow> venet \<Rightarrow> venet \<Rightarrow> UINT64 set \<Rightarrow> UINT64 set" where
  "held_after c v v' held =
     (case c of
        Call_send ys d \<Rightarrow> if VENET_IS_NOT_READY (v_adapter v) then held else held \<union> set ys
      | _ \<Rightarrow> held - set (returned v v'))"

inductive ndis_step :: "miniport_characteristics \<Rightarrow> ndis_abi \<Rightarrow> venet \<times> UINT64 set \<Rightarrow> venet \<times> UINT64 set \<Rightarrow> bool"
  for t abi where
  call: "may_call held v c \<Longrightarrow> ndis_run t abi c v = Some (Inr v') \<Longrightarrow>
    ndis_step t abi (v, held) (v', held_after c v v' held)"
| others: "(\<And>p. p \<in> held \<Longrightarrow> M p = v_nbls v p) \<Longrightarrow> ndis_step t abi (v, held) (v\<lparr>v_nbls := M\<rparr>, held)"

section \<open>The invariant\<close>

text \<open>
  The adapter \<open>p\<close> owns its memory beside the blocks \<open>R\<close> and \<open>Rm\<close> of others, the control blocks are
  accounted for, no list is at hand, and what the miniport holds is queued or in flight.
\<close>

definition lists_ok :: "UINT64 list \<Rightarrow> UINT64 set \<Rightarrow> venet \<Rightarrow> bool" where
  "lists_ok q lost v \<longleftrightarrow>
     queue_rep (send_state v) q \<and> set q \<inter> lost = {} \<and> (\<forall>x\<in>set q. list_queued (v_nbls v x)) \<and> (\<forall>x\<in>lost. in_flight v x)"

definition core_ok :: "UINT64 \<Rightarrow> UINT64 multiset \<Rightarrow> UINT64 multiset \<Rightarrow> machine \<Rightarrow> UINT64 list \<Rightarrow> venet \<Rightarrow> bool" where
  "core_ok p R Rm m L v \<longleftrightarrow>
     adapter_owns p R Rm (v, m) \<and> tcb_lists_ok (v_adapter v) \<and> arrays_ok (v_adapter v)
   \<and> a_sendingNBL (v_adapter v) = 0 \<and> v_list v = L
   \<and> length (a_tcbFree (v_adapter v)) + length (a_tcbBusy (v_adapter v)) = NIC_MAX_BUSY_SENDS"

definition sys_ok ::
  "UINT64 \<Rightarrow> UINT64 multiset \<Rightarrow> UINT64 multiset \<Rightarrow> machine \<Rightarrow> UINT64 list \<Rightarrow> UINT64 set \<Rightarrow> venet \<times> UINT64 set \<Rightarrow> bool" where
  "sys_ok p R Rm m L lost s \<longleftrightarrow>
     core_ok p R Rm m L (fst s) \<and> (\<exists>q. lists_ok q lost (fst s) \<and> snd s = set q \<union> lost)"

lemmas core_defs = core_ok_def adapter_owns_def own_blocks_def handles_def tcb_lists_ok_def arrays_ok_def

text \<open>Flags, counters and events do not matter to it, nor does the log.\<close>

definition flag_adapter :: "adapter \<Rightarrow> adapter" where
  "flag_adapter a = a\<lparr>a_state := 0, a_sendEvent := False, a_refCount := 0, a_removeEvent := False, a_resetCount := 0\<rparr>"

definition flag_step :: "venet \<Rightarrow> venet \<Rightarrow> bool" where
  "flag_step v v' \<longleftrightarrow>
     flag_adapter (v_adapter v') = flag_adapter (v_adapter v) \<and> v_nbls v' = v_nbls v \<and> v_tcbs v' = v_tcbs v
   \<and> v_list v' = v_list v \<and> v_live v' = v_live v"

lemma flag_adapter_sel:
  assumes "flag_adapter a = flag_adapter b"
  shows "a_sendQueue a = a_sendQueue b" "a_sendingNBL a = a_sendingNBL b" "a_vif a = a_vif b"
    "a_bus_handle a = a_bus_handle b" "a_rxHandle a = a_rxHandle b" "a_txHandle a = a_txHandle b"
    "a_permAddress a = a_permAddress b" "a_currAddress a = a_currAddress b" "a_mc_array a = a_mc_array b"
    "a_tcbFree a = a_tcbFree b" "a_tcbBusy a = a_tcbBusy b" "a_numTCBsFree a = a_numTCBsFree b"
  using arg_cong [OF assms, of a_sendQueue] arg_cong [OF assms, of a_sendingNBL] arg_cong [OF assms, of a_vif]
    arg_cong [OF assms, of a_bus_handle] arg_cong [OF assms, of a_rxHandle] arg_cong [OF assms, of a_txHandle]
    arg_cong [OF assms, of a_permAddress] arg_cong [OF assms, of a_currAddress] arg_cong [OF assms, of a_mc_array]
    arg_cong [OF assms, of a_tcbFree] arg_cong [OF assms, of a_tcbBusy] arg_cong [OF assms, of a_numTCBsFree]
  by (simp_all add: flag_adapter_def)

lemma flag_step_core: "flag_step v v' \<Longrightarrow> core_ok p R Rm m L v' = core_ok p R Rm m L v"
  using flag_adapter_sel [of "v_adapter v'" "v_adapter v"] by (simp add: flag_step_def core_defs)

lemma flag_step_lists: "flag_step v v' \<Longrightarrow> lists_ok q lost v' = lists_ok q lost v"
  using flag_adapter_sel [of "v_adapter v'" "v_adapter v"] by (simp add: flag_step_def lists_ok_def in_flight_def)

lemma flag_step_sys: "flag_step v v' \<Longrightarrow> sys_ok p R Rm m L lost (v', held) = sys_ok p R Rm m L lost (v, held)"
  by (simp add: sys_ok_def flag_step_core flag_step_lists)

lemma flag_step_refl: "flag_step v v"
  by (simp add: flag_step_def)

lemma flag_step_pause: "flag_step v (snd (VenetPause v))"
  by (simp add: flag_step_def VenetPause_def VenetQuiesce_def VenetSetSyncFlag_def VENET_SET_FLAG_def flag_adapter_def)

lemma flag_step_restart: "flag_step v (snd (VenetRestart v))"
  by (simp add: flag_step_def VenetRestart_def VENET_CLEAR_FLAG_def flag_adapter_def)

lemma flag_step_shutdown: "flag_step v (VenetShutdown v)"
  by (simp add: flag_step_def VenetShutdown_def VenetQuiesce_def VenetSetSyncFlag_def VENET_SET_FLAG_def flag_adapter_def)

lemma flag_step_pnp: "flag_step v (VenetDevicePnPEvent b v)"
  by (simp add: flag_step_def VenetDevicePnPEvent_def VenetSetSyncFlag_def VENET_SET_FLAG_def flag_adapter_def)

text \<open>The events of a call come behind those before; most calls report events that complete nothing.\<close>

definition silent :: "venet \<Rightarrow> venet \<Rightarrow> bool" where
  "silent v v' \<longleftrightarrow> (\<exists>es. v_io v' = v_io v @ es \<and> completed es = [])"

lemma returned_append: "v_io v' = v_io v @ es \<Longrightarrow> returned v v' = completed es"
  by (simp add: returned_def)

lemma silent_same: "v_io v' = v_io v \<Longrightarrow> silent v v'"
  by (simp add: silent_def)

lemma silent_one: "v_io v' = v_io v @ [e] \<Longrightarrow> completed [e] = [] \<Longrightarrow> silent v v'"
  by (simp add: silent_def)

lemma silent_pause: "silent v (snd (VenetPause v))"
  by (rule silent_one [of _ _ Wait_send_event]) (simp_all add: VenetPause_def VenetQuiesce_def)

lemma silent_restart: "silent v (snd (VenetRestart v))"
  by (rule silent_same) (simp add: VenetRestart_def)

lemma silent_shutdown: "silent v (VenetShutdown v)"
  by (rule silent_one [of _ _ Wait_send_event]) (simp_all add: VenetShutdown_def VenetQuiesce_def)

lemma silent_pnp: "silent v (VenetDevicePnPEvent b v)"
  by (rule silent_same) (simp add: VenetDevicePnPEvent_def)

section \<open>Calls that cancel\<close>

text \<open>A cancellation takes one list at most off the queue and completes it.\<close>

lemma cancel_progress:
  assumes "lists_ok q lost v"
  shows "\<exists>v' ds q'. SrCancelQueued i st v = Some (Inr v') \<and> lists_ok q' lost v'
           \<and> set q' = set q - set ds \<and> set ds \<subseteq> set q \<and> length ds \<le> 1
           \<and> v_io v' = v_io v @ map (\<lambda>x. Send_complete x False) ds
           \<and> v_adapter v' = (v_adapter v)\<lparr>a_sendQueue := a_sendQueue (v_adapter v')\<rparr>
           \<and> v_list v' = v_list v \<and> v_live v' = v_live v"
proof (cases "\<exists>x\<in>set q. matches i (v_nbls v) x")
  case False
  then have "SrCancelQueued i st v = Some (Inr v)"
    using assms cancel_queued_none [of v q i st] by (simp add: lists_ok_def)
  then show ?thesis using assms by (intro exI [of _ v] exI [of _ "[]"] exI [of _ q]) simp
next
  case True
  then obtain xs x ys where q: "q = xs @ x # ys" "matches i (v_nbls v) x" "\<forall>y\<in>set xs. \<not> matches i (v_nbls v) y"
    by (metis split_list_first_prop)
  then have rep: "queue_rep (send_state v) (xs @ x # ys)" using assms by (simp add: lists_ok_def)
  obtain v' where v': "SrCancelQueued i st v = Some (Inr v')" "queue_rep (send_state v') (xs @ ys)"
    "v_io v' = v_io v @ [Send_complete x False]" "v_tcbs v' = v_tcbs v" "v_list v' = v_list v" "v_live v' = v_live v"
    "v_adapter v' = (v_adapter v)\<lparr>a_sendQueue := a_sendQueue (v_adapter v')\<rparr>"
    "\<forall>p. nbl_frames (v_nbls v' p) = nbl_frames (v_nbls v p)"
    using cancel_queued_first [OF rep q(3,2), of st] by blast
  have same: "list_queued (v_nbls v' y) = list_queued (v_nbls v y)" for y
    using v'(8) by (simp add: list_queued_def list_fits_def SrCountNBL_def)
  have busy: "a_tcbBusy (v_adapter v') = a_tcbBusy (v_adapter v)" by (subst v'(7)) simp
  have "lists_ok (xs @ ys) lost v'"
    using assms q(1) v'(2,4) busy by (auto simp: lists_ok_def same in_flight_def)
  moreover have "set (xs @ ys) = set q - set [x]"
    using rep q(1) by (auto simp: queue_rep_def)
  ultimately show ?thesis
    using v' q(1) by (intro exI [of _ v'] exI [of _ "[x]"] exI [of _ "xs @ ys"]) simp
qed

lemma completed_sends [simp]: "completed (map (\<lambda>x. Send_complete x b) ds) = ds"
  by (induction ds) simp_all

lemma cancel_core:
  assumes "v_adapter v' = (v_adapter v)\<lparr>a_sendQueue := a_sendQueue (v_adapter v')\<rparr>"
    and "v_list v' = v_list v" and "v_live v' = v_live v"
  shows "core_ok p R Rm m L v' = core_ok p R Rm m L v"
proof -
  have "a_vif (v_adapter v') = a_vif (v_adapter v)" "a_bus_handle (v_adapter v') = a_bus_handle (v_adapter v)"
    "a_rxHandle (v_adapter v') = a_rxHandle (v_adapter v)" "a_txHandle (v_adapter v') = a_txHandle (v_adapter v)"
    "a_tcbFree (v_adapter v') = a_tcbFree (v_adapter v)" "a_tcbBusy (v_adapter v') = a_tcbBusy (v_adapter v)"
    "a_numTCBsFree (v_adapter v') = a_numTCBsFree (v_adapter v)" "a_permAddress (v_adapter v') = a_permAddress (v_adapter v)"
    "a_currAddress (v_adapter v') = a_currAddress (v_adapter v)" "a_mc_array (v_adapter v') = a_mc_array (v_adapter v)"
    "a_sendingNBL (v_adapter v') = a_sendingNBL (v_adapter v)"
    by (subst assms(1), simp)+
  then show ?thesis using assms(2,3) by (simp add: core_defs)
qed

text \<open>What every call does: it returns, keeps the invariant, and completes only lists it held, each once.\<close>

definition call_ok :: "UINT64 \<Rightarrow> UINT64 multiset \<Rightarrow> UINT64 multiset \<Rightarrow> machine \<Rightarrow> UINT64 list \<Rightarrow> UINT64 set \<Rightarrow> venet \<Rightarrow> UINT64 set
    \<Rightarrow> venet outcome option \<Rightarrow> bool" where
  "call_ok p R Rm m L lost v held r \<longleftrightarrow>
     (\<exists>v' es. r = Some (Inr v') \<and> v_io v' = v_io v @ es \<and> sys_ok p R Rm m L lost (v', held - set (returned v v'))
         \<and> set (returned v v') \<subseteq> held \<and> distinct (returned v v'))"

lemma call_ok_cancel:
  assumes "sys_ok p R Rm m L lost (v, held)"
  shows "call_ok p R Rm m L lost v held (SrCancelQueued i st v)"
proof -
  obtain q where ok: "core_ok p R Rm m L v" "lists_ok q lost v" "held = set q \<union> lost"
    using assms by (auto simp: sys_ok_def)
  obtain v' ds q' where v': "SrCancelQueued i st v = Some (Inr v')" "lists_ok q' lost v'" "set q' = set q - set ds" "set ds \<subseteq> set q"
    "length ds \<le> 1" "v_io v' = v_io v @ map (\<lambda>x. Send_complete x False) ds"
    "v_adapter v' = (v_adapter v)\<lparr>a_sendQueue := a_sendQueue (v_adapter v')\<rparr>" "v_list v' = v_list v" "v_live v' = v_live v"
    using cancel_progress [OF ok(2), of i st] by blast
  have r: "returned v v' = ds" using returned_append [OF v'(6)] by simp
  have "set q \<inter> lost = {}" using ok(2) by (simp add: lists_ok_def)
  then have "held - set ds = set q' \<union> lost" using ok(3) v'(3,4) by auto
  moreover have "core_ok p R Rm m L v'" using ok(1) cancel_core [OF v'(7-9)] by simp
  moreover have "distinct ds" using v'(5) by (cases ds) auto
  ultimately show ?thesis
    using v'(1,2,4,6) ok(3) r by (auto simp: call_ok_def sys_ok_def)
qed

lemma call_ok_flags:
  assumes "flag_step v v'" and "silent v v'" and "sys_ok p R Rm m L lost (v, held)"
  shows "call_ok p R Rm m L lost v held (Some (Inr v'))"
  using assms by (auto simp: call_ok_def flag_step_sys silent_def returned_append)

text \<open>A reset and its timer set flags, cancel, and set flags again.\<close>

lemma call_ok_around:
  assumes w: "flag_step v w" "v_io w = v_io v" and f: "\<And>u. flag_step u (f u)" "\<And>u. silent u (f u)"
    and ok: "sys_ok p R Rm m L lost (v, held)"
  shows "call_ok p R Rm m L lost v held (ret_bind (SrCancelQueued i st w) (\<lambda>u. Some (Inr (f u))))"
proof -
  have "sys_ok p R Rm m L lost (w, held)" using ok w(1) by (simp add: flag_step_sys)
  from call_ok_cancel [OF this, of i st] obtain u es where u: "SrCancelQueued i st w = Some (Inr u)" "v_io u = v_io v @ es"
    "sys_ok p R Rm m L lost (u, held - set (completed es))" "set (completed es) \<subseteq> held" "distinct (completed es)"
    using w(2) by (auto simp: call_ok_def returned_append)
  obtain fs where fs: "v_io (f u) = v_io v @ es @ fs" "completed fs = []"
    using f(2) [of u] u(2) by (auto simp: silent_def)
  then have "returned v (f u) = completed es" by (simp add: returned_append)
  then show ?thesis
    using u fs(1) flag_step_sys [OF f(1)] by (simp add: call_ok_def)
qed

lemma call_ok_reset:
  assumes "sys_ok p R Rm m L lost (v, held)"
  shows "call_ok p R Rm m L lost v held (ret_bind (VenetReset v) (\<lambda>(rc, b, v1). Some (Inr v1)))"
proof (cases "VENET_TEST_FLAG (v_adapter v) VNET_ADAPTER_HALT_IN_PROGRESS \<or> VENET_TEST_FLAG (v_adapter v) VNET_ADAPTER_RESET")
  case True
  then have "ret_bind (VenetReset v) (\<lambda>(rc, b, v1). Some (Inr v1)) = Some (Inr v)"
    by (auto simp: VenetReset_def)
  then show ?thesis using call_ok_flags [OF flag_step_refl _ assms] by (simp add: silent_def)
next
  case False
  let ?w = "VenetSetSyncFlag VNET_ADAPTER_RESET v"
  let ?f = "\<lambda>v1. upd_adapter (\<lambda>a. VENET_CLEAR_FLAG (a\<lparr>a_sendEvent := True\<rparr>) VNET_ADAPTER_RESET) v1"
  have "ret_bind (VenetReset v) (\<lambda>(rc, b, v1). Some (Inr v1)) =
      ret_bind (SrCancelQueued 0 NDIS_STATUS_RESET_IN_PROGRESS ?w) (\<lambda>u. Some (Inr (?f u)))"
    using False by (simp add: VenetReset_def VenetFreeQueuedSend_def ret_bind_assoc)
  then show ?thesis
    by (simp only:) (rule call_ok_around [OF _ _ _ _ assms],
      simp_all add: flag_step_def flag_adapter_def VenetSetSyncFlag_def VENET_SET_FLAG_def VENET_CLEAR_FLAG_def silent_def)
qed

lemma call_ok_reset_timer:
  assumes "sys_ok p R Rm m L lost (v, held)"
  shows "call_ok p R Rm m L lost v held (VenetResetTimerDpc v)"
proof (cases "VENET_IS_BUSY (v_adapter (upd_adapter VENET_ADAPTER_GET v))")
  case True
  let ?w = "upd_adapter VENET_ADAPTER_GET v"
  define e :: "venet \<Rightarrow> ndis_io" where "e = (\<lambda>v2. if sint (a_resetCount (v_adapter v2)) \<le> 20 then Set_timer (a_resetTimer (v_adapter v2))
    else Reset_complete NDIS_STATUS_SOFT_ERRORS)"
  define f where "f = (\<lambda>v1. let v2 = upd_adapter (\<lambda>a. a\<lparr>a_resetCount := a_resetCount a + 1\<rparr>) v1
    in upd_adapter VENET_ADAPTER_PUT (nio (e v2) v2))"
  have "VenetResetTimerDpc v = ret_bind (SrCancelQueued 0 NDIS_STATUS_RESET_IN_PROGRESS ?w) (\<lambda>u. Some (Inr (f u)))"
    using True
    by (simp add: VenetResetTimerDpc_def VenetFreeQueuedSend_def f_def e_def Let_def)
      (auto intro!: arg_cong [of _ _ "ret_bind _"] simp: fun_eq_iff)
  then show ?thesis
    by (simp only:) (rule call_ok_around [OF _ _ _ _ assms],
      simp_all add: flag_step_def flag_adapter_def VENET_ADAPTER_GET_def VENET_ADAPTER_PUT_def f_def e_def Let_def silent_def)
next
  case False
  have "VenetResetTimerDpc v = Some (Inr (upd_adapter VENET_ADAPTER_PUT (nio (Reset_complete NDIS_STATUS_SUCCESS)
      (upd_adapter (\<lambda>a. VENET_CLEAR_FLAG (VENET_ADAPTER_GET a) VNET_ADAPTER_RESET) v))))"
    using False by (simp add: VenetResetTimerDpc_def)
  then show ?thesis
    by (simp only:) (rule call_ok_flags [OF _ _ assms],
      simp_all add: flag_step_def flag_adapter_def VENET_ADAPTER_GET_def VENET_ADAPTER_PUT_def VENET_CLEAR_FLAG_def Let_def silent_def)
qed

section \<open>Requests and sends\<close>

lemma oid_adapter_sel:
  assumes "oid_adapter a = oid_adapter b"
  shows "a_sendQueue a = a_sendQueue b" "a_sendingNBL a = a_sendingNBL b" "a_vif a = a_vif b"
    "a_bus_handle a = a_bus_handle b" "a_rxHandle a = a_rxHandle b" "a_txHandle a = a_txHandle b"
    "a_tcbFree a = a_tcbFree b" "a_tcbBusy a = a_tcbBusy b" "a_numTCBsFree a = a_numTCBsFree b" "a_state a = a_state b"
  using arg_cong [OF assms, of a_sendQueue] arg_cong [OF assms, of a_sendingNBL] arg_cong [OF assms, of a_vif]
    arg_cong [OF assms, of a_bus_handle] arg_cong [OF assms, of a_rxHandle] arg_cong [OF assms, of a_txHandle]
    arg_cong [OF assms, of a_tcbFree] arg_cong [OF assms, of a_tcbBusy] arg_cong [OF assms, of a_numTCBsFree]
    arg_cong [OF assms, of a_state]
  by (simp_all add: oid_adapter_def)

lemma call_ok_oid:
  assumes ok: "sys_ok p R Rm m L lost (v, held)" and len: "unat (r_len r) \<le> length (r_buf r)" and abi: "abi_ok abi"
  shows "call_ok p R Rm m L lost v held
     (ret_bind (Some (VenetOidRequest abi (v_adapter v) r)) (\<lambda>(rc, a, r1). Some (Inr (v\<lparr>v_adapter := a\<rparr>))))"
proof -
  have "arrays_ok (v_adapter v)" using ok by (simp add: sys_ok_def core_ok_def)
  from oid_request_step [OF len this abi] obtain rc a r1 where run: "VenetOidRequest abi (v_adapter v) r = Inr (rc, a, r1)"
    and a: "oid_adapter a = oid_adapter (v_adapter v)" "arrays_ok a" by blast
  let ?v = "v\<lparr>v_adapter := a\<rparr>"
  have "core_ok p R Rm m L v \<Longrightarrow> core_ok p R Rm m L ?v"
    using oid_adapter_sel [OF a(1)] a(2) by (simp add: core_defs)
  moreover have "lists_ok q lost ?v = lists_ok q lost v" for q
    using oid_adapter_sel [OF a(1)] by (simp add: lists_ok_def in_flight_def)
  ultimately have "sys_ok p R Rm m L lost (?v, held)" using ok by (simp add: sys_ok_def)
  then show ?thesis using run by (simp add: call_ok_def returned_def)
qed

lemma lists_ok_memory:
  assumes "lists_ok q lost v" and "\<And>p. p \<in> set q \<Longrightarrow> M p = v_nbls v p"
  shows "lists_ok q lost (v\<lparr>v_nbls := M\<rparr>)"
  using assms queue_rep_cong [of "a_sendQueue (v_adapter v)" "v_nbls v" q M]
  by (simp add: lists_ok_def in_flight_def)

lemma sys_ok_memory:
  assumes "sys_ok p R Rm m L lost (v, held)" and "\<And>p. p \<in> held \<Longrightarrow> M p = v_nbls v p"
  shows "sys_ok p R Rm m L lost (v\<lparr>v_nbls := M\<rparr>, held)"
proof -
  have "core_ok p R Rm m L (v\<lparr>v_nbls := M\<rparr>) = core_ok p R Rm m L v" by (simp add: core_defs)
  then show ?thesis using assms by (auto simp: sys_ok_def intro!: lists_ok_memory)
qed

lemma queue_step_core:
  assumes "queue_step v v'" and "a_sendingNBL (v_adapter v') = 0" and "core_ok p R Rm m L v"
  shows "core_ok p R Rm m L v'"
proof -
  have t: "tcb_lists_ok (v_adapter v')" "v_live v' = v_live v" "v_list v' = v_list v"
    and ms: "mset (a_tcbFree (v_adapter v')) + mset (a_tcbBusy (v_adapter v')) = mset (a_tcbFree (v_adapter v)) + mset (a_tcbBusy (v_adapter v))"
    and a: "queue_adapter (v_adapter v') = queue_adapter (v_adapter v)"
    using assms(1) by (simp_all add: queue_step_def)
  have "own_blocks p v' = own_blocks p v" by (simp add: own_blocks_def ms)
  moreover have "length (a_tcbFree (v_adapter v')) + length (a_tcbBusy (v_adapter v')) =
      length (a_tcbFree (v_adapter v)) + length (a_tcbBusy (v_adapter v))"
    using arg_cong [OF ms, of size] by simp
  moreover have "handles v' = handles v" using queue_adapter_sel [OF a] by (simp add: handles_def)
  ultimately show ?thesis
    using assms(2,3) t queue_adapter_sel [OF a] by (auto simp: core_ok_def adapter_owns_def tcb_lists_ok_def arrays_ok_def)
qed

lemma send_ready_step:
  assumes ok: "sys_ok p R Rm m L lost (v, held)" and may: "may_call held v (Call_send ys d)"
    and ready: "\<not> VENET_IS_NOT_READY (v_adapter v)"
  shows "\<exists>v' lost'. VenetSendNetBufs (first_list ys) d v = Some (Inr v') \<and> lost \<subseteq> lost'
           \<and> sys_ok p R Rm m L lost' (v', held \<union> set ys) \<and> v_io v' = v_io v"
proof -
  obtain q where q: "core_ok p R Rm m L v" "lists_ok q lost v" "held = set q \<union> lost"
    using ok by (auto simp: sys_ok_def)
  have ys: "chain (v_nbls v) (first_list ys) ys 0" "distinct ys" "set ys \<inter> held = {}" "\<forall>y\<in>set ys. list_fits (v_nbls v y)"
    using may by (auto simp: may_call_def)
  have rep: "queue_rep (send_state v) q" and queued: "\<forall>x\<in>set q. list_queued (v_nbls v x)"
    and dis: "set q \<inter> lost = {}" and lost: "\<forall>x\<in>lost. in_flight v x"
    using q(2) by (simp_all add: lists_ok_def)
  have d: "distinct (q @ ys)" using ys(2,3) q(3) rep by (auto simp: queue_rep_def)
  from queue_sends_append [OF rep ys(1) this] obtain h M where S: "queue_sends (first_list ys) (send_state v) = Some (h, M)"
    "queue_rep (h, M) (q @ ys)" "\<forall>a. nbl_nbs (M a) = nbl_nbs (v_nbls v a) \<and> nbl_8021q (M a) = nbl_8021q (v_nbls v a)"
    "\<forall>y\<in>set ys. nbl_count (M y) = SrCountNBL (v_nbls v y)" "\<forall>y. y \<notin> set ys \<longrightarrow> nbl_count (M y) = nbl_count (v_nbls v y)"
    by blast
  let ?u = "set_send_state (h, M) v"
  have "list_queued (M x)" if "x \<in> set (q @ ys)" for x
    using that S(3-5) queued ys(4) by (cases "x \<in> set ys") (auto simp: list_queued_def list_fits_def SrCountNBL_def)
  moreover have "tcb_lists_ok (v_adapter ?u)" "a_sendingNBL (v_adapter ?u) = 0"
    using q(1) by (simp_all add: core_ok_def tcb_lists_ok_def)
  ultimately obtain v' ds q' where v': "SrProcessQueue ?u = Some (Inr v')" "q @ ys = ds @ q'" "queue_rep (send_state v') q'"
    "queue_step ?u v'" "a_sendingNBL (v_adapter v') = 0" "\<forall>x\<in>set ds. in_flight v' x"
    using process_queue_progress [of ?u "q @ ys"] S(2) by auto
  have "core_ok p R Rm m L ?u" using q(1) by (simp add: core_defs)
  then have core: "core_ok p R Rm m L v'" by (rule queue_step_core [OF v'(4,5)])
  have "list_queued (v_nbls v' x) = list_queued (M x)" for x
    using v'(4) by (intro list_queued_data) (simp add: queue_step_def)
  then have "\<forall>x\<in>set q'. list_queued (v_nbls v' x)"
    using \<open>\<And>x. x \<in> set (q @ ys) \<Longrightarrow> list_queued (M x)\<close> unfolding v'(2) by simp
  moreover have "in_flight v' x" if "x \<in> lost" for x
  proof -
    have "in_flight ?u x" using lost that by (simp add: in_flight_def)
    then show ?thesis using v'(4) unfolding queue_step_def by blast
  qed
  moreover have sets: "set q \<union> set ys = set ds \<union> set q'" using arg_cong [OF v'(2), of set] by simp
  moreover have "set q' \<inter> (lost \<union> set ds) = {}"
  proof -
    have "set ds \<inter> set q' = {}" using d unfolding v'(2) by simp
    moreover have "(set q \<union> set ys) \<inter> lost = {}" using dis ys(3) q(3) by blast
    ultimately show ?thesis using sets by blast
  qed
  ultimately have "lists_ok q' (lost \<union> set ds) v'" using v'(3,6) by (simp add: lists_ok_def ball_Un)
  moreover have "held \<union> set ys = set q' \<union> (lost \<union> set ds)"
    using q(3) sets by blast
  ultimately have "sys_ok p R Rm m L (lost \<union> set ds) (v', held \<union> set ys)" using core unfolding sys_ok_def fst_conv snd_conv by blast
  moreover have "VenetSendNetBufs (first_list ys) d v = Some (Inr v')"
    using v'(1) ready S(1) by (simp add: VenetSendNetBufs_def)
  moreover have "v_io v' = v_io v" using v'(4) by (simp add: queue_step_def)
  moreover have "lost \<subseteq> lost \<union> set ds" by simp
  ultimately show ?thesis by blast
qed

lemma send_rejected_step:
  assumes ok: "sys_ok p R Rm m L lost (v, held)" and may: "may_call held v (Call_send ys d)"
    and unready: "VENET_IS_NOT_READY (v_adapter v)"
  shows "\<exists>v'. VenetSendNetBufs (first_list ys) d v = Some (Inr v') \<and> sys_ok p R Rm m L lost (v', held)
           \<and> v_io v' = v_io v @ [Send_complete (first_list ys) d]"
proof -
  have ys: "chain (v_nbls v) (first_list ys) ys 0" "distinct ys" "set ys \<inter> held = {}"
    using may by (auto simp: may_call_def)
  let ?st = "SrGetAdapterStatus (v_adapter v)"
  let ?M = "\<lambda>a. if a \<in> set ys then (v_nbls v a)\<lparr>nbl_status := ?st\<rparr> else v_nbls v a"
  let ?v = "v\<lparr>v_nbls := ?M\<rparr>"
  have "sys_ok p R Rm m L lost (?v, held)"
    using ok by (rule sys_ok_memory) (use ys(3) in auto)
  moreover have "flag_step ?v (nio (Send_complete (first_list ys) d) ?v)" by (simp add: flag_step_def)
  ultimately have "sys_ok p R Rm m L lost (nio (Send_complete (first_list ys) d) ?v, held)"
    by (simp only: flag_step_sys)
  then show ?thesis
    using unready set_list_status [OF ys(1,2), of ?st] by (simp add: VenetSendNetBufs_def)
qed

section \<open>Histories\<close>

text \<open>A call completes lists it holds, each once; a send completes its own chain or nothing.\<close>

definition given_back :: "ndis_call \<Rightarrow> UINT64 set \<Rightarrow> venet \<Rightarrow> venet \<Rightarrow> bool" where
  "given_back c held v v' \<longleftrightarrow>
     (case c of
        Call_send ys d \<Rightarrow> returned v v' = (if VENET_IS_NOT_READY (v_adapter v) then [first_list ys] else [])
      | _ \<Rightarrow> set (returned v v') \<subseteq> held \<and> distinct (returned v v'))"

lemma venet_table:
  "mc_pause venet_characteristics = VenetPause" "mc_restart venet_characteristics = VenetRestart"
  "mc_shutdown venet_characteristics = VenetShutdown" "mc_pnp_event venet_characteristics = VenetDevicePnPEvent"
  "mc_oid_request venet_characteristics = VenetOidRequest" "mc_send venet_characteristics = VenetSendNetBufs"
  "mc_cancel_send venet_characteristics = VenetCancelSend" "mc_reset venet_characteristics = VenetReset"
  "mc_cancel_oid_request venet_characteristics i v = v" "mc_return venet_characteristics p fl v = v"
  "mc_set_options venet_characteristics v = (NDIS_STATUS_SUCCESS, v)"
  "mc_initialize venet_characteristics = VenetInitialize" "mc_halt venet_characteristics = VenetHalt"
  by (simp_all add: venet_characteristics_def VenetCancelOidRequest_def VenetReturnNetBufs_def VenetSetOptions_def)

lemma call_ok_step:
  assumes "call_ok p R Rm m L lost v held (ndis_run t abi c v)" and "\<And>ys d. c \<noteq> Call_send ys d"
  shows "\<exists>v'. ndis_run t abi c v = Some (Inr v') \<and> sys_ok p R Rm m L lost (v', held_after c v v' held) \<and> given_back c held v v'"
  using assms by (cases c) (auto simp: call_ok_def held_after_def given_back_def)

lemma ndis_call_ok:
  assumes ok: "sys_ok p R Rm m L lost (v, held)" and may: "may_call held v c" and abi: "abi_ok abi"
  shows "\<exists>v' lost'. ndis_run venet_characteristics abi c v = Some (Inr v') \<and> lost \<subseteq> lost'
           \<and> sys_ok p R Rm m L lost' (v', held_after c v v' held) \<and> given_back c held v v'"
proof (cases "\<exists>ys d. c = Call_send ys d")
  case True
  then obtain ys d where c: "c = Call_send ys d" by blast
  show ?thesis
  proof (cases "VENET_IS_NOT_READY (v_adapter v)")
    case True
    obtain v' where "VenetSendNetBufs (first_list ys) d v = Some (Inr v')" "sys_ok p R Rm m L lost (v', held)"
      "v_io v' = v_io v @ [Send_complete (first_list ys) d]"
      using send_rejected_step [OF ok may [unfolded c] True] by blast
    then show ?thesis
      using True by (intro exI [of _ v'] exI [of _ lost]) (simp add: c venet_table held_after_def given_back_def returned_append)
  next
    case False
    obtain v' lost' where "VenetSendNetBufs (first_list ys) d v = Some (Inr v')" "lost \<subseteq> lost'"
      "sys_ok p R Rm m L lost' (v', held \<union> set ys)" "v_io v' = v_io v"
      using send_ready_step [OF ok may [unfolded c] False] by blast
    then show ?thesis
      using False by (intro exI [of _ v'] exI [of _ lost']) (simp add: c venet_table held_after_def given_back_def returned_def)
  qed
next
  case False
  note same = call_ok_flags [OF flag_step_refl silent_same [OF refl] ok]
  have "call_ok p R Rm m L lost v held (ndis_run venet_characteristics abi c v)"
  proof (cases c)
    case (Call_oid_request r)
    then show ?thesis
      using call_ok_oid [OF ok _ abi, of r] may by (simp add: venet_table may_call_def del: ret_bind_Some)
  qed (use False same call_ok_flags [OF flag_step_pause silent_pause ok] call_ok_flags [OF flag_step_restart silent_restart ok]
      call_ok_flags [OF flag_step_shutdown silent_shutdown ok] call_ok_flags [OF flag_step_pnp silent_pnp ok]
      call_ok_cancel [OF ok] call_ok_reset [OF ok] call_ok_reset_timer [OF ok]
      in \<open>simp_all add: venet_table VenetCancelSend_def\<close>)
  then show ?thesis using call_ok_step False by blast
qed

lemma ndis_step_sys:
  assumes "ndis_step venet_characteristics abi s s'" and "abi_ok abi" and "sys_ok p R Rm m L lost s"
  shows "\<exists>lost'. lost \<subseteq> lost' \<and> sys_ok p R Rm m L lost' s'"
  using assms
proof cases
  case (call held v c v')
  then show ?thesis using ndis_call_ok [of p R Rm m L lost v held c abi] assms(2,3) by auto
next
  case (others held M v)
  then show ?thesis using sys_ok_memory [of p R Rm m L lost v held M] assms(3) by auto
qed

lemma ndis_run_sys:
  assumes "(ndis_step venet_characteristics abi)\<^sup>*\<^sup>* s s'" and "abi_ok abi" and "sys_ok p R Rm m L lost s"
  shows "\<exists>lost'. lost \<subseteq> lost' \<and> sys_ok p R Rm m L lost' s'"
  using assms
proof (induction rule: rtranclp_induct)
  case (step s1 s2)
  then obtain l1 where "lost \<subseteq> l1" "sys_ok p R Rm m L l1 s1" by blast
  then show ?case using ndis_step_sys [OF step.hyps(2) assms(2)] by (meson order_trans)
qed blast

lemma ready_sys_ok:
  assumes "adapter_ready v" and "adapter_owns p R Rm (v, m)"
  shows "sys_ok p R Rm m (v_list v) {} (v, {})"
  using assms
  by (simp add: sys_ok_def core_ok_def lists_ok_def adapter_ready_def tcb_ok_def tcb_lists_ok_def NIC_MAX_BUSY_SENDS_def)

lemma busy_blocks_bound:
  assumes "tcb_lists_ok (v_adapter v)" and "\<forall>x\<in>lost. in_flight v x"
  shows "finite lost" and "card lost \<le> length (a_tcbBusy (v_adapter v))"
proof -
  let ?B = "set (a_tcbBusy (v_adapter v))"
  have sub: "lost \<subseteq> (\<lambda>t. t_nbl (v_tcbs v t)) ` ?B"
    using assms(2) by (auto simp: in_flight_def)
  then show "finite lost" by (rule finite_subset) simp
  have "card lost \<le> card ((\<lambda>t. t_nbl (v_tcbs v t)) ` ?B)" by (rule card_mono [OF _ sub]) simp
  also have "\<dots> \<le> card ?B" by (rule card_image_le) simp
  also have "\<dots> \<le> length (a_tcbBusy (v_adapter v))" by (rule card_length)
  finally show "card lost \<le> length (a_tcbBusy (v_adapter v))" .
qed

lemma queue_unique: "queue_rep s xs \<Longrightarrow> queue_rep s ys \<Longrightarrow> xs = ys"
proof -
  have "chain M p xs 0 \<Longrightarrow> chain M p ys 0 \<Longrightarrow> xs = ys" for M p
  proof (induction xs arbitrary: p ys)
    case Nil
    then show ?case using chain_start by fastforce
  next
    case (Cons x xs)
    then show ?case by (cases ys) auto
  qed
  then show "queue_rep s xs \<Longrightarrow> queue_rep s ys \<Longrightarrow> xs = ys" by (auto simp: queue_rep_def)
qed

text \<open>A frame without memory counts as sent.\<close>

lemma unmapped_counts_as_sent:
  assumes "\<not> VENET_IS_NOT_READY (v_adapter v)" and "tcb_lists_ok (v_adapter v)" and "a_tcbFree (v_adapter v) \<noteq> []"
    and "a_sendingNBL (v_adapter v) = 0" and "queue_rep (send_state v) []" and "chain (v_nbls v) x [x] 0"
    and "nbl_nbs (v_nbls v x) = [nb]" and "nb_mdls nb = None # ds" and "nb_length nb \<noteq> 0"
  shows "\<exists>v'. VenetSendNetBufs x d v = Some (Inr v') \<and> queue_rep (send_state v') [] \<and> in_flight v' x \<and> v_io v' = v_io v
           \<and> nbl_status (v_nbls v' x) = nbl_status (v_nbls v x)
           \<and> length (a_tcbBusy (v_adapter v')) = Suc (length (a_tcbBusy (v_adapter v)))"
proof -
  obtain h M where S: "queue_sends x (send_state v) = Some (h, M)" "queue_rep (h, M) [x]"
    "\<forall>a. nbl_nbs (M a) = nbl_nbs (v_nbls v a) \<and> nbl_8021q (M a) = nbl_8021q (v_nbls v a) \<and> nbl_status (M a) = nbl_status (v_nbls v a)"
    "nbl_count (M x) = SrCountNBL (v_nbls v x)"
    using queue_sends_append [OF assms(5,6)] by auto
  obtain s where s: "QueueDeque (h, M) = Inr (x, s)" "queue_rep s []" using deque_rep [OF S(2)] by auto
  have x: "x \<noteq> 0" using assms(6) by auto
  have data: "nbl_data (snd s a) = nbl_data (M a)" for a by (rule deque_data [OF s(1)])
  define w where "w = set_sending x (set_send_state s v)"
  have lists: "a_tcbFree (v_adapter w) = a_tcbFree (v_adapter v)" "a_numTCBsFree (v_adapter w) = a_numTCBsFree (v_adapter v)"
    "a_tcbBusy (v_adapter w) = a_tcbBusy (v_adapter v)"
    by (simp_all add: w_def)
  have ok: "tcb_lists_ok (v_adapter w)" "a_tcbFree (v_adapter w) \<noteq> []"
    using assms(2,3) lists by (simp_all add: tcb_lists_ok_def)
  have nb: "nbl_nbs (v_nbls w x) = [nb]" "nbl_count (v_nbls w x) = 1"
    using nbl_data_sel(1,3) [OF data, of x] S(3,4) assms(7) by (simp_all add: w_def SrCountNBL_def)
  have copy: "SrCopyFrame nb pr = Inr (NDIS_STATUS_SUCCESS, [])" for pr
    using assms(8,9) by (simp add: SrCopyFrame_def copy_start_def)
  have "unat (a_numTCBsFree (v_adapter w)) = length (a_tcbFree (v_adapter w))"
    using ok(1) by (simp add: tcb_lists_ok_def unat_ulong_of_nat)
  then have free: "\<not> a_numTCBsFree (v_adapter w) < 1"
    using ok(2) by (simp add: word_less_nat_alt)
  obtain t u where al: "VenetAllocTCB x w = (t, u)" "t \<noteq> 0" "tx_step w (tcb_store t [] u)" "in_flight (tcb_store t [] u) x"
    "a_tcbBusy (v_adapter u) = t # a_tcbBusy (v_adapter w)"
    using alloc_step [OF ok, of x "[]"] by blast
  let ?w' = "tcb_store t [] u"
  note keep = tx_step_sel(1,2) [OF al(3)] tx_adapter_sel(1-3) [OF tx_step_sel(7) [OF al(3)]]
  have nbl: "SrProcessNBL w = Inr (NDIS_STATUS_SUCCESS, ?w')"
    using x nb free copy al(1,2) by (simp add: SrProcessNBL_def w_def [symmetric] Let_def SrSubmitTCB_def) (simp add: w_def Let_def SrSubmitTCB_def)
  have st: "send_state ?w' = s" using keep by (simp add: w_def)
  have stop: "SrProcessQueue (set_sending 0 ?w') = Some (Inr (set_sending 0 ?w'))"
    using queue_rep_QueueEmpty [of "fst s" "snd s" "[]"] s(2) arg_cong [OF st, of fst]
    by (subst SrProcessQueue.simps) simp
  have "\<not> QueueEmpty h" using queue_rep_QueueEmpty [OF S(2)] by simp
  then have "SrProcessQueue (set_send_state (h, M) v) = Some (Inr (set_sending 0 ?w'))"
    using assms(1,4) s(1) nbl [unfolded w_def] stop
    by (subst SrProcessQueue.simps) (simp add: VENET_IS_NOT_READY_def)
  then have "VenetSendNetBufs x d v = Some (Inr (set_sending 0 ?w'))"
    using assms(1) S(1) by (simp add: VenetSendNetBufs_def)
  moreover have "in_flight (set_sending 0 ?w') x" using al(4) by (simp add: in_flight_def)
  moreover have "v_nbls ?w' = snd s" "v_io ?w' = v_io v" using keep by (simp_all add: w_def)
  moreover have "nbl_status (snd s x) = nbl_status (v_nbls v x)" using nbl_data_sel(4) [OF data] S(3) by simp
  moreover have "length (a_tcbBusy (v_adapter ?w')) = Suc (length (a_tcbBusy (v_adapter v)))"
    using al(5) lists(3) by (simp add: tcb_store_def)
  ultimately show ?thesis using s(2) st by (intro exI [of _ "set_sending 0 ?w'"]) simp
qed

section \<open>Properties\<close>


text \<open>Claim C11. At every point of a history each list the miniport holds is in the queue, which is an intact
  chain without repetitions, or named by a busy control block; the control blocks are the twenty it began with, so that at most twenty lists are held outside the queue.\<close>

theorem held_lists_accounted:
  assumes "adapter_ready v0" and "adapter_owns p R Rm (v0, m)" and "abi_ok abi"
    and "(ndis_step venet_characteristics abi)\<^sup>*\<^sup>* (v0, {}) (v, held)"
  shows "\<exists>q. queue_rep (send_state v) q \<and> set q \<subseteq> held \<and> finite held \<and> card (held - set q) \<le> 20
       \<and> held - set q \<subseteq> {t_nbl (v_tcbs v t) | t. t \<in> set (a_tcbBusy (v_adapter v))}
       \<and> length (a_tcbFree (v_adapter v)) + length (a_tcbBusy (v_adapter v)) = 20
       \<and> a_sendingNBL (v_adapter v) = 0"
proof -
  obtain lost q where ok: "core_ok p R Rm m (v_list v0) v" "lists_ok q lost v" "held = set q \<union> lost"
    using ndis_run_sys [OF assms(4,3) ready_sys_ok [OF assms(1,2)]] by (auto simp: sys_ok_def)
  have l: "\<forall>x\<in>lost. in_flight v x" "set q \<inter> lost = {}" "queue_rep (send_state v) q"
    using ok(2) by (simp_all add: lists_ok_def)
  have t: "tcb_lists_ok (v_adapter v)" "length (a_tcbFree (v_adapter v)) + length (a_tcbBusy (v_adapter v)) = 20"
    "a_sendingNBL (v_adapter v) = 0"
    using ok(1) by (simp_all add: core_ok_def NIC_MAX_BUSY_SENDS_def)
  have diff: "held - set q = lost" using ok(3) l(2) by auto
  have "lost \<subseteq> {t_nbl (v_tcbs v t) | t. t \<in> set (a_tcbBusy (v_adapter v))}"
    using l(1) by (auto simp: in_flight_def)
  then show ?thesis
    using busy_blocks_bound [OF t(1) l(1)] t l(3) ok(3) diff by (intro exI [of _ q]) simp
qed

text \<open>Claim C12. A list that left the queue without being completed stays with the miniport: whatever
  is called afterwards, sends, cancellations, resets and pauses included, it is never completed and never queued again, and the control block that names it stays busy.\<close>

theorem lost_lists_never_return:
  assumes "adapter_ready v0" and "adapter_owns p R Rm (v0, m)" and "abi_ok abi"
    and "(ndis_step venet_characteristics abi)\<^sup>*\<^sup>* (v0, {}) (v, held)" and "queue_rep (send_state v) q"
    and "x \<in> held" and "x \<notin> set q"
    and "(ndis_step venet_characteristics abi)\<^sup>*\<^sup>* (v, held) (v', held')"
  shows "x \<in> held' \<and> in_flight v' x \<and> (\<forall>q'. queue_rep (send_state v') q' \<longrightarrow> x \<notin> set q')"
proof -
  obtain lost where ok: "sys_ok p R Rm m (v_list v0) lost (v, held)"
    using ndis_run_sys [OF assms(4,3) ready_sys_ok [OF assms(1,2)]] by blast
  then obtain q1 where "lists_ok q1 lost v" "held = set q1 \<union> lost" by (auto simp: sys_ok_def)
  moreover from this have "q1 = q" using queue_unique assms(5) by (auto simp: lists_ok_def)
  ultimately have "x \<in> lost" using assms(6,7) by auto
  moreover obtain lost' where l: "lost \<subseteq> lost'" "sys_ok p R Rm m (v_list v0) lost' (v', held')"
    using ndis_run_sys [OF assms(8,3) ok] by blast
  ultimately have x: "x \<in> lost'" by blast
  obtain q2 where q2: "lists_ok q2 lost' v'" "held' = set q2 \<union> lost'" using l(2) by (auto simp: sys_ok_def)
  then have "in_flight v' x" "x \<notin> set q2" "queue_rep (send_state v') q2" using x by (auto simp: lists_ok_def)
  then show ?thesis using x q2(2) queue_unique by blast
qed

text \<open>Claim C10. The whole life of an adapter, through the table that \<open>DriverEntry\<close> registered: after a successful
  initialization and any history of calls, halting returns and gives back exactly the memory that initialization took, of the miniport and of the bus, and the place in the list; of the
  lists the miniport still holds it completes the first queued one at most.\<close>

theorem adapter_lifecycle_clean:
  assumes "VenetDriverEntry D va d = (rc, Some t, v, d')" and "abi_ok abi"
    and "VenetAlloc v = (p, v1)" and "pool_fresh v"
    and "mc_initialize t H E handle (v, m) = Some (Inr (NDIS_STATUS_SUCCESS, v0, m0))"
    and "(ndis_step t abi)\<^sup>*\<^sup>* (v0, {}) (v2, held)"
  shows "\<exists>q v3 m3. queue_rep (send_state v2) q \<and> set q \<subseteq> held
       \<and> mc_halt t H p (v2, m0) = Some (Inr (v3, m3)) \<and> mset (v_live v3) = mset (v_live v) \<and> mset (m_live m3) = mset (m_live m)
       \<and> v_list v3 = [] \<and> completed (v_io v3) = completed (v_io v2) @ take 1 q"
proof -
  have t: "t = venet_characteristics" and l: "v_list v = []"
    using assms(1) by (auto simp: VenetDriverEntry_def Let_def split: if_splits prod.splits)
  have init: "VenetInitialize H E handle (v, m) = Some (Inr (NDIS_STATUS_SUCCESS, v0, m0))"
    using assms(5) by (simp add: t venet_table)
  have p: "p \<noteq> 0" and env: "env_ok E"
    using initialize_null_deref [OF assms(3), of E H handle m] assms(4) init by auto
  obtain orc bh m1 where opened: "VbusInterfaceOpen H (child E) VENET_VERSION 0 m = Inr (orc, bh, m1)"
    using initialize_opened [OF assms(3) p env init] by blast
  have I: "adapter_ready v0" "v_list v0 = [p]" "adapter_owns p (mset (v_live v)) (mset (m_live m)) (v0, m0)"
    using initialize_clean [OF assms(3) p assms(4) _ env opened, of handle] init l by auto
  obtain lost where ok: "sys_ok p (mset (v_live v)) (mset (m_live m)) m0 [p] lost (v2, held)"
    using ndis_run_sys [OF assms(6) [unfolded t] assms(2) ready_sys_ok [OF I(1,3)]] I(2) by auto
  then obtain q where q: "queue_rep (send_state v2) q" "set q \<subseteq> held" and own: "adapter_owns p (mset (v_live v)) (mset (m_live m)) (v2, m0)"
    and vl: "v_list v2 = [p]"
    by (auto simp: sys_ok_def lists_ok_def core_ok_def)
  from halt_owned [OF own q(1), of H] q vl show ?thesis
    by (fastforce simp: t venet_table)
qed

text \<open>Claim C31. When NDIS cannot map the memory of a frame the copy reports a count of zero, which its caller takes for
  success: on a ready adapter with a free control block the list leaves the queue without being sent or completed, its status is untouched, and the control block that names it is busy.\<close>

theorem unmapped_frame_lost:
  assumes "\<not> VENET_IS_NOT_READY (v_adapter v)" and "tcb_lists_ok (v_adapter v)" and "a_tcbFree (v_adapter v) \<noteq> []"
    and "a_sendingNBL (v_adapter v) = 0" and "queue_rep (send_state v) []" and "chain (v_nbls v) x [x] 0"
    and "nbl_nbs (v_nbls v x) = [nb]" and "nb_mdls nb = None # ds" and "nb_length nb \<noteq> 0"
  shows "\<exists>v'. VenetSendNetBufs x d v = Some (Inr v') \<and> queue_rep (send_state v') [] \<and> in_flight v' x \<and> v_io v' = v_io v
           \<and> nbl_status (v_nbls v' x) = nbl_status (v_nbls v x)
           \<and> length (a_tcbBusy (v_adapter v')) = Suc (length (a_tcbBusy (v_adapter v)))"
  by (rule unmapped_counts_as_sent [OF assms])

section \<open>Witnesses\<close>

text \<open>An initialized adapter with its twenty control blocks; the list \<open>0x60\<close> has a frame that cannot be mapped.\<close>

definition demo_blocks :: "UINT64 list" where
  "demo_blocks =
     [0x100, 0x200, 0x300, 0x400, 0x500, 0x600, 0x700, 0x800, 0x900, 0xA00, 0xB00, 0xC00, 0xD00, 0xE00, 0xF00, 0x1000, 0x1100, 0x1200, 0x1300, 0x1400]"

definition demo_up :: venet where
  "demo_up = demo_venet\<lparr>
     v_adapter := demo_adapter\<lparr>a_rxHandle := 0, a_txHandle := 0, a_numTcbs := 20, a_numTCBsFree := 20, a_tcbFree := demo_blocks\<rparr>,
     v_live := 0x50 # demo_blocks,
     v_nbls := (v_nbls demo_venet)(0x60 := (demo_nbl 0)\<lparr>nbl_nbs := [(demo_nb 100)\<lparr>nb_mdls := [None]\<rparr>]\<rparr>)\<rparr>"

lemma demo_blocks_facts: "length demo_blocks = 20" "distinct demo_blocks" "0 \<notin> set demo_blocks" "0x50 \<notin> set demo_blocks"
  "demo_blocks \<noteq> []"
  by (simp_all add: demo_blocks_def)

lemma demo_up_sel:
  "a_state (v_adapter demo_up) = 0" "a_tcbFree (v_adapter demo_up) = demo_blocks" "a_tcbBusy (v_adapter demo_up) = []"
  "a_numTCBsFree (v_adapter demo_up) = 20" "a_sendEvent (v_adapter demo_up)" "a_sendingNBL (v_adapter demo_up) = 0"
  "a_sendQueue (v_adapter demo_up) = QueueInit" "a_vif (v_adapter demo_up)" "a_bus_handle (v_adapter demo_up) = 0"
  "a_rxHandle (v_adapter demo_up) = 0" "a_txHandle (v_adapter demo_up) = 0" "v_live demo_up = 0x50 # demo_blocks"
  "v_list demo_up = [0x50]" "v_io demo_up = []" "arrays_ok (v_adapter demo_up)"
  by (simp_all add: demo_up_def demo_venet_def demo_adapter_def arrays_ok_def ETH_LENGTH_OF_ADDRESS_def mcast_bytes_def
      NIC_MAX_MCAST_LIST_def)

lemma demo_up_ready: "adapter_ready demo_up"
  by (simp add: adapter_ready_def VENET_IS_NOT_READY_def demo_up_sel tcb_ok_def demo_blocks_facts NIC_MAX_BUSY_SENDS_def queue_rep_empty)

lemma demo_up_owns: "adapter_owns 0x50 {#} (mset (m_live demo_child)) (demo_up, demo_child)"
  by (simp add: adapter_owns_def demo_up_sel demo_blocks_facts own_blocks_def handles_def block_def)

lemma demo_up_chain: "may_call {} demo_up (Call_send [0x10, 0x20, 0x30] False)"
  by (simp add: may_call_def demo_up_def demo_venet_def demo_nbl_def demo_nb_def list_fits_def frame_fits_def
      is_priority_def nic_buffer_size)

lemma demo_up_unmapped: "may_call {} demo_up (Call_send [0x60] False)"
  by (simp add: may_call_def demo_up_def demo_venet_def demo_nbl_def demo_nb_def list_fits_def frame_fits_def
      is_priority_def nic_buffer_size)


lemma demo_up_lists:
  "nbl_nbs (v_nbls demo_up 0x60) = [(demo_nb 100)\<lparr>nb_mdls := [None]\<rparr>]" "nbl_next (v_nbls demo_up 0x60) = 0"
  "nb_length ((demo_nb 100)\<lparr>nb_mdls := [None]\<rparr>) = 100"
  by (simp_all add: demo_up_def demo_nbl_def demo_nb_def)

lemma demo_lost:
  "\<exists>v1. VenetSendNetBufs 0x60 False demo_up = Some (Inr v1) \<and> queue_rep (send_state v1) [] \<and> v_io v1 = []
     \<and> ndis_step venet_characteristics demo_abi (demo_up, {}) (v1, {0x60})"
proof -
  have ready: "\<not> VENET_IS_NOT_READY (v_adapter demo_up)" using demo_up_ready by (simp add: adapter_ready_def)
  obtain v1 where v1: "VenetSendNetBufs 0x60 False demo_up = Some (Inr v1)" "queue_rep (send_state v1) []" "v_io v1 = []"
    using unmapped_counts_as_sent [OF ready, of "0x60" "(demo_nb 100)\<lparr>nb_mdls := [None]\<rparr>" "[]" False] demo_up_lists
    by (auto simp: demo_up_sel demo_blocks_facts tcb_lists_ok_def queue_rep_empty)
  have "ndis_step venet_characteristics demo_abi (demo_up, {}) (v1, held_after (Call_send [0x60] False) demo_up v1 {})"
    by (rule ndis_step.call [OF demo_up_unmapped]) (simp add: venet_table v1)
  then show ?thesis using v1 ready by (auto simp: held_after_def)
qed

lemma held_lists_accounted_witness:
  "\<exists>v1. ndis_step venet_characteristics demo_abi (demo_up, {}) (v1, {0x60})
     \<and> length (a_tcbFree (v_adapter v1)) + length (a_tcbBusy (v_adapter v1)) = 20"
proof -
  obtain v1 where "ndis_step venet_characteristics demo_abi (demo_up, {}) (v1, {0x60})" using demo_lost by blast
  then show ?thesis
    using held_lists_accounted [OF demo_up_ready demo_up_owns demo_abi_ok r_into_rtranclp] by blast
qed

lemma lost_lists_never_return_witness:
  "\<exists>v1 v2 held. ndis_step venet_characteristics demo_abi (demo_up, {}) (v1, {0x60})
     \<and> ndis_run venet_characteristics demo_abi Call_reset v1 = Some (Inr v2)
     \<and> ndis_step venet_characteristics demo_abi (v1, {0x60}) (v2, held) \<and> 0x60 \<in> held"
proof -
  obtain v1 where v1: "queue_rep (send_state v1) []" "ndis_step venet_characteristics demo_abi (demo_up, {}) (v1, {0x60})"
    using demo_lost by blast
  have may: "may_call {0x60} v1 Call_reset" by (simp add: may_call_def)
  obtain lost where "sys_ok 0x50 {#} (mset (m_live demo_child)) demo_child (v_list demo_up) lost (v1, {0x60})"
    using ndis_step_sys [OF v1(2) demo_abi_ok ready_sys_ok [OF demo_up_ready demo_up_owns]] by blast
  from ndis_call_ok [OF this may demo_abi_ok] obtain v2 where
    run: "ndis_run venet_characteristics demo_abi Call_reset v1 = Some (Inr v2)" by blast
  note step = ndis_step.call [OF may run]
  have "0x60 \<in> held_after Call_reset v1 v2 {0x60}"
    using lost_lists_never_return [OF demo_up_ready demo_up_owns demo_abi_ok r_into_rtranclp [of "ndis_step _ _", OF v1(2)] v1(1) _ _
        r_into_rtranclp [of "ndis_step _ _", OF step]] by simp
  then show ?thesis using v1(2) run step by blast
qed

lemma unmapped_frame_lost_witness:
  "\<exists>v1. VenetSendNetBufs 0x60 False demo_up = Some (Inr v1) \<and> in_flight v1 0x60 \<and> v_io v1 = []"
proof -
  have ready: "\<not> VENET_IS_NOT_READY (v_adapter demo_up)" using demo_up_ready by (simp add: adapter_ready_def)
  show ?thesis
    using unmapped_frame_lost [OF ready, of "0x60" "(demo_nb 100)\<lparr>nb_mdls := [None]\<rparr>" "[]" False] demo_up_lists
    by (auto simp: demo_up_sel demo_blocks_facts tcb_lists_ok_def queue_rep_empty)
qed

text \<open>A driver that was just loaded, with memory for one adapter.\<close>

definition demo_loaded :: venet where
  "demo_loaded = demo_driver\<lparr>v_pool := 0x50 # demo_blocks\<rparr>"

lemma demo_loaded_facts:
  "VenetAlloc demo_loaded = (0x50, demo_loaded\<lparr>v_pool := demo_blocks, v_live := [0x50]\<rparr>)" "pool_fresh demo_loaded"
  "enough_memory demo_loaded demo_child" "demo_loaded\<lparr>v_list := []\<rparr> = demo_loaded" "v_live demo_loaded = []"
  by (simp_all add: demo_loaded_def demo_driver_def VenetAlloc_def pool_fresh_def enough_memory_def demo_child_def demo_blocks_def)

lemma adapter_lifecycle_clean_witness:
  "\<exists>v0 m0 v3 m3. VenetInitialize demo_host demo_env 7 (demo_loaded, demo_child) = Some (Inr (NDIS_STATUS_SUCCESS, v0, m0))
     \<and> VenetHalt demo_host 0x50 (v0, m0) = Some (Inr (v3, m3)) \<and> v_live v3 = [] \<and> v_list v3 = []"
proof -
  obtain bh m1 where o: "VbusInterfaceOpen demo_host (child demo_env) VENET_VERSION 0 demo_child = Inr (0, bh, m1)"
    and pool: "m_pool m1 = m_pool demo_child"
    by (simp add: VbusInterfaceOpen_def pdo_get_def VbusBusCall_def vbus_pci_buscall_def acquire_def Let_def demo_child_def
        demo_env_def demo_host_def demo_bus_def demo_fresh_def demo_machine_def pdo_set_def)
  obtain v0 m0 where init: "VenetInitialize demo_host demo_env 7 (demo_loaded, demo_child) = Some (Inr (NDIS_STATUS_SUCCESS, v0, m0))"
    using initialize_succeeds [OF demo_loaded_facts(2) demo_env_ok demo_loaded_facts(3) o pool, of 7]
    by (auto simp: demo_env_def)
  obtain d' where entry: "VenetDriverEntry demo_driver_env demo_loaded \<lparr>dr_mp_handle = 0, dr_io = []\<rparr> =
      (NDIS_STATUS_SUCCESS, Some venet_characteristics, demo_loaded, d')"
    using demo_loaded_facts(4)
    by (simp add: VenetDriverEntry_def demo_driver_env_def Let_def VENET_NDIS_MAJOR_VERSION_def VENET_NDIS_MINOR_VERSION_def
        push_bit_eq_mult)
  show ?thesis
    using adapter_lifecycle_clean [OF entry demo_abi_ok demo_loaded_facts(1,2) _ rtranclp.rtrancl_refl] init demo_loaded_facts(5)
    by (fastforce simp: venet_table)
qed

end
