(* ===== verification/Spec2Isabelle.thy ===== *)
theory Spec2Isabelle
  imports Shm_Protocol Shm_Library Ioq_Types Pci_Delivery Vbus_Driver Venet_System
begin

text \<open>
  A model of the Windows guest drivers of AlacrityVM, \<open>src/windows/\<close>: the bus driver \<open>vbus\<close>, which
  talks to the host over a PCI device, and the network miniport \<open>venet\<close>, which sits on a child device of
  that bus. The model follows the C code function by function and keeps its names.

  \<^bold>\<open>How the program is put together.\<close> The host and the guest share memory. A shared-memory signal
  (\<open>vbus/shm-signal.c\<close>) has a descriptor with three bytes per party, \<open>enabled\<close>, \<open>dirty\<close> and \<open>pending\<close>, that
  decide when one party interrupts the other. A descriptor ring (\<open>vbus/ioq.c\<close>) has two indexes over an array
  of descriptors with an owner flag, and a signal. The bus driver (\<open>vbus/pci.c\<close>) keeps one ring, the event
  queue, through which the host announces devices and signals; it calls the host through a register (slow
  calls) and a port (fast calls). For each device of the host it creates a child (\<open>vbus/pdo.c\<close>) and offers an
  interface of functions (\<open>vbus/interface.c\<close>). The miniport (\<open>venet/venet.c\<close>, \<open>sendrcv.c\<close>, \<open>oids.c\<close>) queries that
  interface, creates a send and a receive queue, and answers NDIS.

  \<^bold>\<open>The theories.\<close>
  \<^item> \<open>Vbus_Prelude\<close>: machine integers as words of their width, the outcome type with the faults of C on its left
    (null pointer, access out of bounds, use after free), NTSTATUS, generic facts, and the locale \<open>allocator\<close>,
    the contract of a pool.
  \<^item> \<open>Shm_Signal\<close>: \<open>vbus/shm-signal.c\<close>, each operation as one step, and what sequences of operations of both parties
    do. \<open>Shm_Protocol\<close>: the same code access by access, as an inductive step relation of an injector and a
    receiver; the invariant shows that no signal is lost under any interleaving. \<open>Shm_Library\<close>: the copy in
    \<open>libraries/shm-signal\<close>, which no driver links, and its agreement with the bus driver's.
  \<^item> \<open>Ioq_Ring\<close>: \<open>vbus/ioq.c\<close> and the inline functions of \<open>ioq.h\<close>. \<open>Ioq_Slots\<close>: an index as the list of its slots.
    \<open>Ioq_Queue\<close>: the ring as a first-in first-out queue, through a queue locale interpreted on the ring operations.
    \<open>Ioq_Types\<close>: a typing of rings and iterators that every operation keeps.
  \<^item> \<open>Pci_State\<close>: \<open>struct vbus_pci\<close>, the events, the memory behind the pointers, the pool, and the log of what the
    driver does to the outside. \<open>Pci_Bridge\<close>: the hypercalls. \<open>Pci_Signal\<close>: the reference-counted signals of
    children and their interrupts. \<open>Pci_Eventq\<close>: the event queue, its loop and set-up. \<open>Pci_Lifecycle\<close>: preparing and
    releasing the hardware, with every exit. All from \<open>vbus/pci.c\<close>, the pool from \<open>vbus/vbus.c\<close>.
    \<open>Pci_Delivery\<close>: the event queue end to end, a host that posts and signals against the interrupt service routine and
    the deferred call, turn by turn of its loop, as a step relation.
  \<^item> \<open>Vbus_Interface\<close>: \<open>vbus/pdo.c\<close>, \<open>vbus/interface.c\<close> and the device proxies of \<open>vbus/pci.c\<close>. \<open>Vbus_Driver\<close>: the entry
    point, \<open>VbusAdd\<close> and the callbacks of \<open>vbus/vbus.c\<close>, with the framework as a relation of calls through the registered tables.
  \<^item> \<open>Venet_State\<close>, \<open>Venet_Queue\<close>, \<open>Venet_Send\<close>: \<open>venet/venet.h\<close> and \<open>venet/sendrcv.c\<close>. The send queue is a list
    linked through the first field of the net buffer lists in an explicit memory, since the code walks links
    while it changes them; the locale \<open>deque\<close> is what the senders rely on. \<open>Venet_Oids\<close>: \<open>venet/oids.c\<close>.
    \<open>Venet_Handlers\<close> and \<open>Venet_Adapter\<close>: \<open>venet/venet.c\<close>, the latter on the pair of the miniport's state and the
    machine of the bus driver, so that both drivers run together. \<open>Venet_Progress\<close>: every send, cancellation and OID
    request returns. \<open>Venet_Driver\<close>: \<open>DriverEntry\<close> and the table of handlers. \<open>Venet_System\<close>: NDIS as a relation of calls
    through that table, with the lists the miniport holds kept beside the state.

  \<^bold>\<open>Correspondence.\<close> A structure is a record, an enumeration a datatype, a C integer a word of its width. Pointers
  are addresses, 0 is null; where aliasing matters the memory is a map, otherwise the pointed-to value is a field.
  A function that changes state takes and returns it; undefined behaviour is a value of the outcome type; a loop
  that may not end is a \<open>partial_function (option)\<close>, whose \<open>None\<close> is divergence, so that every statement of the form
  \<open>f x = Some y\<close> also says that the code returns. No fuel is used. The loop of \<open>eventq_wakeup\<close> reads memory the host
  may change: the host's step between two turns is a parameter. Locks are entries of the log. Allocation answers
  come from a list in the state, so that every allocation may fail at any point.

  \<^bold>\<open>What the lemmas show.\<close> Signals: no signal is lost, interrupts are bounded by the acknowledgements, masking defers.
  Ring: it refines a queue, is bounded, its counts are exact with wrapping arithmetic, double iterators keep both
  indexes in step, programs over the iterators do not fault. Bus: the wakeup loop ends and handles exactly the queued
  events, against a host that never stops it does not end; under every interleaving the handlers get the posted
  events in order and once each, and an interrupt that was taken drains the ring, but on a line of its own only the
  first one ever comes. Set-up links every descriptor to its event, preparing the hardware is all or nothing, no
  sequence of callbacks, interrupts and event handlers leaks memory, signals are freed once. Children:
  which calls reach the host, and which never do. Miniport: the copy of a frame equals a gather of its memory
  descriptors, control blocks are accounted for, queue operations keep the list, OID queries
  stay within their buffer, initialization either gives a ready adapter or gives everything back, halting frees
  everything once. Over whole histories of NDIS calls no call faults or hangs, every list the miniport holds is accounted
  for, and a list that is lost stays lost.
  Several statements describe what the code does where its comments promise something else; their texts say so.

  \<^bold>\<open>Parameters.\<close> The physical addresses, what the host answers to a call, what it writes into shared memory, and the
  answers of the driver framework and NDIS (locks, interrupts, timers, mappings, attributes) are fields of the
  records \<open>host\<close> and \<open>ndis_env\<close>; structure sizes and header constants of NDIS are in \<open>ndis_abi\<close>. Status codes have the
  values the driver kit documents.

  \<^bold>\<open>Not modelled.\<close> \<open>log.c\<close>, debug output to a serial port; the packet receive path, whose functions have empty bodies; the
  structures of \<open>venet_dev.h\<close>, which nothing uses. Interrupt levels and preemption inside the bus driver are not modelled beyond
  \<open>Shm_Protocol\<close> and \<open>Pci_Delivery\<close>: an event handler runs as one step. Lengths of frames are natural
  numbers, since a copy beyond the frame buffer is a fault long before a 32-bit sum wraps.
\<close>

end
